(* ===== verification/Prelude.thy ===== *)
theory Prelude
  imports Main "HOL-Library.Word" "HOL-Library.Monad_Syntax"
begin

text \<open>
  Shared vocabulary of the development: the Go types the components use, the standard
  library routines the sources call (\<^verbatim>\<open>sort.Search\<close>), the collections of
  simplification rules the component theories extend, and generic lemmas on lists.

  A Go panic (nil dereference, index out of range, division by zero, explicit
  \<^verbatim>\<open>panic\<close>) is the value \<^term>\<open>None\<close> of an option result; an error that the
  code returns is a value of a sum type.
\<close>

section \<open>Types\<close>

type_synonym u64 = "64 word"
type_synonym byte = "8 word"
type_synonym address = "160 word"
type_synonym hash = "256 word"

section \<open>Collections of rules\<close>

named_theorems obj_simps \<open>unfolding the operations on one account object\<close>
named_theorems db_simps \<open>unfolding the operations of the state database\<close>
named_theorems obs_simps \<open>how operations change the observable state\<close>

section \<open>Euclidean division of big integers\<close>

text \<open>
  \<^verbatim>\<open>(*big.Int).Div\<close> is Euclidean division: the remainder is never negative. It panics
  on a zero divisor.
\<close>

definition big_Div :: "int \<Rightarrow> int \<Rightarrow> int option" where
  "big_Div x y =
     (if y = 0 then None else Some (if 0 < y then x div y else - (x div (- y))))"

lemma big_Div_pos [simp]: "0 < y \<Longrightarrow> big_Div x y = Some (x div y)"
  by (simp add: big_Div_def)

lemma big_Div_zero [simp]: "big_Div x 0 = None"
  by (simp add: big_Div_def)

section \<open>Binary search of the Go library\<close>

text \<open>
  \<^verbatim>\<open>sort.Search(n, f)\<close>: the loop keeps \<open>f (i - 1) = false\<close> and \<open>f j = true\<close> and
  halves the interval.
\<close>

function sort_Search_loop :: "(nat \<Rightarrow> bool) \<Rightarrow> nat \<Rightarrow> nat \<Rightarrow> nat" where
  "sort_Search_loop f i j =
     (if i < j then
        (let h = (i + j) div 2 in
         if \<not> f h then sort_Search_loop f (h + 1) j else sort_Search_loop f i h)
      else i)"
  by pat_completeness auto
termination
  by (relation "measure (\<lambda>(f, i, j). j - i)") auto

declare sort_Search_loop.simps [simp del]

definition sort_Search :: "nat \<Rightarrow> (nat \<Rightarrow> bool) \<Rightarrow> nat" where
  "sort_Search n f = sort_Search_loop f 0 n"

lemma sort_Search_loop_unfold:
  "i < j \<Longrightarrow> sort_Search_loop f i j =
     (if \<not> f ((i + j) div 2) then sort_Search_loop f ((i + j) div 2 + 1) j
      else sort_Search_loop f i ((i + j) div 2))"
  "\<not> i < j \<Longrightarrow> sort_Search_loop f i j = i"
  by (simp_all add: sort_Search_loop.simps [of f i j] Let_def)

lemma sort_Search_loop_le: "i \<le> j \<Longrightarrow> sort_Search_loop f i j \<le> j"
proof (induction f i j rule: sort_Search_loop.induct)
  case (1 f i j)
  show ?case
  proof (cases "i < j")
    case True
    then have "i \<le> (i + j) div 2" "(i + j) div 2 + 1 \<le> j" by auto
    with True "1.IH" [OF True refl] show ?thesis
      by (auto simp: sort_Search_loop_unfold intro: le_trans)
  qed (use "1.prems" in \<open>simp add: sort_Search_loop_unfold\<close>)
qed

lemma sort_Search_le: "sort_Search n f \<le> n"
  by (simp add: sort_Search_def sort_Search_loop_le)

text \<open>On a monotone predicate the search returns the least index that satisfies it.\<close>

lemma sort_Search_loop_least:
  assumes "i \<le> j"
    and "\<And>k l. k \<le> l \<Longrightarrow> l < n \<Longrightarrow> f k \<Longrightarrow> f l"
    and "\<And>k. k < i \<Longrightarrow> \<not> f k"
    and "\<And>k. j \<le> k \<Longrightarrow> k < n \<Longrightarrow> f k"
    and "j \<le> n"
  shows "sort_Search_loop f i j \<le> j
    \<and> (\<forall>k < sort_Search_loop f i j. \<not> f k)
    \<and> (\<forall>k. sort_Search_loop f i j \<le> k \<longrightarrow> k < n \<longrightarrow> f k)"
  using assms
proof (induction f i j rule: sort_Search_loop.induct)
  case (1 f i j)
  show ?case
  proof (cases "i < j")
    case False
    with "1.prems" show ?thesis by (auto simp: sort_Search_loop_unfold)
  next
    case True
    let ?h = "(i + j) div 2"
    have h: "i \<le> ?h" "?h < j" "?h < n" using True "1.prems"(5) by auto
    show ?thesis
    proof (cases "f ?h")
      case True
      have up: "\<And>k. ?h \<le> k \<Longrightarrow> k < n \<Longrightarrow> f k"
        using "1.prems"(2) True by blast
      have "sort_Search_loop f i ?h \<le> ?h
        \<and> (\<forall>k < sort_Search_loop f i ?h. \<not> f k)
        \<and> (\<forall>k. sort_Search_loop f i ?h \<le> k \<longrightarrow> k < n \<longrightarrow> f k)"
        by (rule "1.IH"(2) [OF \<open>i < j\<close> refl])
           (use True h up "1.prems" in auto)
      with True \<open>i < j\<close> h show ?thesis by (auto simp: sort_Search_loop_unfold)
    next
      case False
      have low: "\<not> f k" if "k < ?h + 1" for k
      proof
        assume "f k"
        then have "f ?h" using "1.prems"(2) [of k ?h] that h by simp
        with False show False ..
      qed
      have "sort_Search_loop f (?h + 1) j \<le> j
        \<and> (\<forall>k < sort_Search_loop f (?h + 1) j. \<not> f k)
        \<and> (\<forall>k. sort_Search_loop f (?h + 1) j \<le> k \<longrightarrow> k < n \<longrightarrow> f k)"
        by (rule "1.IH"(1) [OF \<open>i < j\<close> refl])
           (use False h low "1.prems" in auto)
      with False \<open>i < j\<close> show ?thesis by (auto simp: sort_Search_loop_unfold)
    qed
  qed
qed

lemma sort_Search_least:
  assumes "\<forall>k l. k \<le> l \<longrightarrow> l < n \<longrightarrow> f k \<longrightarrow> f l"
  shows "sort_Search n f \<le> n"
    and "\<And>k. k < sort_Search n f \<Longrightarrow> \<not> f k"
    and "\<And>k. sort_Search n f \<le> k \<Longrightarrow> k < n \<Longrightarrow> f k"
proof -
  have "sort_Search_loop f 0 n \<le> n \<and> (\<forall>k < sort_Search_loop f 0 n. \<not> f k)
    \<and> (\<forall>k. sort_Search_loop f 0 n \<le> k \<longrightarrow> k < n \<longrightarrow> f k)"
    by (rule sort_Search_loop_least) (use assms in auto)
  then show "sort_Search n f \<le> n" and "\<And>k. k < sort_Search n f \<Longrightarrow> \<not> f k"
    and "\<And>k. sort_Search n f \<le> k \<Longrightarrow> k < n \<Longrightarrow> f k"
    by (auto simp: sort_Search_def)
qed

end
