(* ===== verification/State_DB.thy ===== *)
theory State_DB
  imports Prelude
begin

text \<open>
  The journaled account database of \<^verbatim>\<open>src/core/state\<close>: account objects
  (\<^verbatim>\<open>state_object.go\<close>), the database that caches them (\<^verbatim>\<open>statedb.go\<close>) and the
  journal of undo records (\<^verbatim>\<open>journal.go\<close>). The definitions only; what they guarantee is
  proved in the theories that import this one.

  The Go methods mutate the object a pointer denotes. An object is reachable from the
  database through \<^verbatim>\<open>stateObjects\<close> under its own address, so a mutation is modelled by
  storing the new value of the object under that address. The callback
  \<^verbatim>\<open>onDirty\<close> is always \<^verbatim>\<open>MarkStateObjectDirty\<close> or nil, hence a flag.

  The account trie and the storage tries are used through the interface
  \<^verbatim>\<open>Trie\<close> of \<^verbatim>\<open>database.go\<close>; they appear here by what that interface lets the
  database see: a finite map from keys to decoded leaves, and for every key the
  database error that resolving the path to it meets, if any.
\<close>

section \<open>Tries as the state database sees them\<close>

datatype dberr =
    NodeErr string
  | CantCreateStorageTrie dberr
  | CantLoadCode hash dberr
  | RlpErr

datatype 'v leaf = Leaf 'v | Garbled

record ('k, 'v) atrie =
  content :: "'k \<Rightarrow> 'v leaf option"
  fault :: "'k \<Rightarrow> dberr option"

definition TryGet :: "('k, 'v) atrie \<Rightarrow> 'k \<Rightarrow> 'v leaf option \<times> dberr option" where
  "TryGet t k = (case fault t k of Some e \<Rightarrow> (None, Some e) | None \<Rightarrow> (content t k, None))"

definition TryUpdate :: "('k, 'v) atrie \<Rightarrow> 'k \<Rightarrow> 'v \<Rightarrow> ('k, 'v) atrie \<times> dberr option" where
  "TryUpdate t k v = (case fault t k of
     Some e \<Rightarrow> (t, Some e)
   | None \<Rightarrow> (t\<lparr>content := (content t)(k \<mapsto> Leaf v)\<rparr>, None))"

definition TryDelete :: "('k, 'v) atrie \<Rightarrow> 'k \<Rightarrow> ('k, 'v) atrie \<times> dberr option" where
  "TryDelete t k = (case fault t k of
     Some e \<Rightarrow> (t, Some e)
   | None \<Rightarrow> (t\<lparr>content := (content t)(k := None)\<rparr>, None))"

definition empty_trie :: "('k, 'v) atrie" where
  "empty_trie = \<lparr>content = (\<lambda>_. None), fault = (\<lambda>_. None)\<rparr>"

section \<open>Accounts and account objects\<close>

record account =
  Nonce :: u64
  Balance :: int
  Root :: hash
  CodeHash :: hash
  LastUpdatedHeight :: int
  WeightAtLastUpdatedHeight :: int

type_synonym storage_trie = "(hash, hash) atrie"
type_synonym storage = "hash \<Rightarrow> hash option"

record stateObject =
  address :: address
  data :: account
  objErr :: "dberr option"
  strie :: "storage_trie option"
  code :: "byte list option"
  cachedStorage :: storage
  dirtyStorage :: storage
  dirtyCode :: bool
  suicided :: bool
  touched :: bool
  deleted :: bool
  onDirty :: bool

text \<open>
  What the code takes from outside the package: Keccak-256, the store of storage tries
  and of contract code, and the root hashes of a storage trie and of the account trie.
\<close>

record sdb_env =
  keccak256 :: "byte list \<Rightarrow> hash"
  StoredTrie :: "hash \<Rightarrow> dberr + storage_trie"
  ContractCode :: "hash \<Rightarrow> dberr + byte list"
  ContractCodeSize :: "hash \<Rightarrow> nat \<times> dberr option"
  TrieHash :: "storage_trie \<Rightarrow> hash"
  StateHash :: "(address, account) atrie \<Rightarrow> hash"

definition emptyCodeHash :: "sdb_env \<Rightarrow> hash" where
  "emptyCodeHash E = keccak256 E []"

definition empty :: "sdb_env \<Rightarrow> stateObject \<Rightarrow> bool" where
  "empty E obj \<longleftrightarrow>
     Nonce (data obj) = 0 \<and> Balance (data obj) = 0 \<and> CodeHash (data obj) = emptyCodeHash E"

definition newObject :: "address \<Rightarrow> account \<Rightarrow> bool \<Rightarrow> stateObject" where
  "newObject a d cb =
     \<lparr>address = a, data = d, objErr = None, strie = None, code = None,
      cachedStorage = Map.empty, dirtyStorage = Map.empty, dirtyCode = False,
      suicided = False, touched = False, deleted = False, onDirty = cb\<rparr>"

text \<open>
  \<^verbatim>\<open>Account{}\<close> after the defaults of \<^verbatim>\<open>newObject\<close> have replaced its nil fields.
\<close>

definition zeroAccount :: "sdb_env \<Rightarrow> account" where
  "zeroAccount E =
     \<lparr>Nonce = 0, Balance = 0, Root = 0, CodeHash = emptyCodeHash E,
      LastUpdatedHeight = 0, WeightAtLastUpdatedHeight = 0\<rparr>"

definition obj_setError :: "dberr option \<Rightarrow> stateObject \<Rightarrow> stateObject" where
  "obj_setError err obj = (if objErr obj = None then obj\<lparr>objErr := err\<rparr> else obj)"

text \<open>
  Opening the trie with the zero root resolves no node and cannot fail
  (\<^verbatim>\<open>trie.New\<close>).
\<close>

definition OpenStorageTrie :: "sdb_env \<Rightarrow> hash \<Rightarrow> dberr + storage_trie" where
  "OpenStorageTrie E r = (if r = 0 then Inr empty_trie else StoredTrie E r)"

definition getTrie :: "sdb_env \<Rightarrow> stateObject \<Rightarrow> storage_trie \<times> stateObject" where
  "getTrie E obj = (case strie obj of
     Some t \<Rightarrow> (t, obj)
   | None \<Rightarrow> (case OpenStorageTrie E (Root (data obj)) of
       Inr t \<Rightarrow> (t, obj\<lparr>strie := Some t\<rparr>)
     | Inl e \<Rightarrow> (empty_trie,
         obj_setError (Some (CantCreateStorageTrie e))
           (obj\<lparr>strie := Some empty_trie\<rparr>))))"

definition obj_GetState :: "sdb_env \<Rightarrow> stateObject \<Rightarrow> hash \<Rightarrow> hash \<times> stateObject" where
  "obj_GetState E obj key = (case cachedStorage obj key of
     Some value \<Rightarrow> (value, obj)
   | None \<Rightarrow>
      (let (t, obj1) = getTrie E obj in
       case TryGet t key of
         (_, Some e) \<Rightarrow> (0, obj_setError (Some e) obj1)
       | (enc, None) \<Rightarrow>
          (let (value, obj2) = (case enc of
                 None \<Rightarrow> (0, obj1)
               | Some Garbled \<Rightarrow> (0, obj_setError (Some RlpErr) obj1)
               | Some (Leaf v) \<Rightarrow> (v, obj1)) in
           (value,
            if value \<noteq> 0
            then obj2\<lparr>cachedStorage := (cachedStorage obj2)(key \<mapsto> value)\<rparr>
            else obj2))))"

definition obj_Code :: "sdb_env \<Rightarrow> stateObject \<Rightarrow> byte list option \<times> stateObject" where
  "obj_Code E obj = (case code obj of
     Some c \<Rightarrow> (Some c, obj)
   | None \<Rightarrow>
      if CodeHash (data obj) = emptyCodeHash E then (None, obj)
      else (case ContractCode E (CodeHash (data obj)) of
          Inr c \<Rightarrow> (Some c, obj\<lparr>code := Some c\<rparr>)
        | Inl e \<Rightarrow>
            (None, (obj_setError (Some (CantLoadCode (CodeHash (data obj)) e)) obj)\<lparr>code := None\<rparr>)))"

text \<open>\<^verbatim>\<open>Weight\<close> panics when the height is nil, that is before the first \<^verbatim>\<open>Prepare\<close>.\<close>

definition Weight :: "stateObject \<Rightarrow> int option \<Rightarrow> int option" where
  "Weight obj height = do {
     h \<leftarrow> height;
     let delta = h - LastUpdatedHeight (data obj);
     Some (WeightAtLastUpdatedHeight (data obj) + Balance (data obj) * delta)
   }"

section \<open>The database\<close>

record log =
  logAddress :: address
  Topics :: "hash list"
  Data :: "byte list"
  logBlockNumber :: u64
  TxHash :: hash
  BlockHash :: hash
  TxIndex :: int
  Index :: u64

datatype journalEntry =
    createObjectChange address
  | resetObjectChange stateObject
  | suicideChange address bool int
  | balanceChange address int
  | nonceChange address u64
  | storageChange address hash hash
  | codeChange address "byte list option" hash
  | refundChange u64
  | addLogChange hash
  | addPreimageChange hash
  | touchChange address bool bool

record stateDB =
  trie :: "(address, account) atrie"
  stateObjects :: "address \<Rightarrow> stateObject option"
  stateObjectsDirty :: "address set"
  dbErr :: "dberr option"
  refund :: u64
  thash :: hash
  bhash :: hash
  bheight :: "int option"
  txIndex :: int
  logs :: "hash \<Rightarrow> log list option"
  logSize :: u64
  preimages :: "hash \<Rightarrow> byte list option"
  journal :: "journalEntry list"
  validRevisions :: "(int \<times> nat) list"
  nextRevisionId :: int

definition New :: "(address, account) atrie \<Rightarrow> stateDB" where
  "New tr =
     \<lparr>trie = tr, stateObjects = Map.empty, stateObjectsDirty = {}, dbErr = None,
      refund = 0, thash = 0, bhash = 0, bheight = None, txIndex = 0,
      logs = Map.empty, logSize = 0, preimages = Map.empty,
      journal = [], validRevisions = [], nextRevisionId = 0\<rparr>"

definition setError :: "dberr option \<Rightarrow> stateDB \<Rightarrow> stateDB" where
  "setError err s = (if dbErr s = None then s\<lparr>dbErr := err\<rparr> else s)"

definition setStateObject :: "stateObject \<Rightarrow> stateDB \<Rightarrow> stateDB" where
  "setStateObject obj s = s\<lparr>stateObjects := (stateObjects s)(address obj \<mapsto> obj)\<rparr>"

definition MarkStateObjectDirty :: "address \<Rightarrow> stateDB \<Rightarrow> stateDB" where
  "MarkStateObjectDirty a s = s\<lparr>stateObjectsDirty := insert a (stateObjectsDirty s)\<rparr>"

definition append_journal :: "journalEntry \<Rightarrow> stateDB \<Rightarrow> stateDB" where
  "append_journal e s = s\<lparr>journal := journal s @ [e]\<rparr>"

text \<open>
  Every setter of an object ends by running the callback if there is one and dropping
  it; the object with its new fields is the one the database holds.
\<close>

definition fire :: "stateObject \<Rightarrow> stateDB \<Rightarrow> stateDB" where
  "fire obj s =
     (if onDirty obj
      then setStateObject (obj\<lparr>onDirty := False\<rparr>) (MarkStateObjectDirty (address obj) s)
      else setStateObject obj s)"

definition getStateObject :: "address \<Rightarrow> stateDB \<Rightarrow> stateObject option \<times> stateDB" where
  "getStateObject a s = (case stateObjects s a of
     Some obj \<Rightarrow> if deleted obj then (None, s) else (Some obj, s)
   | None \<Rightarrow> (case TryGet (trie s) a of
       (None, err) \<Rightarrow> (None, setError err s)
     | (Some Garbled, _) \<Rightarrow> (None, s)
     | (Some (Leaf d), _) \<Rightarrow>
        (let obj = newObject a d True in (Some obj, setStateObject obj s))))"

subsection \<open>Setters of an object\<close>

definition setNonce :: "stateObject \<Rightarrow> u64 \<Rightarrow> stateDB \<Rightarrow> stateDB" where
  "setNonce obj n s = fire (obj\<lparr>data := (data obj)\<lparr>Nonce := n\<rparr>\<rparr>) s"

definition setBalance :: "stateObject \<Rightarrow> int \<Rightarrow> stateDB \<Rightarrow> stateDB" where
  "setBalance obj amount s = fire (obj\<lparr>data := (data obj)\<lparr>Balance := amount\<rparr>\<rparr>) s"

definition setState :: "stateObject \<Rightarrow> hash \<Rightarrow> hash \<Rightarrow> stateDB \<Rightarrow> stateDB" where
  "setState obj key value s =
     fire (obj\<lparr>cachedStorage := (cachedStorage obj)(key \<mapsto> value),
               dirtyStorage := (dirtyStorage obj)(key \<mapsto> value)\<rparr>) s"

definition setCode :: "stateObject \<Rightarrow> hash \<Rightarrow> byte list option \<Rightarrow> stateDB \<Rightarrow> stateDB" where
  "setCode obj h c s =
     fire (obj\<lparr>code := c, data := (data obj)\<lparr>CodeHash := h\<rparr>, dirtyCode := True\<rparr>) s"

definition setWeight :: "stateObject \<Rightarrow> int \<Rightarrow> int option \<Rightarrow> stateDB \<Rightarrow> stateDB option" where
  "setWeight obj weight height s = do {
     h \<leftarrow> height;
     Some (fire (obj\<lparr>data := (data obj)\<lparr>WeightAtLastUpdatedHeight := weight,
                                         LastUpdatedHeight := h\<rparr>\<rparr>) s)
   }"

definition markSuicided :: "stateObject \<Rightarrow> stateDB \<Rightarrow> stateDB" where
  "markSuicided obj s = fire (obj\<lparr>suicided := True\<rparr>) s"

definition touch :: "stateObject \<Rightarrow> stateDB \<Rightarrow> stateDB" where
  "touch obj s =
     fire (obj\<lparr>touched := True\<rparr>)
       (append_journal (touchChange (address obj) (touched obj) (\<not> onDirty obj)) s)"

definition obj_SetBalance :: "stateObject \<Rightarrow> int \<Rightarrow> stateDB \<Rightarrow> stateDB" where
  "obj_SetBalance obj amount s =
     setBalance obj amount
       (append_journal (balanceChange (address obj) (Balance (data obj))) s)"

definition obj_AddBalance :: "sdb_env \<Rightarrow> stateObject \<Rightarrow> int \<Rightarrow> stateDB \<Rightarrow> stateDB" where
  "obj_AddBalance E obj amount s =
     (if amount = 0 then (if empty E obj then touch obj s else s)
      else obj_SetBalance obj (Balance (data obj) + amount) s)"

definition obj_SubBalance :: "stateObject \<Rightarrow> int \<Rightarrow> stateDB \<Rightarrow> stateDB" where
  "obj_SubBalance obj amount s =
     (if amount = 0 then s else obj_SetBalance obj (Balance (data obj) - amount) s)"

definition obj_SetNonce :: "stateObject \<Rightarrow> u64 \<Rightarrow> stateDB \<Rightarrow> stateDB" where
  "obj_SetNonce obj n s =
     setNonce obj n (append_journal (nonceChange (address obj) (Nonce (data obj))) s)"

definition obj_SetState :: "sdb_env \<Rightarrow> stateObject \<Rightarrow> hash \<Rightarrow> hash \<Rightarrow> stateDB \<Rightarrow> stateDB" where
  "obj_SetState E obj key value s =
     (let (prev, obj1) = obj_GetState E obj key in
      setState obj1 key value (append_journal (storageChange (address obj) key prev) s))"

definition obj_SetCode ::
  "sdb_env \<Rightarrow> stateObject \<Rightarrow> hash \<Rightarrow> byte list option \<Rightarrow> stateDB \<Rightarrow> stateDB" where
  "obj_SetCode E obj h c s =
     (let (prevcode, obj1) = obj_Code E obj in
      setCode obj1 h c
        (append_journal (codeChange (address obj) prevcode (CodeHash (data obj1))) s))"

definition obj_AddWeight :: "stateObject \<Rightarrow> int \<Rightarrow> int option \<Rightarrow> stateDB \<Rightarrow> stateDB option" where
  "obj_AddWeight obj v h s = do { w \<leftarrow> Weight obj h; setWeight obj w h s }"

definition obj_SubWeight :: "stateObject \<Rightarrow> int \<Rightarrow> int option \<Rightarrow> stateDB \<Rightarrow> stateDB option" where
  "obj_SubWeight obj v h s = do {
     let balanceBeforeDec = Balance (data obj);
     let balanceAfterDec = Balance (data obj) - v;
     weightAfterDec \<leftarrow>
       big_Div (WeightAtLastUpdatedHeight (data obj) * balanceAfterDec) balanceBeforeDec;
     setWeight obj weightAfterDec h s
   }"

subsection \<open>Creating objects\<close>

definition createObject ::
  "sdb_env \<Rightarrow> address \<Rightarrow> stateDB \<Rightarrow> (stateObject \<times> stateObject option) \<times> stateDB" where
  "createObject E a s =
     (let (prev, s1) = getStateObject a s;
          newobj = newObject a (zeroAccount E) True;
          \<comment> \<open>\<^verbatim>\<open>newobj.setNonce(0)\<close>: runs the callback, the object is not stored yet\<close>
          s2 = MarkStateObjectDirty a s1;
          newobj = newobj\<lparr>onDirty := False\<rparr>;
          s3 = (case prev of
                  None \<Rightarrow> append_journal (createObjectChange a) s2
                | Some p \<Rightarrow> append_journal (resetObjectChange p) s2)
      in ((newobj, prev), setStateObject newobj s3))"

definition GetOrNewStateObject :: "sdb_env \<Rightarrow> address \<Rightarrow> stateDB \<Rightarrow> stateObject \<times> stateDB" where
  "GetOrNewStateObject E a s =
     (case getStateObject a s of
        (Some obj, s1) \<Rightarrow>
          if deleted obj
          then (case createObject E a s1 of ((newobj, _), s2) \<Rightarrow> (newobj, s2))
          else (obj, s1)
      | (None, s1) \<Rightarrow> (case createObject E a s1 of ((newobj, _), s2) \<Rightarrow> (newobj, s2)))"

definition CreateAccount :: "sdb_env \<Rightarrow> address \<Rightarrow> stateDB \<Rightarrow> stateDB option" where
  "CreateAccount E a s =
     (case createObject E a s of
        ((newobj, None), s1) \<Rightarrow> Some s1
      | ((newobj, Some prev), s1) \<Rightarrow> do {
          s2 \<leftarrow> setWeight newobj 0 (bheight s1) s1;
          newobj2 \<leftarrow> stateObjects s2 a;
          Some (setBalance newobj2 (Balance (data prev)) s2)
        })"

subsection \<open>Reading\<close>

definition Exist :: "address \<Rightarrow> stateDB \<Rightarrow> bool \<times> stateDB" where
  "Exist a s = (case getStateObject a s of (o1, s1) \<Rightarrow> (o1 \<noteq> None, s1))"

definition Empty :: "sdb_env \<Rightarrow> address \<Rightarrow> stateDB \<Rightarrow> bool \<times> stateDB" where
  "Empty E a s = (case getStateObject a s of
     (None, s1) \<Rightarrow> (True, s1)
   | (Some obj, s1) \<Rightarrow> (empty E obj, s1))"

definition GetBalance :: "address \<Rightarrow> stateDB \<Rightarrow> int \<times> stateDB" where
  "GetBalance a s = (case getStateObject a s of
     (Some obj, s1) \<Rightarrow> (Balance (data obj), s1)
   | (None, s1) \<Rightarrow> (0, s1))"

definition GetNonce :: "address \<Rightarrow> stateDB \<Rightarrow> u64 \<times> stateDB" where
  "GetNonce a s = (case getStateObject a s of
     (Some obj, s1) \<Rightarrow> (Nonce (data obj), s1)
   | (None, s1) \<Rightarrow> (0, s1))"

definition GetCode :: "sdb_env \<Rightarrow> address \<Rightarrow> stateDB \<Rightarrow> byte list option \<times> stateDB" where
  "GetCode E a s = (case getStateObject a s of
     (Some obj, s1) \<Rightarrow> (case obj_Code E obj of (c, obj1) \<Rightarrow> (c, setStateObject obj1 s1))
   | (None, s1) \<Rightarrow> (None, s1))"

definition GetCodeSize :: "sdb_env \<Rightarrow> address \<Rightarrow> stateDB \<Rightarrow> nat \<times> stateDB" where
  "GetCodeSize E a s = (case getStateObject a s of
     (None, s1) \<Rightarrow> (0, s1)
   | (Some obj, s1) \<Rightarrow> (case code obj of
       Some c \<Rightarrow> (length c, s1)
     | None \<Rightarrow> (case ContractCodeSize E (CodeHash (data obj)) of
         (n, None) \<Rightarrow> (n, s1)
       | (n, Some e) \<Rightarrow> (n, setError (Some e) s1))))"

definition GetCodeHash :: "address \<Rightarrow> stateDB \<Rightarrow> hash \<times> stateDB" where
  "GetCodeHash a s = (case getStateObject a s of
     (Some obj, s1) \<Rightarrow> (CodeHash (data obj), s1)
   | (None, s1) \<Rightarrow> (0, s1))"

definition GetState :: "sdb_env \<Rightarrow> address \<Rightarrow> hash \<Rightarrow> stateDB \<Rightarrow> hash \<times> stateDB" where
  "GetState E a key s = (case getStateObject a s of
     (Some obj, s1) \<Rightarrow>
       (case obj_GetState E obj key of (v, obj1) \<Rightarrow> (v, setStateObject obj1 s1))
   | (None, s1) \<Rightarrow> (0, s1))"

definition HasSuicided :: "address \<Rightarrow> stateDB \<Rightarrow> bool \<times> stateDB" where
  "HasSuicided a s = (case getStateObject a s of
     (Some obj, s1) \<Rightarrow> (suicided obj, s1)
   | (None, s1) \<Rightarrow> (False, s1))"

definition GetWeight :: "address \<Rightarrow> stateDB \<Rightarrow> (int \<times> stateDB) option" where
  "GetWeight a s = (case getStateObject a s of
     (Some obj, s1) \<Rightarrow> do { w \<leftarrow> Weight obj (bheight s1); Some (w, s1) }
   | (None, s1) \<Rightarrow> Some (0, s1))"

definition GetRefund :: "stateDB \<Rightarrow> u64" where
  "GetRefund s = refund s"

definition GetLogs :: "hash \<Rightarrow> stateDB \<Rightarrow> log list" where
  "GetLogs h s = (case logs s h of None \<Rightarrow> [] | Some ls \<Rightarrow> ls)"

subsection \<open>Writing\<close>

definition AddBalance :: "sdb_env \<Rightarrow> address \<Rightarrow> int \<Rightarrow> stateDB \<Rightarrow> stateDB" where
  "AddBalance E a amount s =
     (case GetOrNewStateObject E a s of (obj, s1) \<Rightarrow> obj_AddBalance E obj amount s1)"

definition SubBalance :: "sdb_env \<Rightarrow> address \<Rightarrow> int \<Rightarrow> stateDB \<Rightarrow> stateDB" where
  "SubBalance E a amount s =
     (case GetOrNewStateObject E a s of (obj, s1) \<Rightarrow> obj_SubBalance obj amount s1)"

definition SetBalance :: "sdb_env \<Rightarrow> address \<Rightarrow> int \<Rightarrow> stateDB \<Rightarrow> stateDB" where
  "SetBalance E a amount s =
     (case GetOrNewStateObject E a s of (obj, s1) \<Rightarrow> obj_SetBalance obj amount s1)"

definition addWeight :: "sdb_env \<Rightarrow> address \<Rightarrow> int \<Rightarrow> stateDB \<Rightarrow> stateDB option" where
  "addWeight E a amount s =
     (case GetOrNewStateObject E a s of (obj, s1) \<Rightarrow> obj_AddWeight obj amount (bheight s1) s1)"

definition subWeight :: "sdb_env \<Rightarrow> address \<Rightarrow> int \<Rightarrow> stateDB \<Rightarrow> stateDB option" where
  "subWeight E a amount s =
     (case GetOrNewStateObject E a s of (obj, s1) \<Rightarrow> obj_SubWeight obj amount (bheight s1) s1)"

definition AddBalanceAndWeight :: "sdb_env \<Rightarrow> address \<Rightarrow> int \<Rightarrow> stateDB \<Rightarrow> stateDB option" where
  "AddBalanceAndWeight E a amount s = do {
     s1 \<leftarrow> addWeight E a amount s;
     Some (AddBalance E a amount s1)
   }"

definition SubBalanceAndWeight :: "sdb_env \<Rightarrow> address \<Rightarrow> int \<Rightarrow> stateDB \<Rightarrow> stateDB option" where
  "SubBalanceAndWeight E a amount s = do {
     s1 \<leftarrow> subWeight E a amount s;
     Some (SubBalance E a amount s1)
   }"

definition ClearWeight :: "address \<Rightarrow> stateDB \<Rightarrow> stateDB option" where
  "ClearWeight a s = (case getStateObject a s of
     (Some obj, s1) \<Rightarrow> setWeight obj 0 (bheight s1) s1
   | (None, s1) \<Rightarrow> Some s1)"

definition SetNonce :: "sdb_env \<Rightarrow> address \<Rightarrow> u64 \<Rightarrow> stateDB \<Rightarrow> stateDB" where
  "SetNonce E a n s =
     (case GetOrNewStateObject E a s of (obj, s1) \<Rightarrow> obj_SetNonce obj n s1)"

definition SetCode :: "sdb_env \<Rightarrow> address \<Rightarrow> byte list option \<Rightarrow> stateDB \<Rightarrow> stateDB" where
  "SetCode E a c s =
     (case GetOrNewStateObject E a s of (obj, s1) \<Rightarrow>
        obj_SetCode E obj (keccak256 E (case c of None \<Rightarrow> [] | Some b \<Rightarrow> b)) c s1)"

definition SetState :: "sdb_env \<Rightarrow> address \<Rightarrow> hash \<Rightarrow> hash \<Rightarrow> stateDB \<Rightarrow> stateDB" where
  "SetState E a key value s =
     (case GetOrNewStateObject E a s of (obj, s1) \<Rightarrow> obj_SetState E obj key value s1)"

text \<open>
  \<^verbatim>\<open>Suicide\<close> clears the balance after \<^verbatim>\<open>markSuicided\<close> by assigning the field directly.
\<close>

definition Suicide :: "address \<Rightarrow> stateDB \<Rightarrow> bool \<times> stateDB" where
  "Suicide a s = (case getStateObject a s of
     (None, s1) \<Rightarrow> (False, s1)
   | (Some obj, s1) \<Rightarrow>
      (let s2 = append_journal (suicideChange a (suicided obj) (Balance (data obj))) s1
       in (True, markSuicided (obj\<lparr>data := (data obj)\<lparr>Balance := 0\<rparr>\<rparr>) s2)))"

definition AddLog :: "log \<Rightarrow> stateDB \<Rightarrow> stateDB" where
  "AddLog l s =
     (let s1 = append_journal (addLogChange (thash s)) s;
          l1 = l\<lparr>TxHash := thash s, BlockHash := bhash s, TxIndex := txIndex s, Index := logSize s\<rparr>
      in s1\<lparr>logs := (logs s)(thash s \<mapsto> GetLogs (thash s) s @ [l1]), logSize := logSize s + 1\<rparr>)"

definition AddPreimage :: "hash \<Rightarrow> byte list \<Rightarrow> stateDB \<Rightarrow> stateDB" where
  "AddPreimage h pre s = (case preimages s h of
     Some _ \<Rightarrow> s
   | None \<Rightarrow> (append_journal (addPreimageChange h) s)\<lparr>preimages := (preimages s)(h \<mapsto> pre)\<rparr>)"

definition AddRefund :: "u64 \<Rightarrow> stateDB \<Rightarrow> stateDB" where
  "AddRefund gas s = (append_journal (refundChange (refund s)) s)\<lparr>refund := refund s + gas\<rparr>"

definition Prepare :: "hash \<Rightarrow> hash \<Rightarrow> u64 \<Rightarrow> int \<Rightarrow> stateDB \<Rightarrow> stateDB" where
  "Prepare th bh height ti s =
     s\<lparr>thash := th, bhash := bh, bheight := Some (uint height), txIndex := ti\<rparr>"

section \<open>The journal\<close>

definition ripemd :: address where
  "ripemd = 3"

text \<open>\<^term>\<open>undo e s\<close> is \<^term>\<open>None\<close> where the method of \<^verbatim>\<open>journal.go\<close> would panic.\<close>

fun undo :: "journalEntry \<Rightarrow> stateDB \<Rightarrow> stateDB option" where
  "undo (createObjectChange a) s =
     Some (s\<lparr>stateObjects := (stateObjects s)(a := None),
             stateObjectsDirty := stateObjectsDirty s - {a}\<rparr>)"
| "undo (resetObjectChange prev) s = Some (setStateObject prev s)"
| "undo (suicideChange a prev prevbalance) s =
     (case getStateObject a s of
        (None, s1) \<Rightarrow> Some s1
      | (Some obj, s1) \<Rightarrow> Some (setBalance (obj\<lparr>suicided := prev\<rparr>) prevbalance s1))"
| "undo (touchChange a prev prevDirty) s =
     (if \<not> prev \<and> a \<noteq> ripemd then
        (case getStateObject a s of
           (None, _) \<Rightarrow> None
         | (Some obj, s1) \<Rightarrow>
            (let s2 = setStateObject (obj\<lparr>touched := prev\<rparr>) s1 in
             Some (if \<not> prevDirty
                   then s2\<lparr>stateObjectsDirty := stateObjectsDirty s2 - {a}\<rparr>
                   else s2)))
      else Some s)"
| "undo (balanceChange a prev) s =
     (case getStateObject a s of
        (None, _) \<Rightarrow> None
      | (Some obj, s1) \<Rightarrow> Some (setBalance obj prev s1))"
| "undo (nonceChange a prev) s =
     (case getStateObject a s of
        (None, _) \<Rightarrow> None
      | (Some obj, s1) \<Rightarrow> Some (setNonce obj prev s1))"
| "undo (codeChange a prevcode prevhash) s =
     (case getStateObject a s of
        (None, _) \<Rightarrow> None
      | (Some obj, s1) \<Rightarrow> Some (setCode obj prevhash prevcode s1))"
| "undo (storageChange a key prevalue) s =
     (case getStateObject a s of
        (None, _) \<Rightarrow> None
      | (Some obj, s1) \<Rightarrow> Some (setState obj key prevalue s1))"
| "undo (refundChange prev) s = Some (s\<lparr>refund := prev\<rparr>)"
| "undo (addLogChange h) s =
     (let ls = GetLogs h s in
      if length ls = 1 then Some (s\<lparr>logs := (logs s)(h := None), logSize := logSize s - 1\<rparr>)
      else if ls = [] then None
      else Some (s\<lparr>logs := (logs s)(h \<mapsto> butlast ls), logSize := logSize s - 1\<rparr>))"
| "undo (addPreimageChange h) s = Some (s\<lparr>preimages := (preimages s)(h := None)\<rparr>)"

text \<open>The loop of \<^verbatim>\<open>RevertToSnapshot\<close>: the entries from the last one back.\<close>

fun undo_all :: "journalEntry list \<Rightarrow> stateDB \<Rightarrow> stateDB option" where
  "undo_all [] s = Some s"
| "undo_all (e # es) s = do { s1 \<leftarrow> undo_all es s; undo e s1 }"

definition Snapshot :: "stateDB \<Rightarrow> int \<times> stateDB" where
  "Snapshot s =
     (nextRevisionId s,
      s\<lparr>nextRevisionId := nextRevisionId s + 1,
        validRevisions := validRevisions s @ [(nextRevisionId s, length (journal s))]\<rparr>)"

definition RevertToSnapshot :: "int \<Rightarrow> stateDB \<Rightarrow> stateDB option" where
  "RevertToSnapshot revid s =
     (let revs = validRevisions s;
          idx = sort_Search (length revs) (\<lambda>i. revid \<le> fst (revs ! i)) in
      if idx = length revs \<or> fst (revs ! idx) \<noteq> revid then None
      else do {
        let snapshot = snd (revs ! idx);
        s1 \<leftarrow> undo_all (drop snapshot (journal s)) s;
        Some (s1\<lparr>journal := take snapshot (journal s1), validRevisions := take idx (validRevisions s1)\<rparr>)
      })"

definition clearJournalAndRefund :: "stateDB \<Rightarrow> stateDB" where
  "clearJournalAndRefund s = s\<lparr>journal := [], validRevisions := []\<rparr>"

text \<open>The equations that evaluate a run of operations on a concrete database.\<close>

lemmas sdb_eval =
  AddBalance_def SubBalance_def SetBalance_def GetOrNewStateObject_def createObject_def
  getStateObject_def New_def TryGet_def TryUpdate_def TryDelete_def empty_trie_def newObject_def
  setError_def obj_setError_def MarkStateObjectDirty_def append_journal_def setStateObject_def
  obj_AddBalance_def obj_SubBalance_def obj_SetBalance_def obj_SetNonce_def setBalance_def
  setNonce_def fire_def GetBalance_def GetNonce_def Let_def zeroAccount_def SetState_def
  obj_SetState_def obj_GetState_def GetState_def getTrie_def OpenStorageTrie_def setState_def
  Snapshot_def RevertToSnapshot_def sort_Search_def sort_Search_loop.simps Suicide_def
  markSuicided_def AddRefund_def SetNonce_def touch_def empty_def emptyCodeHash_def ripemd_def
  Prepare_def addWeight_def subWeight_def obj_AddWeight_def obj_SubWeight_def Weight_def
  setWeight_def AddBalanceAndWeight_def SubBalanceAndWeight_def GetWeight_def Exist_def
  CreateAccount_def GetCode_def GetCodeHash_def obj_Code_def SetCode_def obj_SetCode_def
  setCode_def clearJournalAndRefund_def

end
