(* ===== verification/State_Ops.thy ===== *)
theory State_Ops
  imports State_DB
begin

text \<open>
  The methods of the state database as one type of operations and the execution of a
  sequence of them, with a small run that the witnesses of other theories use.
\<close>

section \<open>The public operations\<close>

text \<open>
  One constructor per method a client may call between a snapshot and its revert.
  \<^term>\<open>ReadOp a\<close> is any read that only loads the account (\<^verbatim>\<open>GetBalance\<close>,
  \<^verbatim>\<open>GetNonce\<close>, \<^verbatim>\<open>Exist\<close>, \<^verbatim>\<open>Empty\<close>, \<^verbatim>\<open>GetCodeHash\<close>, \<^verbatim>\<open>HasSuicided\<close>).
\<close>

datatype sdb_op =
    AddBalanceOp address int | SubBalanceOp address int | SetBalanceOp address int
  | AddBalanceAndWeightOp address int | SubBalanceAndWeightOp address int
  | ClearWeightOp address | SetNonceOp address u64 | SetCodeOp address "byte list option"
  | SetStateOp address hash hash | SuicideOp address | CreateAccountOp address
  | AddLogOp log | AddPreimageOp hash "byte list" | AddRefundOp u64
  | PrepareOp hash hash u64 int
  | ReadOp address | GetCodeOp address | GetCodeSizeOp address | GetStateOp address hash
  | SnapshotOp | RevertOp int

fun exec_op :: "sdb_env \<Rightarrow> sdb_op \<Rightarrow> stateDB \<Rightarrow> stateDB option" where
  "exec_op E (AddBalanceOp a v) s = Some (AddBalance E a v s)"
| "exec_op E (SubBalanceOp a v) s = Some (SubBalance E a v s)"
| "exec_op E (SetBalanceOp a v) s = Some (SetBalance E a v s)"
| "exec_op E (AddBalanceAndWeightOp a v) s = AddBalanceAndWeight E a v s"
| "exec_op E (SubBalanceAndWeightOp a v) s = SubBalanceAndWeight E a v s"
| "exec_op E (ClearWeightOp a) s = ClearWeight a s"
| "exec_op E (SetNonceOp a n) s = Some (SetNonce E a n s)"
| "exec_op E (SetCodeOp a c) s = Some (SetCode E a c s)"
| "exec_op E (SetStateOp a k v) s = Some (SetState E a k v s)"
| "exec_op E (SuicideOp a) s = Some (snd (Suicide a s))"
| "exec_op E (CreateAccountOp a) s = CreateAccount E a s"
| "exec_op E (AddLogOp l) s = Some (AddLog l s)"
| "exec_op E (AddPreimageOp h p) s = Some (AddPreimage h p s)"
| "exec_op E (AddRefundOp g) s = Some (AddRefund g s)"
| "exec_op E (PrepareOp th bh n i) s = Some (Prepare th bh n i s)"
| "exec_op E (ReadOp a) s = Some (snd (getStateObject a s))"
| "exec_op E (GetCodeOp a) s = Some (snd (GetCode E a s))"
| "exec_op E (GetCodeSizeOp a) s = Some (snd (GetCodeSize E a s))"
| "exec_op E (GetStateOp a k) s = Some (snd (GetState E a k s))"
| "exec_op E SnapshotOp s = Some (snd (Snapshot s))"
| "exec_op E (RevertOp i) s = RevertToSnapshot i s"

fun exec_ops :: "sdb_env \<Rightarrow> sdb_op list \<Rightarrow> stateDB \<Rightarrow> stateDB option" where
  "exec_ops E [] s = Some s"
| "exec_ops E (x # xs) s = do { s1 \<leftarrow> exec_op E x s; exec_ops E xs s1 }"

section \<open>A run\<close>

definition demo_env :: sdb_env where
  "demo_env = \<lparr>keccak256 = (\<lambda>bs. of_nat (length bs) + 7), StoredTrie = (\<lambda>_. Inl (NodeErr [])),
     ContractCode = (\<lambda>_. Inl (NodeErr [])), ContractCodeSize = (\<lambda>_. (0, None)), TrieHash = (\<lambda>_. 1), StateHash = (\<lambda>_. 2)\<rparr>"

definition demo_ops :: "sdb_op list" where
  "demo_ops = [AddBalanceOp 4 10, SetStateOp 4 1 5, SnapshotOp, SuicideOp 4, RevertOp 1,
     AddRefundOp 3]"

lemma demo_ops_run:
  "case exec_ops demo_env demo_ops (snd (Snapshot (New empty_trie))) of
     None \<Rightarrow> False
   | Some t \<Rightarrow> fst (GetBalance 4 t) = 10 \<and> refund t = 3 \<and> map fst (validRevisions t) = [0]"
  by (simp add: sdb_eval demo_env_def demo_ops_def)

end
