(* ===== verification/State_Write.thy ===== *)
theory State_Write
  imports State_Ops
begin

text \<open>
  Writing the cached accounts back to the tries: \<^verbatim>\<open>updateTrie\<close>, \<^verbatim>\<open>updateRoot\<close>,
  \<^verbatim>\<open>updateStateObject\<close>, \<^verbatim>\<open>deleteStateObject\<close>, \<^verbatim>\<open>Finalise\<close>,
  \<^verbatim>\<open>IntermediateRoot\<close>, \<^verbatim>\<open>DeleteSuicides\<close> and \<^verbatim>\<open>Commit\<close> of
  \<^verbatim>\<open>src/core/state\<close>, and the operations that start a new database, \<^verbatim>\<open>Copy\<close> and
  \<^verbatim>\<open>Reset\<close>. Definitions, and one run.

  Go iterates over a map in an unspecified order. The orders are arguments here: a list
  of the addresses, and for each address a list of its dirty storage keys.
\<close>

section \<open>Operations\<close>

text \<open>
  One turn of the loop of \<^verbatim>\<open>updateTrie\<close>. The variable \<^verbatim>\<open>tr\<close> of the source is the
  pointer \<^verbatim>\<open>self.trie\<close>.
\<close>

definition updateTrie_step :: "hash \<Rightarrow> stateObject \<Rightarrow> stateObject" where
  "updateTrie_step key obj = (case (dirtyStorage obj key, strie obj) of
     (Some value, Some tr) \<Rightarrow>
       (let (tr1, err) = (if value = 0 then TryDelete tr key else TryUpdate tr key value) in
        obj_setError err
          (obj\<lparr>dirtyStorage := (dirtyStorage obj)(key := None), strie := Some tr1\<rparr>))
   | _ \<Rightarrow> obj)"

definition updateTrie :: "sdb_env \<Rightarrow> hash list \<Rightarrow> stateObject \<Rightarrow> stateObject" where
  "updateTrie E keys obj = fold updateTrie_step keys (snd (getTrie E obj))"

definition updateRoot :: "sdb_env \<Rightarrow> hash list \<Rightarrow> stateObject \<Rightarrow> stateObject" where
  "updateRoot E keys obj =
     (let obj1 = updateTrie E keys obj in
      case strie obj1 of
        Some tr \<Rightarrow> obj1\<lparr>data := (data obj1)\<lparr>Root := TrieHash E tr\<rparr>\<rparr>
      | None \<Rightarrow> obj1)"

text \<open>RLP has no encoding for negative big integers; encoding them is an error.\<close>

definition rlp_encodable :: "account \<Rightarrow> bool" where
  "rlp_encodable d \<longleftrightarrow>
     0 \<le> Balance d \<and> 0 \<le> LastUpdatedHeight d \<and> 0 \<le> WeightAtLastUpdatedHeight d"

definition updateStateObject :: "stateObject \<Rightarrow> stateDB \<Rightarrow> stateDB option" where
  "updateStateObject obj s =
     (if \<not> rlp_encodable (data obj) then None
      else (let (tr, err) = TryUpdate (trie s) (address obj) (data obj) in
            Some (setError err (s\<lparr>trie := tr\<rparr>))))"

definition deleteStateObject :: "stateObject \<Rightarrow> stateDB \<Rightarrow> stateDB" where
  "deleteStateObject obj s =
     (let s1 = setStateObject (obj\<lparr>deleted := True\<rparr>) s;
          (tr, err) = TryDelete (trie s1) (address obj) in
      setError err (s1\<lparr>trie := tr\<rparr>))"

definition finalise_step ::
  "sdb_env \<Rightarrow> bool \<Rightarrow> (address \<Rightarrow> hash list) \<Rightarrow> address \<Rightarrow> stateDB \<Rightarrow> stateDB option" where
  "finalise_step E deleteEmptyObjects keys a s = do {
     obj \<leftarrow> stateObjects s a;
     if suicided obj \<or> deleteEmptyObjects \<and> empty E obj
     then Some (deleteStateObject obj s)
     else (let obj1 = updateRoot E (keys a) obj in
           updateStateObject obj1 (setStateObject obj1 s))
   }"

fun finalise_loop ::
  "sdb_env \<Rightarrow> bool \<Rightarrow> (address \<Rightarrow> hash list) \<Rightarrow> address list \<Rightarrow> stateDB \<Rightarrow> stateDB option" where
  "finalise_loop E del keys [] s = Some s"
| "finalise_loop E del keys (a # as) s = do {
     s1 \<leftarrow> finalise_step E del keys a s;
     finalise_loop E del keys as s1
   }"

definition Finalise ::
  "sdb_env \<Rightarrow> bool \<Rightarrow> (address \<Rightarrow> hash list) \<Rightarrow> address list \<Rightarrow> stateDB \<Rightarrow> stateDB option" where
  "Finalise E deleteEmptyObjects keys order s =
     map_option clearJournalAndRefund (finalise_loop E deleteEmptyObjects keys order s)"

definition IntermediateRoot ::
  "sdb_env \<Rightarrow> bool \<Rightarrow> (address \<Rightarrow> hash list) \<Rightarrow> address list \<Rightarrow> stateDB \<Rightarrow> (hash \<times> stateDB) option" where
  "IntermediateRoot E deleteEmptyObjects keys order s = do {
     s1 \<leftarrow> Finalise E deleteEmptyObjects keys order s;
     Some (StateHash E (trie s1), s1)
   }"

fun delete_suicides_loop :: "address list \<Rightarrow> stateDB \<Rightarrow> stateDB option" where
  "delete_suicides_loop [] s = Some s"
| "delete_suicides_loop (a # as) s = do {
     obj \<leftarrow> stateObjects s a;
     let s1 = (if suicided obj
               then s\<lparr>stateObjects := (stateObjects s)(a \<mapsto> obj\<lparr>deleted := True\<rparr>)\<rparr> else s);
     delete_suicides_loop as (s1\<lparr>stateObjectsDirty := stateObjectsDirty s1 - {a}\<rparr>)
   }"

definition DeleteSuicides :: "address list \<Rightarrow> stateDB \<Rightarrow> stateDB option" where
  "DeleteSuicides order s = delete_suicides_loop order (clearJournalAndRefund s)"

section \<open>Committing\<close>

text \<open>
  What \<^verbatim>\<open>Commit\<close> hands to the node database: contract code, storage tries, and the
  account trie. Committing a trie may report an error; which tries do is an argument.
\<close>

datatype db_write =
    InsertCode hash "byte list"
  | CommitStorage storage_trie
  | CommitState "(address, account) atrie"

record commit_env =
  StorageCommitErr :: "storage_trie \<Rightarrow> dberr option"
  StateCommitErr :: "(address, account) atrie \<Rightarrow> dberr option"

definition CommitTrie ::
  "sdb_env \<Rightarrow> commit_env \<Rightarrow> hash list \<Rightarrow> stateObject \<Rightarrow> (dberr option \<times> db_write list) \<times> stateObject" where
  "CommitTrie E C keys obj =
     (let obj1 = updateTrie E keys obj in
      case objErr obj1 of
        Some e \<Rightarrow> ((Some e, []), obj1)
      | None \<Rightarrow> (case strie obj1 of
          None \<Rightarrow> ((None, []), obj1)
        | Some tr \<Rightarrow> (case StorageCommitErr C tr of
            Some e \<Rightarrow> ((Some e, []), obj1)
          | None \<Rightarrow> ((None, [CommitStorage tr]),
                      obj1\<lparr>data := (data obj1)\<lparr>Root := TrieHash E tr\<rparr>\<rparr>))))"

text \<open>The case \<^verbatim>\<open>isDirty\<close> of the loop: code first, then storage, then the account.\<close>

definition commit_dirty ::
  "sdb_env \<Rightarrow> commit_env \<Rightarrow> hash list \<Rightarrow> stateObject \<Rightarrow> stateDB \<Rightarrow>
     ((dberr option \<times> db_write list) \<times> stateDB) option" where
  "commit_dirty E C keys obj s =
     (let (obj1, w1) = (case code obj of
            Some c \<Rightarrow> if dirtyCode obj
              then (obj\<lparr>dirtyCode := False\<rparr>, [InsertCode (CodeHash (data obj)) c])
              else (obj, [])
          | None \<Rightarrow> (obj, []));
          ((err, w2), obj2) = CommitTrie E C keys obj1;
          s1 = setStateObject obj2 s in
      case err of
        Some e \<Rightarrow> Some ((Some e, w1 @ w2), s1)
      | None \<Rightarrow> do { s2 \<leftarrow> updateStateObject obj2 s1; Some ((None, w1 @ w2), s2) })"

definition commit_step ::
  "sdb_env \<Rightarrow> commit_env \<Rightarrow> bool \<Rightarrow> (address \<Rightarrow> hash list) \<Rightarrow> address \<Rightarrow> stateDB \<Rightarrow>
     ((dberr option \<times> db_write list) \<times> stateDB) option" where
  "commit_step E C deleteEmptyObjects keys a s = do {
     obj \<leftarrow> stateObjects s a;
     let isDirty = a \<in> stateObjectsDirty s;
     ((err, w), s1) \<leftarrow>
       (if suicided obj \<or> isDirty \<and> deleteEmptyObjects \<and> empty E obj
        then Some ((None, []), deleteStateObject obj s)
        else if isDirty then commit_dirty E C (keys a) obj s
        else Some ((None, []), s));
     Some ((err, w), if err = None then s1\<lparr>stateObjectsDirty := stateObjectsDirty s1 - {a}\<rparr> else s1)
   }"

fun commit_loop ::
  "sdb_env \<Rightarrow> commit_env \<Rightarrow> bool \<Rightarrow> (address \<Rightarrow> hash list) \<Rightarrow> address list \<Rightarrow> stateDB \<Rightarrow>
     ((dberr option \<times> db_write list) \<times> stateDB) option" where
  "commit_loop E C del keys [] s = Some ((None, []), s)"
| "commit_loop E C del keys (a # as) s =
     (case commit_step E C del keys a s of
        None \<Rightarrow> None
      | Some ((Some e, w), s1) \<Rightarrow> Some ((Some e, w), s1)
      | Some ((None, w), s1) \<Rightarrow> (case commit_loop E C del keys as s1 of
          None \<Rightarrow> None
        | Some ((err, w2), s2) \<Rightarrow> Some ((err, w @ w2), s2)))"

text \<open>The result: the root or an error, what was written, and the database.\<close>

definition Commit ::
  "sdb_env \<Rightarrow> commit_env \<Rightarrow> bool \<Rightarrow> (address \<Rightarrow> hash list) \<Rightarrow> address list \<Rightarrow> stateDB \<Rightarrow>
     ((dberr + hash) \<times> db_write list \<times> stateDB) option" where
  "Commit E C deleteEmptyObjects keys order s = do {
     ((err, w), s1) \<leftarrow> commit_loop E C deleteEmptyObjects keys order s;
     (case err of
        Some e \<Rightarrow> Some (Inl e, w, clearJournalAndRefund s1)
      | None \<Rightarrow> (case StateCommitErr C (trie s1) of
          Some e \<Rightarrow> Some (Inl e, w, clearJournalAndRefund s1)
        | None \<Rightarrow> Some (Inr (StateHash E (trie s1)), w @ [CommitState (trie s1)],
                        clearJournalAndRefund s1)))
   }"

section \<open>Copies\<close>

definition deepCopy :: "stateObject \<Rightarrow> stateObject" where
  "deepCopy obj =
     (newObject (address obj) (data obj) True)\<lparr>
        strie := strie obj, code := code obj, dirtyStorage := dirtyStorage obj,
        cachedStorage := dirtyStorage obj, suicided := suicided obj,
        dirtyCode := dirtyCode obj, deleted := deleted obj\<rparr>"

definition Copy :: "stateDB \<Rightarrow> stateDB option" where
  "Copy s =
     (if stateObjectsDirty s \<subseteq> dom (stateObjects s)
      then Some ((New (trie s))\<lparr>
        stateObjects := (\<lambda>a. if a \<in> stateObjectsDirty s
           then map_option deepCopy (stateObjects s a) else None),
        stateObjectsDirty := stateObjectsDirty s,
        logs := logs s, logSize := logSize s, preimages := preimages s\<rparr>)
      else None)"

text \<open>\<^verbatim>\<open>Reset\<close> on a trie that opens; the refund counter and the height stay.\<close>

definition Reset :: "(dberr + (address, account) atrie) \<Rightarrow> stateDB \<Rightarrow> dberr option \<times> stateDB" where
  "Reset opened s = (case opened of
     Inl err \<Rightarrow> (Some err, s)
   | Inr tr \<Rightarrow> (None, clearJournalAndRefund (s\<lparr>trie := tr, stateObjects := Map.empty,
       stateObjectsDirty := {}, thash := 0, bhash := 0, txIndex := 0, logs := Map.empty,
       logSize := 0, preimages := Map.empty\<rparr>)))"

text \<open>The orders a run may meet: every dirty address and every dirty key once.\<close>

definition orders_ok :: "(address \<Rightarrow> hash list) \<Rightarrow> address list \<Rightarrow> stateDB \<Rightarrow> bool" where
  "orders_ok keys order s \<longleftrightarrow>
     distinct order \<and> set order = stateObjectsDirty s \<and>
     (\<forall>a obj. stateObjects s a = Some obj \<longrightarrow>
        distinct (keys a) \<and> set (keys a) = dom (dirtyStorage obj))"

section \<open>Runs\<close>

text \<open>A credit to an address that the trie does not know, for later evaluation.\<close>

lemma demo_credit:
  "AddBalance demo_env 4 10 (New empty_trie) =
     (New empty_trie)\<lparr>
       stateObjects := [4 \<mapsto> (newObject 4 (zeroAccount demo_env) False)\<lparr>
          data := (zeroAccount demo_env)\<lparr>Balance := 10\<rparr>\<rparr>],
       stateObjectsDirty := {4}, journal := [createObjectChange 4, balanceChange 4 0]\<rparr>"
  by (simp add: sdb_eval demo_env_def)

text \<open>
  C9. A touch that is reverted makes the database lose a later credit. Let the account
  exist in the trie and be empty, and let it not be the RIPEMD precompile. After
  \<^verbatim>\<open>Snapshot; AddBalance(a, 0); RevertToSnapshot; AddBalance(a, v)\<close> the database answers
  \<open>v\<close> for its balance, but the account is not in the dirty set (the undo record of the
  touch removed it, and the callback that would put it back has been dropped), so
  \<^verbatim>\<open>Finalise\<close> leaves the trie as it was and a database opened on it answers \<open>0\<close>.
\<close>

theorem touch_revert_loses_credit:
  assumes "content tr a = Some (Leaf d)" "fault tr a = None" "a \<noteq> ripemd" "v \<noteq> 0"
    and "Nonce d = 0" "Balance d = 0" "CodeHash d = emptyCodeHash E"
  shows "case exec_ops E [SnapshotOp, AddBalanceOp a 0, RevertOp 0, AddBalanceOp a v] (New tr) of
      None \<Rightarrow> False
    | Some s \<Rightarrow> fst (GetBalance a s) = v \<and> orders_ok (\<lambda>_. []) [] s \<and>
        (case Finalise E del (\<lambda>_. []) [] s of
           None \<Rightarrow> False
         | Some t \<Rightarrow> fst (GetBalance a t) = v \<and> fst (GetBalance a (New (trie t))) = 0)"
  using assms
  by (simp add: sdb_eval Finalise_def orders_ok_def)

theorem touch_revert_loses_credit_witness:
  "let d = zeroAccount demo_env; tr = \<lparr>content = [5 \<mapsto> Leaf d], fault = (\<lambda>_. None)\<rparr> in
   case exec_ops demo_env [SnapshotOp, AddBalanceOp 5 0, RevertOp 0, AddBalanceOp 5 10] (New tr) of
      None \<Rightarrow> False
    | Some s \<Rightarrow> fst (GetBalance 5 s) = 10 \<and> orders_ok (\<lambda>_. []) [] s \<and>
        (case Finalise demo_env True (\<lambda>_. []) [] s of
           None \<Rightarrow> False
         | Some t \<Rightarrow> fst (GetBalance 5 t) = 10 \<and> fst (GetBalance 5 (New (trie t))) = 0)"
  unfolding Let_def
  by (rule touch_revert_loses_credit [where d = "zeroAccount demo_env"])
     (simp_all add: zeroAccount_def ripemd_def)

text \<open>
  C10. The coin age of an account is not restored by a revert. Let the account have
  balance \<open>B > 0\<close>, weight \<open>W\<close> at height \<open>l\<close>, and let a transaction at height \<open>h\<close> take
  \<open>v\<close> from it and be reverted. The balance is \<open>B\<close> again, but the weight is what
  \<^verbatim>\<open>SubWeight\<close> left, \<open>W * (B - v) div B\<close> at height \<open>h\<close>, where it was \<open>W + B * (h - l)\<close>.
\<close>

theorem revert_keeps_weight_loss:
  assumes "content tr a = Some (Leaf d)" "fault tr a = None" "0 < Balance d" "v \<noteq> 0"
  shows "case exec_ops E [PrepareOp th bh h 0] (New tr) of
      None \<Rightarrow> False
    | Some s \<Rightarrow> map_option fst (GetWeight a s) =
          Some (WeightAtLastUpdatedHeight d + Balance d * (uint h - LastUpdatedHeight d)) \<and>
        (case exec_ops E [SnapshotOp, SubBalanceAndWeightOp a v, RevertOp 0] s of
           None \<Rightarrow> False
         | Some t \<Rightarrow> fst (GetBalance a t) = Balance d \<and>
             map_option fst (GetWeight a t) =
               Some (WeightAtLastUpdatedHeight d * (Balance d - v) div Balance d))"
  using assms by (simp add: sdb_eval)

theorem revert_keeps_weight_loss_witness:
  "let d = (zeroAccount demo_env)\<lparr>Balance := 10, WeightAtLastUpdatedHeight := 100\<rparr>;
       tr = \<lparr>content = [5 \<mapsto> Leaf d], fault = (\<lambda>_. None)\<rparr> in
   case exec_ops demo_env [PrepareOp 0 0 20 0] (New tr) of
      None \<Rightarrow> False
    | Some s \<Rightarrow> map_option fst (GetWeight 5 s) = Some 300 \<and>
        (case exec_ops demo_env [SnapshotOp, SubBalanceAndWeightOp 5 4, RevertOp 0] s of
           None \<Rightarrow> False
         | Some t \<Rightarrow> fst (GetBalance 5 t) = 10 \<and> map_option fst (GetWeight 5 t) = Some 60)"
  using revert_keeps_weight_loss [where a = 5 and v = 4 and E = demo_env and h = 20 and th = 0 and bh = 0
    and tr = "\<lparr>content = [5 \<mapsto> Leaf ((zeroAccount demo_env)\<lparr>Balance := 10,
       WeightAtLastUpdatedHeight := 100\<rparr>)], fault = (\<lambda>_. None)\<rparr>"
    and d = "(zeroAccount demo_env)\<lparr>Balance := 10, WeightAtLastUpdatedHeight := 100\<rparr>"]
  by (auto simp: zeroAccount_def Let_def simp del: exec_ops.simps split: option.splits)

end
