(* ===== verification/State_View.thy ===== *)
theory State_View
  imports State_DB
begin

text \<open>
  What a client of the state database can observe: for every address the account that
  \<^verbatim>\<open>getStateObject\<close> finds (nonce, balance, code hash, code, storage, suicide flag), the
  refund counter, the logs and the preimages. The theory shows that the read methods
  return exactly this view and do not change it, and how each setter changes it.
  Weights (coin age) are kept apart: they are not journaled.
\<close>

section \<open>The view\<close>

record account_view =
  vNonce :: u64
  vBalance :: int
  vCodeHash :: hash
  vCode :: "byte list option"
  vStorage :: "hash \<Rightarrow> hash"
  vSuicided :: bool

definition view :: "sdb_env \<Rightarrow> stateObject \<Rightarrow> account_view" where
  "view E obj =
     \<lparr>vNonce = Nonce (data obj), vBalance = Balance (data obj), vCodeHash = CodeHash (data obj),
      vCode = fst (obj_Code E obj), vStorage = (\<lambda>k. fst (obj_GetState E obj k)),
      vSuicided = suicided obj\<rparr>"

definition lookup :: "address \<Rightarrow> stateDB \<Rightarrow> stateObject option" where
  "lookup a s = fst (getStateObject a s)"

text \<open>A missing list of logs reads as the empty list.\<close>

definition logs_view :: "(hash \<Rightarrow> log list option) \<Rightarrow> hash \<Rightarrow> log list" where
  "logs_view m h = (case m h of None \<Rightarrow> [] | Some ls \<Rightarrow> ls)"

lemma logs_view_upd [simp]:
  "logs_view (m(h := None)) = (logs_view m)(h := [])"
  "logs_view (m(h \<mapsto> ls)) = (logs_view m)(h := ls)"
  by (auto simp: logs_view_def intro!: ext)

lemma GetLogs_view [simp]: "GetLogs h s = logs_view (logs s) h"
  by (simp add: GetLogs_def logs_view_def)

record db_view =
  vAccounts :: "address \<Rightarrow> account_view option"
  vRefund :: u64
  vLogs :: "hash \<Rightarrow> log list"
  vLogSize :: u64
  vPreimages :: "hash \<Rightarrow> byte list option"

definition observe :: "sdb_env \<Rightarrow> stateDB \<Rightarrow> db_view" where
  "observe E s =
     \<lparr>vAccounts = (\<lambda>a. map_option (view E) (lookup a s)), vRefund = refund s,
      vLogs = logs_view (logs s), vLogSize = logSize s, vPreimages = preimages s\<rparr>"

text \<open>Two databases over the same account trie that no client can tell apart.\<close>

definition sim :: "sdb_env \<Rightarrow> stateDB \<Rightarrow> stateDB \<Rightarrow> bool" where
  "sim E s t \<longleftrightarrow> observe E s = observe E t \<and> trie s = trie t"

lemma sim_refl [simp, intro]: "sim E s s"
  by (simp add: sim_def)

lemma sim_sym: "sim E s t \<Longrightarrow> sim E t s"
  by (simp add: sim_def)

lemma sim_trans [trans]: "sim E s t \<Longrightarrow> sim E t u \<Longrightarrow> sim E s u"
  by (simp add: sim_def)

lemma sim_iff:
  "sim E s t \<longleftrightarrow>
     (\<forall>a. map_option (view E) (lookup a s) = map_option (view E) (lookup a t)) \<and>
     refund s = refund t \<and> logs_view (logs s) = logs_view (logs t) \<and> logSize s = logSize t \<and>
     preimages s = preimages t \<and> trie s = trie t"
  by (auto simp: sim_def observe_def fun_eq_iff)

lemma simD:
  assumes "sim E s t"
  shows "map_option (view E) (lookup a s) = map_option (view E) (lookup a t)"
    and "refund s = refund t" and "logs_view (logs s) = logs_view (logs t)" and "logSize s = logSize t"
    and "preimages s = preimages t" and "trie s = trie t"
  using assms by (auto simp: sim_iff)

lemma sim_lookup_None: "sim E s t \<Longrightarrow> lookup a s = None \<longleftrightarrow> lookup a t = None"
  using simD(1) [of E s t a] by (metis option.map_disc_iff)

lemma sim_lookup_Some:
  "sim E s t \<Longrightarrow> lookup a s = Some x \<Longrightarrow> \<exists>y. lookup a t = Some y \<and> view E y = view E x"
  using simD(1) [of E s t a] by (cases "lookup a t") auto

section \<open>Objects\<close>

lemmas obj_update_simps [obj_simps] =
  setNonce_def setBalance_def setState_def setCode_def markSuicided_def

lemma obj_setError_simps [simp]:
  "address (obj_setError e obj) = address obj" "data (obj_setError e obj) = data obj"
  "strie (obj_setError e obj) = strie obj" "code (obj_setError e obj) = code obj"
  "cachedStorage (obj_setError e obj) = cachedStorage obj"
  "dirtyStorage (obj_setError e obj) = dirtyStorage obj"
  "dirtyCode (obj_setError e obj) = dirtyCode obj"
  "suicided (obj_setError e obj) = suicided obj" "touched (obj_setError e obj) = touched obj"
  "deleted (obj_setError e obj) = deleted obj" "onDirty (obj_setError e obj) = onDirty obj"
  by (simp_all add: obj_setError_def)

text \<open>The storage trie an object reads from, whether it has been opened or not.\<close>

definition storage_trie_of :: "sdb_env \<Rightarrow> stateObject \<Rightarrow> storage_trie" where
  "storage_trie_of E obj = fst (getTrie E obj)"

lemma storage_trie_of_cong:
  "strie x = strie y \<Longrightarrow> Root (data x) = Root (data y) \<Longrightarrow>
   storage_trie_of E x = storage_trie_of E y"
  by (simp add: storage_trie_of_def getTrie_def split: option.splits sum.splits)

text \<open>Reading one slot of a trie: faults and undecodable leaves read as zero.\<close>

definition read_slot :: "storage_trie \<Rightarrow> hash \<Rightarrow> hash" where
  "read_slot t k =
     (if fault t k = None
      then (case content t k of Some (Leaf v) \<Rightarrow> v | _ \<Rightarrow> 0) else 0)"

definition storage_view :: "storage \<Rightarrow> storage_trie \<Rightarrow> hash \<Rightarrow> hash" where
  "storage_view c t k = (case c k of Some v \<Rightarrow> v | None \<Rightarrow> read_slot t k)"

lemma storage_view_upd [simp]: "storage_view (c(k \<mapsto> v)) t = (storage_view c t)(k := v)"
  by (auto simp: storage_view_def intro!: ext)

lemma storage_view_fill:
  "c k = None \<Longrightarrow> (storage_view c t)(k := read_slot t k) = storage_view c t"
  by (auto simp: storage_view_def intro!: ext)

text \<open>The code an object shows for a cached code and a code hash.\<close>

definition code_view :: "sdb_env \<Rightarrow> byte list option \<Rightarrow> hash \<Rightarrow> byte list option" where
  "code_view E c h = (case c of
     Some b \<Rightarrow> Some b
   | None \<Rightarrow> if h = emptyCodeHash E then None
       else (case ContractCode E h of Inr b \<Rightarrow> Some b | Inl _ \<Rightarrow> None))"

lemma fst_obj_GetState:
  "fst (obj_GetState E obj k) = storage_view (cachedStorage obj) (storage_trie_of E obj) k"
  by (auto simp: obj_GetState_def storage_view_def storage_trie_of_def read_slot_def TryGet_def
      Let_def split: option.splits prod.splits leaf.splits)

lemma fst_obj_Code: "fst (obj_Code E obj) = code_view E (code obj) (CodeHash (data obj))"
  by (auto simp: obj_Code_def code_view_def split: option.splits sum.splits)

lemma view_eq:
  "view E obj =
     \<lparr>vNonce = Nonce (data obj), vBalance = Balance (data obj), vCodeHash = CodeHash (data obj),
      vCode = code_view E (code obj) (CodeHash (data obj)),
      vStorage = storage_view (cachedStorage obj) (storage_trie_of E obj),
      vSuicided = suicided obj\<rparr>"
  by (simp add: view_def fst_obj_GetState fst_obj_Code)

text \<open>Reading may fill the caches of an object; its view stays the same.\<close>

lemma getTrie_obj [simp]:
  "address (snd (getTrie E obj)) = address obj" "data (snd (getTrie E obj)) = data obj"
  "code (snd (getTrie E obj)) = code obj"
  "cachedStorage (snd (getTrie E obj)) = cachedStorage obj"
  "dirtyStorage (snd (getTrie E obj)) = dirtyStorage obj"
  "dirtyCode (snd (getTrie E obj)) = dirtyCode obj"
  "suicided (snd (getTrie E obj)) = suicided obj" "touched (snd (getTrie E obj)) = touched obj"
  "deleted (snd (getTrie E obj)) = deleted obj" "onDirty (snd (getTrie E obj)) = onDirty obj"
  "strie (snd (getTrie E obj)) = Some (storage_trie_of E obj)"
  by (auto simp: getTrie_def storage_trie_of_def split: option.splits sum.splits)

lemma obj_GetState_obj [simp]:
  "address (snd (obj_GetState E obj k)) = address obj"
  "data (snd (obj_GetState E obj k)) = data obj"
  "code (snd (obj_GetState E obj k)) = code obj"
  "dirtyStorage (snd (obj_GetState E obj k)) = dirtyStorage obj"
  "dirtyCode (snd (obj_GetState E obj k)) = dirtyCode obj"
  "suicided (snd (obj_GetState E obj k)) = suicided obj"
  "touched (snd (obj_GetState E obj k)) = touched obj"
  "deleted (snd (obj_GetState E obj k)) = deleted obj"
  "onDirty (snd (obj_GetState E obj k)) = onDirty obj"
  using getTrie_obj [of E obj]
  by (cases "getTrie E obj";
      auto simp: obj_GetState_def Let_def split: option.splits prod.splits leaf.splits)+

lemma obj_Code_obj [simp]:
  "address (snd (obj_Code E obj)) = address obj" "data (snd (obj_Code E obj)) = data obj"
  "strie (snd (obj_Code E obj)) = strie obj"
  "cachedStorage (snd (obj_Code E obj)) = cachedStorage obj"
  "dirtyStorage (snd (obj_Code E obj)) = dirtyStorage obj"
  "dirtyCode (snd (obj_Code E obj)) = dirtyCode obj"
  "suicided (snd (obj_Code E obj)) = suicided obj" "touched (snd (obj_Code E obj)) = touched obj"
  "deleted (snd (obj_Code E obj)) = deleted obj" "onDirty (snd (obj_Code E obj)) = onDirty obj"
  by (auto simp: obj_Code_def split: option.splits sum.splits)

lemma storage_trie_of_GetState [simp]:
  "storage_trie_of E (snd (obj_GetState E obj k)) = storage_trie_of E obj"
proof -
  have "strie (snd (obj_GetState E obj k)) = strie obj \<or>
      strie (snd (obj_GetState E obj k)) = Some (storage_trie_of E obj)"
    using getTrie_obj(11) [of E obj]
    by (cases "getTrie E obj";
        auto simp: obj_GetState_def Let_def split: option.splits prod.splits leaf.splits)
  then show ?thesis
    by (auto simp: storage_trie_of_def getTrie_def split: option.splits sum.splits)
qed

lemma cachedStorage_GetState:
  "cachedStorage (snd (obj_GetState E obj k)) = cachedStorage obj \<or>
   cachedStorage obj k = None \<and>
   cachedStorage (snd (obj_GetState E obj k)) =
     (cachedStorage obj)(k \<mapsto> read_slot (storage_trie_of E obj) k)"
  using getTrie_obj(4) [of E obj]
  by (cases "getTrie E obj";
      auto simp: obj_GetState_def Let_def read_slot_def storage_trie_of_def TryGet_def
        split: option.splits prod.splits leaf.splits)

lemma view_GetState [simp]: "view E (snd (obj_GetState E obj k)) = view E obj"
  using cachedStorage_GetState [of E obj k]
  by (auto simp: view_eq storage_view_fill)

lemma view_Code [simp]: "view E (snd (obj_Code E obj)) = view E obj"
proof -
  have "storage_trie_of E (snd (obj_Code E obj)) = storage_trie_of E obj"
    by (rule storage_trie_of_cong) simp_all
  then show ?thesis
    by (auto simp: view_eq obj_Code_def code_view_def split: option.splits sum.splits)
qed

section \<open>Lookups\<close>

lemma setError_simps [simp]:
  "trie (setError e s) = trie s" "stateObjects (setError e s) = stateObjects s"
  "stateObjectsDirty (setError e s) = stateObjectsDirty s"
  "refund (setError e s) = refund s" "thash (setError e s) = thash s"
  "bhash (setError e s) = bhash s" "bheight (setError e s) = bheight s"
  "txIndex (setError e s) = txIndex s" "logs (setError e s) = logs s"
  "logSize (setError e s) = logSize s" "preimages (setError e s) = preimages s"
  "journal (setError e s) = journal s" "validRevisions (setError e s) = validRevisions s"
  "nextRevisionId (setError e s) = nextRevisionId s"
  by (simp_all add: setError_def)

lemma setStateObject_simps [simp]:
  "trie (setStateObject x s) = trie s"
  "stateObjects (setStateObject x s) = (stateObjects s)(address x \<mapsto> x)"
  "stateObjectsDirty (setStateObject x s) = stateObjectsDirty s"
  "refund (setStateObject x s) = refund s" "thash (setStateObject x s) = thash s"
  "bhash (setStateObject x s) = bhash s" "bheight (setStateObject x s) = bheight s"
  "txIndex (setStateObject x s) = txIndex s" "logs (setStateObject x s) = logs s"
  "logSize (setStateObject x s) = logSize s" "preimages (setStateObject x s) = preimages s"
  "journal (setStateObject x s) = journal s"
  "validRevisions (setStateObject x s) = validRevisions s"
  "nextRevisionId (setStateObject x s) = nextRevisionId s"
  by (simp_all add: setStateObject_def)

lemma fire_simps [simp]:
  "trie (fire x s) = trie s"
  "stateObjects (fire x s) = (stateObjects s)(address x \<mapsto> x\<lparr>onDirty := False\<rparr>)"
  "refund (fire x s) = refund s" "thash (fire x s) = thash s"
  "bhash (fire x s) = bhash s" "bheight (fire x s) = bheight s"
  "txIndex (fire x s) = txIndex s" "logs (fire x s) = logs s"
  "logSize (fire x s) = logSize s" "preimages (fire x s) = preimages s"
  "journal (fire x s) = journal s" "validRevisions (fire x s) = validRevisions s"
  "nextRevisionId (fire x s) = nextRevisionId s"
  by (auto simp: fire_def MarkStateObjectDirty_def fun_eq_iff)

lemma append_journal_simps [simp]:
  "trie (append_journal e s) = trie s" "stateObjects (append_journal e s) = stateObjects s"
  "stateObjectsDirty (append_journal e s) = stateObjectsDirty s"
  "refund (append_journal e s) = refund s" "thash (append_journal e s) = thash s"
  "bhash (append_journal e s) = bhash s" "bheight (append_journal e s) = bheight s"
  "txIndex (append_journal e s) = txIndex s" "logs (append_journal e s) = logs s"
  "logSize (append_journal e s) = logSize s" "preimages (append_journal e s) = preimages s"
  "journal (append_journal e s) = journal s @ [e]"
  "validRevisions (append_journal e s) = validRevisions s"
  "nextRevisionId (append_journal e s) = nextRevisionId s"
  by (simp_all add: append_journal_def)

lemma getStateObject_simps [simp]:
  "trie (snd (getStateObject a s)) = trie s"
  "stateObjectsDirty (snd (getStateObject a s)) = stateObjectsDirty s"
  "refund (snd (getStateObject a s)) = refund s" "thash (snd (getStateObject a s)) = thash s"
  "bhash (snd (getStateObject a s)) = bhash s" "bheight (snd (getStateObject a s)) = bheight s"
  "txIndex (snd (getStateObject a s)) = txIndex s" "logs (snd (getStateObject a s)) = logs s"
  "logSize (snd (getStateObject a s)) = logSize s"
  "preimages (snd (getStateObject a s)) = preimages s"
  "journal (snd (getStateObject a s)) = journal s"
  "validRevisions (snd (getStateObject a s)) = validRevisions s"
  "nextRevisionId (snd (getStateObject a s)) = nextRevisionId s"
  by (auto simp: getStateObject_def TryGet_def Let_def split: option.splits leaf.splits)

text \<open>The object found depends on the cache and the trie only.\<close>

definition stored :: "(address, account) atrie \<Rightarrow> address \<Rightarrow> stateObject option" where
  "stored tr a =
     (if fault tr a = None
      then (case content tr a of Some (Leaf d) \<Rightarrow> Some (newObject a d True) | _ \<Rightarrow> None)
      else None)"

lemma lookup_eq:
  "lookup a s = (case stateObjects s a of
     Some x \<Rightarrow> if deleted x then None else Some x
   | None \<Rightarrow> stored (trie s) a)"
  by (auto simp: lookup_def getStateObject_def TryGet_def Let_def stored_def
      split: option.splits leaf.splits)

lemma lookup_cong:
  "stateObjects s a = stateObjects t a \<Longrightarrow> trie s = trie t \<Longrightarrow> lookup a s = lookup a t"
  by (simp add: lookup_eq split: option.splits)

lemma newObject_simps [simp]:
  "address (newObject a d c) = a" "data (newObject a d c) = d"
  "deleted (newObject a d c) = False" "suicided (newObject a d c) = False"
  "code (newObject a d c) = None" "strie (newObject a d c) = None"
  "cachedStorage (newObject a d c) = Map.empty" "dirtyStorage (newObject a d c) = Map.empty"
  "dirtyCode (newObject a d c) = False" "touched (newObject a d c) = False"
  "onDirty (newObject a d c) = c" "objErr (newObject a d c) = None"
  by (simp_all add: newObject_def)

lemma lookup_append_journal [simp]: "lookup a (append_journal e s) = lookup a s"
  by (rule lookup_cong) simp_all

lemma lookup_getStateObject [simp]: "lookup b (snd (getStateObject a s)) = lookup b s"
  by (auto simp: lookup_eq getStateObject_def TryGet_def Let_def stored_def
      split: option.splits leaf.splits)

lemma lookup_setStateObject:
  "lookup b (setStateObject x s) =
     (if b = address x then (if deleted x then None else Some x) else lookup b s)"
  by (auto simp: lookup_eq split: option.splits)

lemma lookup_fire:
  "lookup b (fire x s) =
     (if b = address x then (if deleted x then None else Some (x\<lparr>onDirty := False\<rparr>))
      else lookup b s)"
  by (auto simp: lookup_eq split: option.splits)

lemma sim_getStateObject [simp]: "sim E (snd (getStateObject a s)) s"
  by (simp add: sim_iff)

lemma sim_append_journal [simp]: "sim E (append_journal e s) s"
  by (simp add: sim_iff)

text \<open>
  A cached object sits under its own address, and an object marked deleted has no leaf
  in the account trie. The reset records of the journal hold objects that were live.
\<close>

definition wf_objs :: "stateDB \<Rightarrow> bool" where
  "wf_objs s \<longleftrightarrow>
     (\<forall>a x. stateObjects s a = Some x \<longrightarrow>
        address x = a \<and> (deleted x \<longrightarrow> fault (trie s) a = None \<and> content (trie s) a = None))"

fun entry_ok :: "journalEntry \<Rightarrow> bool" where
  "entry_ok (resetObjectChange p) = (\<not> deleted p)"
| "entry_ok _ = True"

definition wf_cache :: "stateDB \<Rightarrow> bool" where
  "wf_cache s \<longleftrightarrow> wf_objs s \<and> (\<forall>e \<in> set (journal s). entry_ok e)"

lemma wf_cacheD: "wf_cache s \<Longrightarrow> wf_objs s"
  by (simp add: wf_cache_def)

lemma lookup_live:
  assumes "wf_objs s" "lookup a s = Some x"
  shows "address x = a" and "\<not> deleted x"
  using assms by (auto simp: wf_objs_def lookup_eq stored_def
      split: option.splits leaf.splits if_splits)

lemma wf_objs_getStateObject [simp]: "wf_objs s \<Longrightarrow> wf_objs (snd (getStateObject a s))"
  by (auto simp: wf_objs_def getStateObject_def TryGet_def Let_def
      split: option.splits leaf.splits if_splits)

lemma wf_objs_fire: "wf_objs s \<Longrightarrow> \<not> deleted x \<Longrightarrow> wf_objs (fire x s)"
  by (auto simp: wf_objs_def)

lemma wf_objs_setStateObject: "wf_objs s \<Longrightarrow> \<not> deleted x \<Longrightarrow> wf_objs (setStateObject x s)"
  by (auto simp: wf_objs_def)

lemma wf_objs_cong:
  "stateObjects s = stateObjects t \<Longrightarrow> trie s = trie t \<Longrightarrow> wf_objs s = wf_objs t"
  by (simp add: wf_objs_def)

lemma wf_objs_append_journal [simp]: "wf_objs (append_journal e s) = wf_objs s"
  by (rule wf_objs_cong) simp_all

lemma wf_objs_update [simp]:
  "wf_objs (s\<lparr>refund := r\<rparr>) = wf_objs s" "wf_objs (s\<lparr>logs := l\<rparr>) = wf_objs s"
  "wf_objs (s\<lparr>logSize := n\<rparr>) = wf_objs s" "wf_objs (s\<lparr>preimages := p\<rparr>) = wf_objs s"
  "wf_objs (s\<lparr>journal := j\<rparr>) = wf_objs s" "wf_objs (s\<lparr>validRevisions := v\<rparr>) = wf_objs s"
  "wf_objs (s\<lparr>nextRevisionId := i\<rparr>) = wf_objs s"
  "wf_objs (s\<lparr>stateObjectsDirty := d\<rparr>) = wf_objs s"
  "wf_objs (s\<lparr>thash := h\<rparr>) = wf_objs s" "wf_objs (s\<lparr>bhash := h\<rparr>) = wf_objs s"
  "wf_objs (s\<lparr>bheight := b\<rparr>) = wf_objs s" "wf_objs (s\<lparr>txIndex := ti\<rparr>) = wf_objs s"
  by (rule wf_objs_cong; simp)+

lemma lookup_update [simp]:
  "lookup a (s\<lparr>refund := r\<rparr>) = lookup a s" "lookup a (s\<lparr>logs := l\<rparr>) = lookup a s"
  "lookup a (s\<lparr>logSize := n\<rparr>) = lookup a s" "lookup a (s\<lparr>preimages := p\<rparr>) = lookup a s"
  "lookup a (s\<lparr>journal := j\<rparr>) = lookup a s" "lookup a (s\<lparr>validRevisions := v\<rparr>) = lookup a s"
  "lookup a (s\<lparr>nextRevisionId := i\<rparr>) = lookup a s"
  "lookup a (s\<lparr>stateObjectsDirty := d\<rparr>) = lookup a s"
  "lookup a (s\<lparr>thash := h\<rparr>) = lookup a s" "lookup a (s\<lparr>bhash := h\<rparr>) = lookup a s"
  "lookup a (s\<lparr>bheight := b\<rparr>) = lookup a s" "lookup a (s\<lparr>txIndex := ti\<rparr>) = lookup a s"
  by (rule lookup_cong; simp)+

lemma sim_update [simp]:
  "sim E (s\<lparr>journal := j\<rparr>) t = sim E s t" "sim E t (s\<lparr>journal := j\<rparr>) = sim E t s"
  "sim E (s\<lparr>validRevisions := v\<rparr>) t = sim E s t" "sim E t (s\<lparr>validRevisions := v\<rparr>) = sim E t s"
  "sim E (s\<lparr>nextRevisionId := i\<rparr>) t = sim E s t" "sim E t (s\<lparr>nextRevisionId := i\<rparr>) = sim E t s"
  "sim E (s\<lparr>stateObjectsDirty := d\<rparr>) t = sim E s t"
  "sim E t (s\<lparr>stateObjectsDirty := d\<rparr>) = sim E t s"
  by (simp_all add: sim_iff)

lemma wf_objs_remove:
  "wf_objs s \<Longrightarrow> wf_objs (s\<lparr>stateObjects := (stateObjects s)(a := None)\<rparr>)"
  by (simp add: wf_objs_def)

lemma lookup_remove:
  "lookup b (s\<lparr>stateObjects := (stateObjects s)(a := None)\<rparr>) =
     (if b = a then stored (trie s) a else lookup b s)"
  by (auto simp: lookup_eq split: option.splits)

section \<open>How updates of an object change the view\<close>

lemma storage_trie_of_update [simp]:
  "storage_trie_of E (x\<lparr>onDirty := b\<rparr>) = storage_trie_of E x"
  "storage_trie_of E (x\<lparr>touched := b\<rparr>) = storage_trie_of E x"
  "storage_trie_of E (x\<lparr>suicided := b\<rparr>) = storage_trie_of E x"
  "storage_trie_of E (x\<lparr>dirtyCode := b\<rparr>) = storage_trie_of E x"
  "storage_trie_of E (x\<lparr>code := c\<rparr>) = storage_trie_of E x"
  "storage_trie_of E (x\<lparr>cachedStorage := m\<rparr>) = storage_trie_of E x"
  "storage_trie_of E (x\<lparr>dirtyStorage := m\<rparr>) = storage_trie_of E x"
  "Root d = Root (data x) \<Longrightarrow> storage_trie_of E (x\<lparr>data := d\<rparr>) = storage_trie_of E x"
  by (rule storage_trie_of_cong; simp)+

lemma view_update [simp]:
  "view E (x\<lparr>onDirty := b\<rparr>) = view E x"
  "view E (x\<lparr>touched := b\<rparr>) = view E x"
  "view E (x\<lparr>dirtyCode := b\<rparr>) = view E x"
  "view E (x\<lparr>dirtyStorage := m\<rparr>) = view E x"
  "view E (x\<lparr>suicided := b\<rparr>) = (view E x)\<lparr>vSuicided := b\<rparr>"
  "view E (x\<lparr>data := (data x)\<lparr>Balance := i\<rparr>\<rparr>) = (view E x)\<lparr>vBalance := i\<rparr>"
  "view E (x\<lparr>suicided := b, data := (data x)\<lparr>Balance := i\<rparr>\<rparr>) =
     (view E x)\<lparr>vSuicided := b, vBalance := i\<rparr>"
  "view E (x\<lparr>data := (data x)\<lparr>Nonce := n\<rparr>\<rparr>) = (view E x)\<lparr>vNonce := n\<rparr>"
  "view E (x\<lparr>data := (data x)\<lparr>WeightAtLastUpdatedHeight := i, LastUpdatedHeight := j\<rparr>\<rparr>) = view E x"
  by (simp_all add: view_eq)

lemma view_setState [simp]:
  "view E (x\<lparr>cachedStorage := (cachedStorage x)(k \<mapsto> v)\<rparr>) =
     (view E x)\<lparr>vStorage := (vStorage (view E x))(k := v)\<rparr>"
  by (simp add: view_eq)

lemma view_setCode:
  "view E (x\<lparr>code := c, data := (data x)\<lparr>CodeHash := h\<rparr>\<rparr>) =
     (view E x)\<lparr>vCodeHash := h, vCode := code_view E c h\<rparr>"
  by (simp add: view_eq)

lemma code_view_idem [simp]: "code_view E (code_view E c h) h = code_view E c h"
  by (auto simp: code_view_def split: option.splits sum.splits)

lemma sim_fire:
  assumes "sim E s t" "address x = address y" "deleted x = deleted y" "view E x = view E y"
  shows "sim E (fire x s) (fire y t)"
  using assms by (auto simp: sim_iff lookup_fire)

lemma sim_setStateObject:
  assumes "sim E s t" "address x = address y" "deleted x = deleted y" "view E x = view E y"
  shows "sim E (setStateObject x s) (setStateObject y t)"
  using assms by (auto simp: sim_iff lookup_setStateObject)

lemma sim_fire_same:
  assumes "lookup (address x) s = Some y" "\<not> deleted x" "view E x = view E y"
  shows "sim E (fire x s) s"
  using assms by (auto simp: sim_iff lookup_fire)

lemma sim_setStateObject_same:
  assumes "lookup (address x) s = Some y" "\<not> deleted x" "view E x = view E y"
  shows "sim E (setStateObject x s) s"
  using assms by (auto simp: sim_iff lookup_setStateObject)

section \<open>The read methods return the view and keep it\<close>

lemma case_getStateObject [simp]:
  "(case getStateObject a s of (x, y) \<Rightarrow> f x y) = f (lookup a s) (snd (getStateObject a s))"
  by (simp add: lookup_def split_beta)

lemma fst_getStateObject [simp]: "fst (getStateObject a s) = lookup a s"
  by (simp add: lookup_def)

lemma reads_return_view:
  "fst (Exist a s) = (vAccounts (observe E s) a \<noteq> None)"
  "fst (GetBalance a s) = (case vAccounts (observe E s) a of None \<Rightarrow> 0 | Some v \<Rightarrow> vBalance v)"
  "fst (GetNonce a s) = (case vAccounts (observe E s) a of None \<Rightarrow> 0 | Some v \<Rightarrow> vNonce v)"
  "fst (GetCode E a s) = (case vAccounts (observe E s) a of None \<Rightarrow> None | Some v \<Rightarrow> vCode v)"
  "fst (GetCodeHash a s) = (case vAccounts (observe E s) a of None \<Rightarrow> 0 | Some v \<Rightarrow> vCodeHash v)"
  "fst (GetState E a k s) = (case vAccounts (observe E s) a of None \<Rightarrow> 0 | Some v \<Rightarrow> vStorage v k)"
  "fst (HasSuicided a s) = (case vAccounts (observe E s) a of None \<Rightarrow> False | Some v \<Rightarrow> vSuicided v)"
  "fst (Empty E a s) = (case vAccounts (observe E s) a of None \<Rightarrow> True
     | Some v \<Rightarrow> vNonce v = 0 \<and> vBalance v = 0 \<and> vCodeHash v = emptyCodeHash E)"
  unfolding observe_def view_def Exist_def GetBalance_def GetNonce_def GetCode_def GetCodeHash_def
    GetState_def HasSuicided_def Empty_def empty_def
  by (cases "lookup a s"; simp add: case_prod_beta)+

lemma reads_keep_view:
  assumes "wf_objs s"
  shows "sim E (snd (Exist a s)) s" "sim E (snd (GetBalance a s)) s"
    "sim E (snd (GetNonce a s)) s" "sim E (snd (GetCodeHash a s)) s"
    "sim E (snd (HasSuicided a s)) s" "sim E (snd (Empty E a s)) s"
    "sim E (snd (GetCode E a s)) s" "sim E (snd (GetState E a k s)) s"
proof -
  let ?s1 = "snd (getStateObject a s)"
  have 1: "sim E ?s1 s" by simp
  then show "sim E (snd (Exist a s)) s" "sim E (snd (GetBalance a s)) s"
    "sim E (snd (GetNonce a s)) s" "sim E (snd (GetCodeHash a s)) s"
    "sim E (snd (HasSuicided a s)) s" "sim E (snd (Empty E a s)) s"
    by (simp_all add: Exist_def GetBalance_def GetNonce_def GetCodeHash_def HasSuicided_def
        Empty_def split: option.splits)
  have put: "sim E (setStateObject y ?s1) s"
    if "lookup a s = Some x" "address y = address x" "deleted y = deleted x" "view E y = view E x"
    for x y
  proof -
    have "sim E (setStateObject y ?s1) ?s1"
      by (rule sim_setStateObject_same [where y = x])
         (use that lookup_live [OF assms that(1)] in simp_all)
    then show ?thesis using 1 by (rule sim_trans)
  qed
  show "sim E (snd (GetCode E a s)) s" "sim E (snd (GetState E a k s)) s"
    using 1 put by (cases "lookup a s"; simp add: GetCode_def GetState_def case_prod_beta)+
qed

lemma setError_view [simp]:
  "sim E (setError e s) t = sim E s t" "wf_objs (setError e s) = wf_objs s"
proof -
  have "lookup a (setError e s) = lookup a s" for a by (rule lookup_cong) simp_all
  then show "sim E (setError e s) t = sim E s t" by (simp add: sim_iff)
  show "wf_objs (setError e s) = wf_objs s" by (rule wf_objs_cong) simp_all
qed

lemma setError_None [simp]: "setError None s = s"
  by (cases s) (simp add: setError_def)

lemma GetCodeSize_state:
  obtains e where "snd (GetCodeSize E a s) = setError e (snd (getStateObject a s))"
proof -
  have "\<exists>e. snd (GetCodeSize E a s) = setError e (snd (getStateObject a s))"
  proof (cases "lookup a s")
    case None
    then show ?thesis by (auto simp: GetCodeSize_def intro: exI [of _ None])
  next
    case (Some x)
    obtain n e where "ContractCodeSize E (CodeHash (data x)) = (n, e)" by fastforce
    with Some show ?thesis
      by (cases "code x"; cases e) (auto simp: GetCodeSize_def intro: exI [of _ None])
  qed
  then show thesis using that by blast
qed

end
