(* ===== verification/State_Revert.thy ===== *)
theory State_Revert
  imports State_View State_Ops
begin

text \<open>
  \<^verbatim>\<open>Snapshot\<close> and \<^verbatim>\<open>RevertToSnapshot\<close>: every write of the state database leaves undo
  records from which the journal restores the view it had before, whatever the
  operations in between, nested snapshots and reverts included.
\<close>

section \<open>Undoing one entry\<close>

lemma undo_simps:
  "undo (suicideChange a p b) s = (case lookup a s of
     None \<Rightarrow> Some (snd (getStateObject a s))
   | Some x \<Rightarrow> Some (setBalance (x\<lparr>suicided := p\<rparr>) b (snd (getStateObject a s))))"
  "undo (balanceChange a b) s = (case lookup a s of
     None \<Rightarrow> None | Some x \<Rightarrow> Some (setBalance x b (snd (getStateObject a s))))"
  "undo (nonceChange a n) s = (case lookup a s of
     None \<Rightarrow> None | Some x \<Rightarrow> Some (setNonce x n (snd (getStateObject a s))))"
  "undo (codeChange a c h) s = (case lookup a s of
     None \<Rightarrow> None | Some x \<Rightarrow> Some (setCode x h c (snd (getStateObject a s))))"
  "undo (storageChange a k v) s = (case lookup a s of
     None \<Rightarrow> None | Some x \<Rightarrow> Some (setState x k v (snd (getStateObject a s))))"
  by simp_all

text \<open>
  The view of the result of an undo depends only on the view it starts from. This is
  what lets reasoning replace a state by any other with the same view.
\<close>

lemma sim_put:
  assumes "sim E s t" "wf_objs s" "wf_objs t" "lookup a s = Some x" "lookup a t = Some y"
    and "address x' = address x" "deleted x' = deleted x"
    and "address y' = address y" "deleted y' = deleted y" "view E x' = view E y'"
  shows "sim E (fire x' (snd (getStateObject a s))) (fire y' (snd (getStateObject a t)))"
proof (rule sim_fire)
  have "sim E (snd (getStateObject a s)) s" by simp
  also note assms(1)
  also have "sim E t (snd (getStateObject a t))" by (rule sim_sym) simp
  finally show "sim E (snd (getStateObject a s)) (snd (getStateObject a t))" .
qed (use assms lookup_live [of s a x] lookup_live [of t a y] in auto)

lemma undo_sim:
  assumes sim: "sim E s t" and wf: "wf_objs s" "wf_objs t" and u: "undo e s = Some s1"
  shows "\<exists>t1. undo e t = Some t1 \<and> sim E s1 t1"
proof -
  have gs: "sim E (snd (getStateObject a s)) (snd (getStateObject a t))" for a
    using sim by (simp add: sim_iff)
  note put = sim_put [OF sim wf]
  have obtain_obj: "\<exists>x y. lookup a s = Some x \<and> lookup a t = Some y \<and> view E y = view E x"
    if "lookup a s \<noteq> None" for a
    using sim_lookup_Some [OF sim] that by blast
  show ?thesis
  proof (cases e)
    case (createObjectChange a)
    with u sim show ?thesis by (auto simp: sim_iff lookup_remove)
  next
    case (resetObjectChange p)
    with u sim show ?thesis by (auto intro: sim_setStateObject)
  next
    case (suicideChange a p b)
    show ?thesis
    proof (cases "lookup a s = None")
      case True
      with sim_lookup_None [OF sim, of a] suicideChange u gs show ?thesis
        by (auto simp: undo_simps simp del: undo.simps)
    next
      case False
      then obtain x y where xy: "lookup a s = Some x" "lookup a t = Some y" "view E y = view E x"
        using obtain_obj by blast
      then show ?thesis using suicideChange u
        by (auto simp: undo_simps setBalance_def simp del: undo.simps intro!: put [OF xy(1,2)])
    qed
  next
    case (balanceChange a b)
    then obtain x y where xy: "lookup a s = Some x" "lookup a t = Some y" "view E y = view E x"
      using u obtain_obj [of a] by (auto simp: undo_simps simp del: undo.simps split: option.splits)
    then show ?thesis using balanceChange u
      by (auto simp: undo_simps setBalance_def simp del: undo.simps intro!: put [OF xy(1,2)])
  next
    case (nonceChange a n)
    then obtain x y where xy: "lookup a s = Some x" "lookup a t = Some y" "view E y = view E x"
      using u obtain_obj [of a] by (auto simp: undo_simps simp del: undo.simps split: option.splits)
    then show ?thesis using nonceChange u
      by (auto simp: undo_simps setNonce_def simp del: undo.simps intro!: put [OF xy(1,2)])
  next
    case (storageChange a k v)
    then obtain x y where xy: "lookup a s = Some x" "lookup a t = Some y" "view E y = view E x"
      using u obtain_obj [of a] by (auto simp: undo_simps simp del: undo.simps split: option.splits)
    then show ?thesis using storageChange u
      by (auto simp: undo_simps setState_def simp del: undo.simps intro!: put [OF xy(1,2)])
  next
    case (codeChange a c h)
    then obtain x y where xy: "lookup a s = Some x" "lookup a t = Some y" "view E y = view E x"
      using u obtain_obj [of a] by (auto simp: undo_simps simp del: undo.simps split: option.splits)
    then show ?thesis using codeChange u
      by (auto simp: undo_simps setCode_def view_setCode simp del: undo.simps
          intro!: put [OF xy(1,2)])
  next
    case (touchChange a p d)
    show ?thesis
    proof (cases "\<not> p \<and> a \<noteq> ripemd")
      case True
      then obtain x y where xy: "lookup a s = Some x" "lookup a t = Some y" "view E y = view E x"
        using u touchChange obtain_obj [of a] by (auto split: option.splits)
      have "sim E (setStateObject (x\<lparr>touched := p\<rparr>) (snd (getStateObject a s)))
                  (setStateObject (y\<lparr>touched := p\<rparr>) (snd (getStateObject a t)))"
        by (rule sim_setStateObject [OF gs])
           (use xy lookup_live [OF wf(1) xy(1)] lookup_live [OF wf(2) xy(2)] in simp_all)
      with xy True touchChange u show ?thesis
        by (auto simp: sim_iff Let_def)
    qed (use touchChange u sim in auto)
  next
    case (addLogChange h)
    with u sim show ?thesis
      by (auto simp: Let_def sim_iff split: if_splits)
  qed (use u sim in \<open>auto simp: sim_iff\<close>)
qed

lemma undo_frame:
  assumes "undo e s = Some s1"
  shows "trie s1 = trie s" "journal s1 = journal s" "validRevisions s1 = validRevisions s"
    "nextRevisionId s1 = nextRevisionId s"
  using assms
  by (cases e; auto simp: obj_simps Let_def split: option.splits if_splits)+

lemma undo_wf_objs:
  assumes "undo e s = Some s1" "wf_objs s" "entry_ok e"
  shows "wf_objs s1"
proof -
  have "wf_objs (fire y (snd (getStateObject a s)))"
    if "lookup a s = Some x" "deleted y = deleted x" for a x y
    using that assms(2) lookup_live [of s a x] by (simp add: wf_objs_fire)
  moreover have "wf_objs (setStateObject y (snd (getStateObject a s)))"
    if "lookup a s = Some x" "deleted y = deleted x" for a x y
    using that assms(2) lookup_live [of s a x] by (simp add: wf_objs_setStateObject)
  ultimately show ?thesis
    using assms
    by (cases e)
       (auto simp: obj_simps Let_def wf_objs_setStateObject wf_objs_remove
         split: option.splits if_splits)
qed

section \<open>Undoing a suffix of the journal\<close>

lemma undo_all_append:
  "undo_all (es @ fs) s = Option.bind (undo_all fs s) (undo_all es)"
proof (induction es)
  case Nil
  then show ?case by (cases "undo_all fs s") simp_all
next
  case (Cons e es)
  then show ?case by (cases "undo_all fs s") simp_all
qed

lemma undo_all_Cons:
  assumes "undo_all (e # es) s = Some u"
  obtains v where "undo_all es s = Some v" "undo e v = Some u"
  using assms by (cases "undo_all es s") simp_all

lemma undo_all_frame:
  assumes "undo_all es s = Some u"
  shows "trie u = trie s \<and> journal u = journal s \<and> validRevisions u = validRevisions s \<and>
    nextRevisionId u = nextRevisionId s"
  using assms
proof (induction es arbitrary: u)
  case (Cons e es)
  obtain v where v: "undo_all es s = Some v" "undo e v = Some u"
    using Cons.prems by (rule undo_all_Cons)
  from Cons.IH [OF v(1)] undo_frame [OF v(2)] show ?case by simp
qed simp

lemma undo_all_wf_objs:
  assumes "undo_all es s = Some u" "wf_objs s" "\<forall>e \<in> set es. entry_ok e"
  shows "wf_objs u"
  using assms
proof (induction es arbitrary: u)
  case (Cons e es)
  obtain v where v: "undo_all es s = Some v" "undo e v = Some u"
    using Cons.prems(1) by (rule undo_all_Cons)
  have "wf_objs v" using Cons.IH [OF v(1)] Cons.prems by simp
  then show ?case using undo_wf_objs [OF v(2)] Cons.prems by simp
qed simp

lemma undo_all_sim:
  assumes "undo_all es s = Some u" "sim E s t" "wf_objs s" "wf_objs t" "\<forall>e \<in> set es. entry_ok e"
  shows "\<exists>v. undo_all es t = Some v \<and> sim E u v"
  using assms
proof (induction es arbitrary: u)
  case (Cons e es)
  obtain u1 where u1: "undo_all es s = Some u1" "undo e u1 = Some u"
    using Cons.prems(1) by (rule undo_all_Cons)
  obtain v1 where v1: "undo_all es t = Some v1" "sim E u1 v1"
    using Cons.IH [OF u1(1) Cons.prems(2-4)] Cons.prems(5) by (auto simp del: undo_all.simps)
  have "wf_objs u1" "wf_objs v1"
    using undo_all_wf_objs [OF u1(1)] undo_all_wf_objs [OF v1(1)] Cons.prems by simp_all
  from undo_sim [OF v1(2) this u1(2)] v1(1) show ?case by simp
qed simp

section \<open>Operations that the journal can take back\<close>

text \<open>
  \<^term>\<open>extends E s t\<close>: the journal of \<^term>\<open>t\<close> is that of \<^term>\<open>s\<close> with entries appended, and
  undoing them in \<^term>\<open>t\<close> gives the view of \<^term>\<open>s\<close> back.
\<close>

definition extends :: "sdb_env \<Rightarrow> stateDB \<Rightarrow> stateDB \<Rightarrow> bool" where
  "extends E s t \<longleftrightarrow> wf_objs t \<and> trie t = trie s \<and>
     validRevisions t = validRevisions s \<and> nextRevisionId t = nextRevisionId s \<and>
     (\<exists>es u. journal t = journal s @ es \<and> (\<forall>e \<in> set es. entry_ok e) \<and>
        undo_all es t = Some u \<and> sim E u s)"

lemma extends_quiet:
  assumes "wf_objs t" "sim E t s" "journal t = journal s"
    "validRevisions t = validRevisions s" "nextRevisionId t = nextRevisionId s"
  shows "extends E s t"
  using assms simD(6) [OF assms(2)] by (auto simp: extends_def)

lemma extends_refl: "wf_objs s \<Longrightarrow> extends E s s"
  by (rule extends_quiet) simp_all

lemma extends_entry:
  assumes "wf_objs t" "trie t = trie s" "validRevisions t = validRevisions s"
    "nextRevisionId t = nextRevisionId s" "journal t = journal s @ [e]" "entry_ok e"
    "undo e t = Some u" "sim E u s"
  shows "extends E s t"
  unfolding extends_def using assms by (auto intro!: exI [of _ "[e]"])

lemma extends_trans:
  assumes "extends E s t" "extends E t u"
  shows "extends E s u"
proof -
  from assms(1) obtain es v where st: "journal t = journal s @ es" "\<forall>e \<in> set es. entry_ok e"
    "undo_all es t = Some v" "sim E v s" "wf_objs t"
    by (auto simp: extends_def)
  from assms(2) obtain fs w where tu: "journal u = journal t @ fs" "\<forall>e \<in> set fs. entry_ok e"
    "undo_all fs u = Some w" "sim E w t" "wf_objs u"
    by (auto simp: extends_def)
  have "wf_objs w" using undo_all_wf_objs tu by blast
  from undo_all_sim [OF st(3) sim_sym [OF tu(4)] st(5) this st(2)]
  obtain v' where v': "undo_all es w = Some v'" "sim E v v'" by auto
  then have "undo_all (es @ fs) u = Some v'" using tu(3) by (simp add: undo_all_append)
  moreover have "sim E v' s" using sim_trans [OF sim_sym [OF v'(2)] st(4)] .
  ultimately have "\<exists>es u'. journal u = journal s @ es \<and> (\<forall>e \<in> set es. entry_ok e) \<and>
      undo_all es u = Some u' \<and> sim E u' s"
    using st(1,2) tu(1,2) by (intro exI [of _ "es @ fs"] exI [of _ v']) auto
  then show ?thesis using assms by (simp add: extends_def)
qed

lemma extends_wf_cache: "extends E s t \<Longrightarrow> wf_cache s \<Longrightarrow> wf_cache t"
  by (auto simp: extends_def wf_cache_def)

text \<open>Writes to a live object whose undo record puts a field back.\<close>

lemma extends_put:
  assumes "wf_objs s" "lookup a s = Some x" "address x' = a" "\<not> deleted x'" "entry_ok e"
    and "undo e (fire x' (append_journal e s)) =
           Some (fire y (snd (getStateObject a (fire x' (append_journal e s)))))"
    and "address y = a" "\<not> deleted y" "view E y = view E x"
  shows "extends E s (fire x' (append_journal e s))"
proof (rule extends_entry)
  show "sim E (fire y (snd (getStateObject a (fire x' (append_journal e s))))) s"
    using assms by (auto simp: sim_iff lookup_fire)
qed (use assms in \<open>simp_all add: wf_objs_fire\<close>)

lemma extends_object_writes:
  assumes "wf_objs s" "lookup a s = Some x"
  shows "extends E s (obj_SetBalance x b s)"
    and "extends E s (obj_SetNonce x n s)"
    and "extends E s (obj_SetState E x k v s)"
    and "extends E s (obj_SetCode E x h c s)"
proof -
  have x: "address x = a" "\<not> deleted x" using lookup_live [OF assms] by auto
  note put = extends_put [OF assms, where E = E]
  show "extends E s (obj_SetBalance x b s)"
    unfolding obj_SetBalance_def setBalance_def
    by (rule put [where y = "x\<lparr>onDirty := False\<rparr>"])
       (simp_all add: x lookup_fire setBalance_def)
  show "extends E s (obj_SetNonce x n s)"
    unfolding obj_SetNonce_def setNonce_def
    by (rule put [where y = "x\<lparr>onDirty := False\<rparr>"])
       (simp_all add: x lookup_fire setNonce_def)
  let ?x = "snd (obj_GetState E x k)" and ?v = "fst (obj_GetState E x k)"
  let ?y = "?x\<lparr>onDirty := False, cachedStorage := (cachedStorage ?x)(k \<mapsto> ?v),
    dirtyStorage := (dirtyStorage x)(k \<mapsto> ?v)\<rparr>"
  have "view E ?y = (view E ?x)\<lparr>vStorage := (vStorage (view E ?x))(k := ?v)\<rparr>"
    by (simp add: view_eq del: view_GetState)
  moreover have "?v = vStorage (view E x) k" by (simp add: view_def)
  ultimately have y: "view E ?y = view E x" by simp
  show "extends E s (obj_SetState E x k v s)"
    unfolding obj_SetState_def setState_def case_prod_beta Let_def
    by (rule put [where y = ?y]) (simp_all add: x lookup_fire setState_def y del: view_update view_setState)
  let ?x = "snd (obj_Code E x)" and ?c = "fst (obj_Code E x)"
  let ?z = "?x\<lparr>onDirty := False, code := ?c, data := data x, dirtyCode := True\<rparr>"
  have "view E ?z = (view E ?x)\<lparr>vCodeHash := CodeHash (data x),
      vCode := code_view E ?c (CodeHash (data x))\<rparr>"
    by (simp add: view_eq del: view_Code)
  moreover have "?c = vCode (view E x)" by (simp add: view_def)
  ultimately have z: "view E ?z = view E x" by (simp add: view_eq [of E x])
  show "extends E s (obj_SetCode E x h c s)"
    unfolding obj_SetCode_def setCode_def case_prod_beta Let_def
    by (rule put [where y = ?z]) (simp_all add: x lookup_fire setCode_def z del: view_update)
qed

lemma undo_touchChange:
  assumes "wf_objs t" "lookup a t = Some y"
  obtains u where "undo (touchChange a p d) t = Some u" "sim E u t"
proof (cases "\<not> p \<and> a \<noteq> ripemd")
  case True
  let ?u = "setStateObject (y\<lparr>touched := p\<rparr>) (snd (getStateObject a t))"
  have y: "address y = a" "\<not> deleted y" using lookup_live [OF assms] by auto
  then have "sim E ?u t" using assms(2) by (auto simp: sim_iff lookup_setStateObject)
  then show ?thesis
    using True assms(2) that [of "if \<not> d then ?u\<lparr>stateObjectsDirty := stateObjectsDirty ?u - {a}\<rparr> else ?u"]
    by (simp add: Let_def split: if_splits)
next
  case False
  then have "undo (touchChange a p d) t = Some t" by auto
  then show ?thesis using that [of t] by simp
qed

lemma extends_touch:
  assumes "wf_objs s" "lookup a s = Some x"
  shows "extends E s (touch x s)"
proof -
  have x: "address x = a" "\<not> deleted x" using lookup_live [OF assms] by auto
  let ?e = "touchChange a (touched x) (\<not> onDirty x)"
  let ?t = "fire (x\<lparr>touched := True\<rparr>) (append_journal ?e s)"
  have "wf_objs ?t" "lookup a ?t = Some (x\<lparr>touched := True, onDirty := False\<rparr>)"
    using x assms(1) by (simp_all add: wf_objs_fire lookup_fire)
  then obtain u where u: "undo ?e ?t = Some u" "sim E u ?t" by (rule undo_touchChange)
  have "sim E ?t s" using x assms(2) by (auto simp: sim_iff lookup_fire)
  with u(2) have "sim E u s" by (rule sim_trans)
  then show ?thesis
    unfolding touch_def x(1) using u(1) \<open>wf_objs ?t\<close>
    by (intro extends_entry [where e = ?e and u = u]) simp_all
qed

section \<open>Creating objects\<close>

lemma createObject_eq:
  "createObject E a s =
     ((newObject a (zeroAccount E) False, lookup a s),
      setStateObject (newObject a (zeroAccount E) False)
        (append_journal
           (case lookup a s of None \<Rightarrow> createObjectChange a | Some p \<Rightarrow> resetObjectChange p)
           (MarkStateObjectDirty a (snd (getStateObject a s)))))"
  by (simp add: createObject_def Let_def newObject_def split: option.splits)

lemma MarkStateObjectDirty_simps [simp]:
  "trie (MarkStateObjectDirty a s) = trie s"
  "stateObjects (MarkStateObjectDirty a s) = stateObjects s"
  "refund (MarkStateObjectDirty a s) = refund s" "logs (MarkStateObjectDirty a s) = logs s"
  "logSize (MarkStateObjectDirty a s) = logSize s"
  "preimages (MarkStateObjectDirty a s) = preimages s"
  "journal (MarkStateObjectDirty a s) = journal s"
  "validRevisions (MarkStateObjectDirty a s) = validRevisions s"
  "nextRevisionId (MarkStateObjectDirty a s) = nextRevisionId s"
  "bheight (MarkStateObjectDirty a s) = bheight s"
  "lookup b (MarkStateObjectDirty a s) = lookup b s"
  "wf_objs (MarkStateObjectDirty a s) = wf_objs s"
  by (simp_all add: MarkStateObjectDirty_def)

lemma lookup_None_stored:
  assumes "wf_objs s" "lookup a s = None"
  shows "stored (trie s) a = None"
  using assms by (auto simp: wf_objs_def lookup_eq stored_def split: option.splits if_splits)

lemma extends_createObject:
  assumes "wf_objs s" "createObject E a s = ((x, p), t)"
  shows "extends E s t" and "lookup a t = Some x" and "p = lookup a s"
proof -
  from assms(2) have x: "x = newObject a (zeroAccount E) False" and p: "p = lookup a s"
    and t: "t = setStateObject x (append_journal
           (case p of None \<Rightarrow> createObjectChange a | Some p \<Rightarrow> resetObjectChange p)
           (MarkStateObjectDirty a (snd (getStateObject a s))))"
    by (auto simp: createObject_eq)
  have lt: "lookup b t = (if b = a then Some x else lookup b s)" for b
    by (simp add: t x lookup_setStateObject)
  have fr: "refund t = refund s" "logs t = logs s" "logSize t = logSize s"
    "preimages t = preimages s" "trie t = trie s"
    by (simp_all add: t)
  show "lookup a t = Some x" by (simp add: lt)
  show "p = lookup a s" by (fact p)
  show "extends E s t"
  proof (cases p)
    case None
    show ?thesis
    proof (rule extends_entry)
      show "undo (createObjectChange a) t =
        Some (t\<lparr>stateObjects := (stateObjects t)(a := None),
                stateObjectsDirty := stateObjectsDirty t - {a}\<rparr>)" by simp
      show "sim E (t\<lparr>stateObjects := (stateObjects t)(a := None),
                stateObjectsDirty := stateObjectsDirty t - {a}\<rparr>) s"
        using None lookup_None_stored [OF assms(1), of a]
        by (auto simp: sim_iff lookup_remove lt fr p)
    qed (use assms None in \<open>simp_all add: t x wf_objs_setStateObject\<close>)
  next
    case (Some q)
    with p have q: "address q = a" "\<not> deleted q" using lookup_live [OF assms(1), of a q] by auto
    show ?thesis
    proof (rule extends_entry)
      show "undo (resetObjectChange q) t = Some (setStateObject q t)" by simp
      show "sim E (setStateObject q t) s"
        using Some p q by (auto simp: sim_iff lookup_setStateObject lt fr)
    qed (use assms Some q in \<open>simp_all add: t x wf_objs_setStateObject\<close>)
  qed
qed

lemma extends_getStateObject: "wf_objs s \<Longrightarrow> extends E s (snd (getStateObject a s))"
  by (rule extends_quiet) simp_all

lemma extends_GetOrNew:
  assumes "wf_objs s" "GetOrNewStateObject E a s = (x, t)"
  shows "extends E s t" and "lookup a t = Some x"
proof -
  have s1: "wf_objs (snd (getStateObject a s))" using assms(1) by simp
  have "extends E s t \<and> lookup a t = Some x"
  proof (cases "lookup a s")
    case None
    obtain y p u where c: "createObject E a (snd (getStateObject a s)) = ((y, p), u)"
      by (metis prod.exhaust)
    with None assms(2) have "x = y" "t = u" by (simp_all add: GetOrNewStateObject_def)
    with extends_createObject [OF s1 c] extends_getStateObject [OF assms(1)] show ?thesis
      by (auto intro: extends_trans)
  next
    case (Some y)
    with assms lookup_live [OF assms(1) Some] show ?thesis
      by (auto simp: GetOrNewStateObject_def extends_getStateObject)
  qed
  then show "extends E s t" and "lookup a t = Some x" by auto
qed

lemma extends_wf: "extends E s t \<Longrightarrow> wf_objs t"
  by (simp add: extends_def)

lemma extends_setWeight:
  assumes "wf_objs s" "lookup a s = Some x" "setWeight x w h s = Some t"
  shows "extends E s t"
proof -
  have x: "address x = a" "\<not> deleted x" using lookup_live [OF assms(1,2)] by auto
  from assms(3) obtain i where t: "t = fire (x\<lparr>data := (data x)\<lparr>WeightAtLastUpdatedHeight := w,
      LastUpdatedHeight := i\<rparr>\<rparr>) s"
    by (cases h) (auto simp: setWeight_def)
  show ?thesis unfolding t
    by (rule extends_quiet)
       (use assms x in \<open>auto simp: wf_objs_fire intro!: sim_fire_same [where y = x]\<close>)
qed

section \<open>The public operations\<close>

fun writes_only :: "sdb_op \<Rightarrow> bool" where
  "writes_only SnapshotOp = False"
| "writes_only (RevertOp i) = False"
| "writes_only x = True"

lemma extends_via_object:
  assumes "wf_objs s" and "\<And>x t. wf_objs t \<Longrightarrow> lookup a t = Some x \<Longrightarrow> extends E t (f x t)"
  shows "extends E s (case GetOrNewStateObject E a s of (x, t) \<Rightarrow> f x t)"
proof -
  obtain x t where g: "GetOrNewStateObject E a s = (x, t)" by fastforce
  from extends_GetOrNew [OF assms(1) g] assms(2) [of t x] extends_wf show ?thesis
    by (auto simp: g intro: extends_trans)
qed

lemma extends_balance_ops:
  assumes "wf_objs s"
  shows "extends E s (AddBalance E a v s)" and "extends E s (SubBalance E a v s)"
    and "extends E s (SetBalance E a v s)" and "extends E s (SetNonce E a n s)"
    and "extends E s (SetCode E a c s)" and "extends E s (SetState E a k w s)"
  unfolding AddBalance_def SubBalance_def SetBalance_def SetNonce_def SetCode_def SetState_def
  by (rule extends_via_object [OF assms],
      auto simp: obj_AddBalance_def obj_SubBalance_def
        intro: extends_object_writes extends_touch extends_refl)+

lemma extends_weight_ops:
  assumes "wf_objs s"
  shows "addWeight E a v s = Some t \<Longrightarrow> extends E s t"
    and "subWeight E a v s = Some t \<Longrightarrow> extends E s t"
    and "ClearWeight a s = Some t \<Longrightarrow> extends E s t"
proof -
  obtain x u where g: "GetOrNewStateObject E a s = (x, u)" by fastforce
  note u = extends_GetOrNew [OF assms g]
  note sw = extends_setWeight [OF extends_wf [OF u(1)] u(2)]
  show "extends E s t" if "addWeight E a v s = Some t"
    using that u(1) sw by (auto simp: addWeight_def obj_AddWeight_def g bind_eq_Some_conv
        intro: extends_trans)
  show "extends E s t" if "subWeight E a v s = Some t"
    using that u(1) sw by (auto simp: subWeight_def obj_SubWeight_def Let_def g bind_eq_Some_conv
        intro: extends_trans)
  show "extends E s t" if "ClearWeight a s = Some t"
  proof (cases "lookup a s")
    case (Some y)
    have w: "wf_objs (snd (getStateObject a s))" using assms by simp
    show ?thesis
      by (rule extends_trans [OF extends_getStateObject [OF assms, where a = a]],
          rule extends_setWeight [OF w, of a y])
         (use that Some in \<open>simp_all add: ClearWeight_def\<close>)
  qed (use that assms in \<open>auto simp: ClearWeight_def extends_getStateObject\<close>)
qed

lemma extends_Suicide:
  assumes "wf_objs s"
  shows "extends E s (snd (Suicide a s))"
proof (cases "lookup a s")
  case (Some x)
  let ?s = "snd (getStateObject a s)"
  have w: "wf_objs ?s" "lookup a ?s = Some x" using assms Some by simp_all
  have x: "address x = a" "\<not> deleted x" using lookup_live [OF assms Some] by auto
  have "extends E ?s (fire (x\<lparr>data := (data x)\<lparr>Balance := 0\<rparr>, suicided := True\<rparr>)
     (append_journal (suicideChange a (suicided x) (Balance (data x))) ?s))"
    by (rule extends_put [OF w, where y = "x\<lparr>onDirty := False\<rparr>"])
       (simp_all add: x lookup_fire setBalance_def)
  with extends_getStateObject [OF assms] Some show ?thesis
    by (auto simp: Suicide_def markSuicided_def Let_def intro: extends_trans)
qed (use assms in \<open>simp add: Suicide_def extends_getStateObject\<close>)

lemma extends_CreateAccount:
  assumes "wf_objs s" "CreateAccount E a s = Some t"
  shows "extends E s t"
proof -
  obtain x p u where c: "createObject E a s = ((x, p), u)" by (metis prod.exhaust)
  note u = extends_createObject [OF assms(1) c]
  show ?thesis
  proof (cases p)
    case None
    with assms(2) c u(1) show ?thesis by (simp add: CreateAccount_def)
  next
    case (Some q)
    \<comment> \<open>the undo record of the reset already restores the previous object\<close>
    note wu = extends_wf [OF u(1)]
    have x: "address x = a" "\<not> deleted x" using lookup_live [OF wu u(2)] by auto
    from assms(2) c Some obtain v y where v: "setWeight x 0 (bheight u) u = Some v"
      "stateObjects v a = Some y" "t = setBalance y (Balance (data q)) v"
      by (auto simp: CreateAccount_def bind_eq_Some_conv)
    from v(1) x(1) obtain i where veq: "v = fire (x\<lparr>data := (data x)\<lparr>
        WeightAtLastUpdatedHeight := 0, LastUpdatedHeight := i\<rparr>\<rparr>) u"
      by (cases "bheight u") (auto simp: setWeight_def)
    with v(2) x have y: "address y = a" "\<not> deleted y" by auto
    have q: "address q = a" "\<not> deleted q"
      using lookup_live [OF assms(1)] u(3) Some by auto
    have t: "t = fire (y\<lparr>data := (data y)\<lparr>Balance := Balance (data q)\<rparr>\<rparr>) v"
      using v(3) by (simp add: setBalance_def)
    have uj: "u = setStateObject x (append_journal (resetObjectChange q)
        (MarkStateObjectDirty a (snd (getStateObject a s))))"
      using c Some by (auto simp: createObject_eq)
    show ?thesis
    proof (rule extends_entry)
      show "undo (resetObjectChange q) t = Some (setStateObject q t)" by simp
      show "sim E (setStateObject q t) s"
        using q x y u(3) Some
        by (auto simp: sim_iff lookup_setStateObject lookup_fire t veq uj)
    qed (use assms x y q wu in \<open>simp_all add: t veq wf_objs_fire, simp_all add: uj\<close>)
  qed
qed

lemma extends_counters:
  assumes "wf_objs s"
  shows "extends E s (AddLog l s)" and "extends E s (AddPreimage h p s)"
    and "extends E s (AddRefund g s)" and "extends E s (Prepare th bh n i s)"
proof -
  show "extends E s (AddLog l s)"
  proof (rule extends_entry)
    let ?t = "AddLog l s" and ?ls = "logs_view (logs s) (thash s)"
    show "undo (addLogChange (thash s)) ?t =
      Some (?t\<lparr>logs := (logs ?t)(thash s := if ?ls = [] then None else Some ?ls),
              logSize := logSize s\<rparr>)"
      by (auto simp: AddLog_def Let_def)
  qed (use assms in \<open>auto simp: AddLog_def Let_def sim_iff\<close>)
  show "extends E s (AddPreimage h p s)"
  proof (cases "preimages s h")
    case None
    then show ?thesis
      by (intro extends_entry [where e = "addPreimageChange h" and
            u = "(AddPreimage h p s)\<lparr>preimages := preimages s\<rparr>"])
         (use assms in \<open>auto simp: AddPreimage_def sim_iff fun_upd_idem\<close>)
  qed (use assms in \<open>simp add: AddPreimage_def extends_refl\<close>)
  show "extends E s (AddRefund g s)"
    by (rule extends_entry [where e = "refundChange (refund s)" and
          u = "(AddRefund g s)\<lparr>refund := refund s\<rparr>"])
       (use assms in \<open>auto simp: AddRefund_def sim_iff\<close>)
  show "extends E s (Prepare th bh n i s)"
    by (rule extends_quiet) (use assms in \<open>simp_all add: Prepare_def sim_iff\<close>)
qed

lemma extends_exec_op:
  assumes "wf_objs s" "writes_only x" "exec_op E x s = Some t"
  shows "extends E s t"
proof -
  have reads: "wf_objs (snd (GetCode E a s))" "wf_objs (snd (GetState E a k s))" for a k
    using assms(1) lookup_live [OF assms(1)]
    by (cases "lookup a s"; simp add: GetCode_def GetState_def case_prod_beta wf_objs_setStateObject)+
  have reads_frame: "journal (snd (GetCode E a s)) = journal s"
    "validRevisions (snd (GetCode E a s)) = validRevisions s"
    "nextRevisionId (snd (GetCode E a s)) = nextRevisionId s"
    "journal (snd (GetState E a k s)) = journal s"
    "validRevisions (snd (GetState E a k s)) = validRevisions s"
    "nextRevisionId (snd (GetState E a k s)) = nextRevisionId s" for a k
    by (cases "lookup a s"; simp add: GetCode_def GetState_def case_prod_beta)+
  note bal = extends_balance_ops [where E = E] and wt = extends_weight_ops [where E = E]
  show ?thesis
  proof (cases x)
    case (AddBalanceAndWeightOp a v)
    then obtain s1 where "addWeight E a v s = Some s1" "t = AddBalance E a v s1"
      using assms(3) by (auto simp: AddBalanceAndWeight_def bind_eq_Some_conv)
    with wt(1) [OF assms(1)] bal(1) [OF extends_wf] show ?thesis by (blast intro: extends_trans)
  next
    case (SubBalanceAndWeightOp a v)
    then obtain s1 where "subWeight E a v s = Some s1" "t = SubBalance E a v s1"
      using assms(3) by (auto simp: SubBalanceAndWeight_def bind_eq_Some_conv)
    with wt(2) [OF assms(1)] bal(2) [OF extends_wf] show ?thesis by (blast intro: extends_trans)
  next
    case (GetCodeOp a)
    with assms reads reads_frame show ?thesis by (auto intro!: extends_quiet reads_keep_view)
  next
    case (GetStateOp a k)
    with assms reads reads_frame show ?thesis by (auto intro!: extends_quiet reads_keep_view)
  next
    case (GetCodeSizeOp a)
    have "extends E s (snd (GetCodeSize E a s))"
      by (rule GetCodeSize_state [of E a s]) (use assms(1) in \<open>auto intro!: extends_quiet\<close>)
    with GetCodeSizeOp assms(3) show ?thesis by simp
  next
    case (ClearWeightOp a)
    with assms wt(3) [OF assms(1)] show ?thesis by simp
  next
    case (CreateAccountOp a)
    with assms extends_CreateAccount show ?thesis by simp
  qed (use assms in \<open>auto intro: extends_balance_ops extends_Suicide extends_counters
         extends_getStateObject\<close>)
qed

section \<open>Revisions\<close>

definition wf_revs :: "stateDB \<Rightarrow> bool" where
  "wf_revs s \<longleftrightarrow> sorted_wrt (<) (map fst (validRevisions s)) \<and>
     sorted_wrt (\<le>) (map snd (validRevisions s)) \<and>
     (\<forall>(i, n) \<in> set (validRevisions s). i < nextRevisionId s \<and> n \<le> length (journal s))"

definition sdb_inv :: "stateDB \<Rightarrow> bool" where
  "sdb_inv s \<longleftrightarrow> wf_cache s \<and> wf_revs s"

lemma sdb_inv_New: "sdb_inv (New tr)"
  by (simp add: sdb_inv_def wf_cache_def wf_objs_def wf_revs_def New_def)

lemma search_revision:
  fixes revs :: "(int \<times> nat) list"
  assumes "sorted_wrt (<) (map fst revs)" "i < length revs"
  shows "sort_Search (length revs) (\<lambda>k. fst (revs ! i) \<le> fst (revs ! k)) = i"
proof -
  let ?f = "\<lambda>k. fst (revs ! i) \<le> fst (revs ! k)"
  have less: "fst (revs ! k) < fst (revs ! l)" if "k < l" "l < length revs" for k l
    using sorted_wrt_nth_less [OF assms(1) that(1)] that by simp
  have mono: "?f l" if "k \<le> l" "l < length revs" "?f k" for k l
  proof (cases "k = l")
    case False
    with that have "k < l" by simp
    from less [OF this that(2)] that(3) show ?thesis by linarith
  qed (use that in simp)
  then have "\<forall>k l. k \<le> l \<longrightarrow> l < length revs \<longrightarrow> ?f k \<longrightarrow> ?f l" by blast
  note S = sort_Search_least [OF this]
  show ?thesis
  proof (rule antisym)
    show "sort_Search (length revs) ?f \<le> i"
      using S(2) by (meson linorder_not_le order_refl)
    show "i \<le> sort_Search (length revs) ?f"
    proof (rule ccontr)
      assume "\<not> ?thesis"
      then have lt: "sort_Search (length revs) ?f < i" by simp
      then have "?f (sort_Search (length revs) ?f)" using S(3) assms(2) by simp
      with less [OF lt assms(2)] show False by simp
    qed
  qed
qed

lemma RevertToSnapshot_valid:
  assumes "wf_revs s" "validRevisions s = pre @ (r, n) # post"
  shows "RevertToSnapshot r s =
    map_option (\<lambda>u. u\<lparr>journal := take n (journal s), validRevisions := pre\<rparr>)
      (undo_all (drop n (journal s)) s)"
proof -
  have "sort_Search (length (validRevisions s)) (\<lambda>k. r \<le> fst (validRevisions s ! k)) = length pre"
    using search_revision [of "validRevisions s" "length pre"] assms by (simp add: wf_revs_def)
  moreover have "journal u = journal s \<and> validRevisions u = validRevisions s"
    if "undo_all (drop n (journal s)) s = Some u" for u
    using undo_all_frame [OF that] by simp
  ultimately show ?thesis
    using assms(2)
    by (cases "undo_all (drop n (journal s)) s") (simp_all add: RevertToSnapshot_def Let_def)
qed

lemma RevertToSnapshot_invalid:
  assumes "r \<notin> fst ` set (validRevisions s)"
  shows "RevertToSnapshot r s = None"
proof -
  let ?i = "sort_Search (length (validRevisions s)) (\<lambda>i. r \<le> fst (validRevisions s ! i))"
  have "fst (validRevisions s ! ?i) \<noteq> r" if "?i \<noteq> length (validRevisions s)"
    using that assms sort_Search_le [of "length (validRevisions s)"] nth_mem
    by (metis imageI le_neq_implies_less)
  then show ?thesis by (auto simp: RevertToSnapshot_def Let_def)
qed

text \<open>
  The state of a revision, seen from a later state: the journal and the revisions grew
  from those of the base, and undoing the rest of the journal gives the base's view.
  Once the revision is dropped it never comes back, since identifiers increase.
\<close>

definition revision_ok :: "sdb_env \<Rightarrow> int \<Rightarrow> stateDB \<Rightarrow> stateDB \<Rightarrow> bool" where
  "revision_ok E r base s \<longleftrightarrow> r < nextRevisionId s \<and>
     (r \<in> fst ` set (validRevisions s) \<longrightarrow>
       (\<exists>es post u. journal s = journal base @ es \<and>
          validRevisions s = validRevisions base @ (r, length (journal base)) # post \<and>
          undo_all es s = Some u \<and> sim E u base))"

lemma wf_revs_extends: "wf_revs s \<Longrightarrow> extends E s t \<Longrightarrow> wf_revs t"
  by (force simp: wf_revs_def extends_def)

lemma sdb_inv_extends: "sdb_inv s \<Longrightarrow> extends E s t \<Longrightarrow> sdb_inv t"
  by (auto simp: sdb_inv_def intro: extends_wf_cache wf_revs_extends)

lemma revision_ok_extends:
  assumes "revision_ok E r base s" "sdb_inv s" "extends E s t"
  shows "revision_ok E r base t"
proof (cases "r \<in> fst ` set (validRevisions s)")
  case True
  from assms(1) True obtain es post u where s: "journal s = journal base @ es"
    "validRevisions s = validRevisions base @ (r, length (journal base)) # post"
    "undo_all es s = Some u" "sim E u base"
    by (auto simp: revision_ok_def)
  from assms(3) obtain fs v where t: "journal t = journal s @ fs" "\<forall>e \<in> set fs. entry_ok e"
    "undo_all fs t = Some v" "sim E v s" "wf_objs t" "validRevisions t = validRevisions s"
    "nextRevisionId t = nextRevisionId s"
    by (auto simp: extends_def)
  have es: "\<forall>e \<in> set es. entry_ok e" and ws: "wf_objs s"
    using assms(2) s(1) by (auto simp: sdb_inv_def wf_cache_def)
  obtain w where w: "undo_all es v = Some w" "sim E u w"
    using undo_all_sim [OF s(3) sim_sym [OF t(4)] ws undo_all_wf_objs [OF t(3,5,2)] es] by auto
  have "undo_all (es @ fs) t = Some w" using t(3) w(1) by (simp add: undo_all_append)
  moreover have "sim E w base" using sim_trans [OF sim_sym [OF w(2)] s(4)] .
  ultimately have "\<exists>es' post u. journal t = journal base @ es' \<and>
     validRevisions t = validRevisions base @ (r, length (journal base)) # post \<and>
     undo_all es' t = Some u \<and> sim E u base"
    using s(1,2) t(1,6) by (intro exI [of _ "es @ fs"] exI [of _ post] exI [of _ w]) simp
  then show ?thesis using assms(1) t(7) by (simp add: revision_ok_def)
qed (use assms in \<open>auto simp: revision_ok_def extends_def\<close>)

lemma Snapshot_sdb_inv:
  assumes "sdb_inv s"
  shows "sdb_inv (snd (Snapshot s))"
  using assms
  by (force simp: sdb_inv_def wf_cache_def wf_revs_def Snapshot_def sorted_wrt_append)

lemma revision_ok_snapshot:
  assumes "sdb_inv s"
  shows "revision_ok E (fst (Snapshot s)) s (snd (Snapshot s))"
  by (auto simp: revision_ok_def Snapshot_def)

lemma revision_ok_nested_snapshot:
  assumes "revision_ok E r base s" "sdb_inv s"
  shows "revision_ok E r base (snd (Snapshot s))"
proof (cases "r \<in> fst ` set (validRevisions s)")
  case True
  let ?t = "snd (Snapshot s)"
  from assms(1) True obtain es post u where s: "journal s = journal base @ es"
    "validRevisions s = validRevisions base @ (r, length (journal base)) # post"
    "undo_all es s = Some u" "sim E u base"
    by (auto simp: revision_ok_def)
  have t: "sim E s ?t" "wf_objs s" "wf_objs ?t" "\<forall>e \<in> set es. entry_ok e"
    using assms(2) s(1) by (auto simp: Snapshot_def sdb_inv_def wf_cache_def)
  obtain v where "undo_all es ?t = Some v" "sim E u v"
    using undo_all_sim [OF s(3) t] by auto
  moreover from this have "sim E v base" using s(4) sim_sym sim_trans by blast
  ultimately show ?thesis
    using assms(1) s(1,2) by (auto simp: revision_ok_def Snapshot_def)
qed (use assms in \<open>auto simp: revision_ok_def Snapshot_def\<close>)

text \<open>
  Reverting to a later revision: the earlier one survives, and the entries that remain
  still lead back to its base.
\<close>

lemma RevertToSnapshot_cases:
  assumes "RevertToSnapshot q s = Some t" "sdb_inv s"
  obtains pre n post u where "validRevisions s = pre @ (q, n) # post"
    "undo_all (drop n (journal s)) s = Some u"
    "t = u\<lparr>journal := take n (journal s), validRevisions := pre\<rparr>"
proof -
  have "q \<in> fst ` set (validRevisions s)"
    using assms(1) RevertToSnapshot_invalid by fastforce
  then obtain n where "(q, n) \<in> set (validRevisions s)" by auto
  then obtain pre post where p: "validRevisions s = pre @ (q, n) # post"
    by (auto dest: split_list)
  have "wf_revs s" using assms(2) by (simp add: sdb_inv_def)
  from RevertToSnapshot_valid [OF this p] assms(1)
  obtain u where "undo_all (drop n (journal s)) s = Some u"
    "t = u\<lparr>journal := take n (journal s), validRevisions := pre\<rparr>"
    by (cases "undo_all (drop n (journal s)) s") auto
  from that [OF p this] show ?thesis .
qed

lemma RevertToSnapshot_sdb_inv:
  assumes "RevertToSnapshot q s = Some t" "sdb_inv s"
  shows "sdb_inv t"
proof -
  obtain pre n post u where r: "validRevisions s = pre @ (q, n) # post"
    "undo_all (drop n (journal s)) s = Some u"
    "t = u\<lparr>journal := take n (journal s), validRevisions := pre\<rparr>"
    using assms by (rule RevertToSnapshot_cases)
  have ok: "\<forall>e \<in> set (journal s). entry_ok e" and w: "wf_objs s" "wf_revs s"
    using assms(2) by (auto simp: sdb_inv_def wf_cache_def)
  have "wf_objs u"
    by (rule undo_all_wf_objs [OF r(2) w(1)]) (use ok in \<open>auto dest: in_set_dropD\<close>)
  then have "wf_cache t" using ok by (auto simp: wf_cache_def r(3) dest: in_set_takeD)
  moreover have "wf_revs t"
    using w(2) undo_all_frame [OF r(2)] r(1)
    by (fastforce simp: wf_revs_def r(3) sorted_wrt_append)
  ultimately show ?thesis by (simp add: sdb_inv_def)
qed

lemma revision_ok_nested_revert:
  assumes "revision_ok E r base s" "sdb_inv s" "RevertToSnapshot q s = Some t"
  shows "revision_ok E r base t"
proof -
  obtain pre n post u where q: "validRevisions s = pre @ (q, n) # post"
    "undo_all (drop n (journal s)) s = Some u"
    "t = u\<lparr>journal := take n (journal s), validRevisions := pre\<rparr>"
    using assms(3,2) by (rule RevertToSnapshot_cases)
  have next_id: "nextRevisionId t = nextRevisionId s"
    using undo_all_frame [OF q(2)] by (simp add: q(3))
  show ?thesis
  proof (cases "r \<in> fst ` set pre")
    case True
    then obtain m where m: "(r, m) \<in> set pre" by auto
    with assms(1) q(1) obtain es post' v where s: "journal s = journal base @ es"
      "validRevisions s = validRevisions base @ (r, length (journal base)) # post'"
      "undo_all es s = Some v" "sim E v base"
      by (force simp: revision_ok_def)
    have sorted: "sorted_wrt (<) (map fst (validRevisions s))"
      "sorted_wrt (\<le>) (map snd (validRevisions s))"
      using assms(2) by (simp_all add: sdb_inv_def wf_revs_def)
    \<comment> \<open>identifiers are distinct, so \<open>pre\<close> reaches past the base's revision\<close>
    have "length (validRevisions base) < length pre"
    proof (rule ccontr)
      assume "\<not> ?thesis"
      then have "take (length pre) (validRevisions base) = pre"
        using q(1) s(2) by (metis append_eq_append_conv_if linorder_not_less)
      with m have "(r, m) \<in> set (validRevisions base)" by (metis in_set_takeD)
      with sorted(1) s(2) show False by (auto simp: sorted_wrt_append)
    qed
    then obtain post'' where pre: "pre = validRevisions base @ (r, length (journal base)) # post''"
      using q(1) s(2) by (auto simp: append_eq_append_conv2 Cons_eq_append_conv)
    with sorted(2) q(1) have le: "length (journal base) \<le> n" by (auto simp: sorted_wrt_append)
    define k where "k = n - length (journal base)"
    have split: "take n (journal s) = journal base @ take k es"
      "drop n (journal s) = drop k es"
      using le by (simp_all add: s(1) k_def)
    have "undo_all (take k es @ drop k es) s = Some v" using s(3) by simp
    then have "undo_all (take k es) u = Some v"
      using q(2) by (simp only: undo_all_append split bind.bind_lunit)
    moreover have ok: "\<forall>e \<in> set es. entry_ok e" and ws: "wf_objs s"
      using assms(2) s(1) by (auto simp: sdb_inv_def wf_cache_def)
    have wu: "wf_objs u"
      by (rule undo_all_wf_objs [OF q(2) ws]) (use ok split in \<open>auto dest: in_set_dropD\<close>)
    ultimately obtain w where "undo_all (take k es) t = Some w" "sim E v w"
      using undo_all_sim [of "take k es" u v E t] wu ok
      by (auto simp: q(3) dest: in_set_takeD)
    moreover from this have "sim E w base" using s(4) sim_sym sim_trans by blast
    moreover have "journal t = journal base @ take k es"
      "validRevisions t = validRevisions base @ (r, length (journal base)) # post''"
      by (simp_all add: q(3) split pre)
    ultimately show ?thesis using assms(1) next_id by (auto simp: revision_ok_def)
  next
    case False
    then show ?thesis using assms(1) next_id by (simp add: revision_ok_def q(3))
  qed
qed

section \<open>Sequences of operations\<close>

lemma exec_op_inv:
  assumes "exec_op E x s = Some t" "sdb_inv s"
  shows "sdb_inv t" and "revision_ok E r base s \<Longrightarrow> revision_ok E r base t"
proof -
  have "sdb_inv t \<and> (revision_ok E r base s \<longrightarrow> revision_ok E r base t)"
  proof (cases "writes_only x")
    case True
    have "extends E s t"
      by (rule extends_exec_op [OF _ True assms(1)])
         (use assms(2) in \<open>simp add: sdb_inv_def wf_cache_def\<close>)
    with assms(2) show ?thesis by (auto intro: sdb_inv_extends revision_ok_extends)
  next
    case False
    then consider "x = SnapshotOp" | q where "x = RevertOp q" by (cases x) auto
    then show ?thesis
    proof cases
      case 1
      with assms show ?thesis by (auto intro: Snapshot_sdb_inv revision_ok_nested_snapshot)
    next
      case 2
      with assms show ?thesis
        by (auto intro: RevertToSnapshot_sdb_inv revision_ok_nested_revert)
    qed
  qed
  then show "sdb_inv t" and "revision_ok E r base s \<Longrightarrow> revision_ok E r base t" by auto
qed

lemma exec_ops_inv:
  assumes "exec_ops E xs s = Some t" "sdb_inv s"
  shows "sdb_inv t" and "revision_ok E r base s \<Longrightarrow> revision_ok E r base t"
proof -
  have "sdb_inv t \<and> (revision_ok E r base s \<longrightarrow> revision_ok E r base t)"
    using assms
  proof (induction xs arbitrary: s)
    case (Cons x xs)
    then obtain s1 where s1: "exec_op E x s = Some s1" "exec_ops E xs s1 = Some t"
      by (auto simp: bind_eq_Some_conv)
    from exec_op_inv [OF s1(1) Cons.prems(2)] Cons.IH [OF s1(2)] show ?case by blast
  qed simp
  then show "sdb_inv t" and "revision_ok E r base s \<Longrightarrow> revision_ok E r base t" by auto
qed

text \<open>
  A revision stays valid as long as no operation reverts to it or to an earlier one.
\<close>

definition nested_in :: "int \<Rightarrow> sdb_op list \<Rightarrow> bool" where
  "nested_in r xs \<longleftrightarrow> (\<forall>q. RevertOp q \<in> set xs \<longrightarrow> r < q)"

lemma exec_op_keeps_revision:
  assumes "exec_op E x s = Some t" "sdb_inv s" "r \<in> fst ` set (validRevisions s)"
    "\<And>q. x = RevertOp q \<Longrightarrow> r < q"
  shows "r \<in> fst ` set (validRevisions t)"
proof (cases "writes_only x")
  case True
  have "extends E s t"
    by (rule extends_exec_op [OF _ True assms(1)])
       (use assms(2) in \<open>simp add: sdb_inv_def wf_cache_def\<close>)
  with assms(3) show ?thesis by (simp add: extends_def)
next
  case False
  then consider "x = SnapshotOp" | q where "x = RevertOp q" by (cases x) auto
  then show ?thesis
  proof cases
    case 1
    with assms(1,3) show ?thesis by (auto simp: Snapshot_def)
  next
    case 2
    with assms(1) have rev: "RevertToSnapshot q s = Some t" by simp
    obtain pre n post u where q: "validRevisions s = pre @ (q, n) # post"
      "undo_all (drop n (journal s)) s = Some u"
      "t = u\<lparr>journal := take n (journal s), validRevisions := pre\<rparr>"
      using rev assms(2) by (rule RevertToSnapshot_cases)
    have "sorted_wrt (<) (map fst (validRevisions s))"
      using assms(2) by (simp add: sdb_inv_def wf_revs_def)
    with assms(3,4) [unfolded 2] q(1) show ?thesis
      by (fastforce simp: q(3) sorted_wrt_append)
  qed
qed

lemma exec_ops_keeps_revision:
  assumes "exec_ops E xs s = Some t" "sdb_inv s" "r \<in> fst ` set (validRevisions s)"
    "nested_in r xs"
  shows "r \<in> fst ` set (validRevisions t)"
  using assms
proof (induction xs arbitrary: s)
  case (Cons x xs)
  then obtain s1 where s1: "exec_op E x s = Some s1" "exec_ops E xs s1 = Some t"
    by (auto simp: bind_eq_Some_conv)
  have "r \<in> fst ` set (validRevisions s1)"
    by (rule exec_op_keeps_revision [OF s1(1) Cons.prems(2,3)])
       (use Cons.prems(4) in \<open>simp add: nested_in_def\<close>)
  then show ?case
    by (rule Cons.IH [OF s1(2) exec_op_inv(1) [OF s1(1) Cons.prems(2)]])
       (use Cons.prems(4) in \<open>simp add: nested_in_def\<close>)
qed simp

lemma RevertToSnapshot_base:
  assumes "sdb_inv t" "revision_ok E r base t" "r \<in> fst ` set (validRevisions t)"
  shows "\<exists>u. RevertToSnapshot r t = Some u \<and> observe E u = observe E base \<and>
    journal u = journal base \<and> validRevisions u = validRevisions base"
proof -
  from assms(2,3) obtain es post u where t: "journal t = journal base @ es"
    "validRevisions t = validRevisions base @ (r, length (journal base)) # post"
    "undo_all es t = Some u" "sim E u base"
    by (auto simp: revision_ok_def)
  have "wf_revs t" using assms(1) by (simp add: sdb_inv_def)
  from RevertToSnapshot_valid [OF this t(2)] t have
    "RevertToSnapshot r t = Some (u\<lparr>journal := journal base, validRevisions := validRevisions base\<rparr>)"
    by simp
  moreover have "sim E (u\<lparr>journal := journal base, validRevisions := validRevisions base\<rparr>) base"
    using t(4) by simp
  ultimately show ?thesis by (auto simp: sim_def)
qed

lemma exec_op_revisions:
  assumes "exec_op E x s = Some t" "sdb_inv s"
    and "\<forall>r \<in> fst ` set (validRevisions s). \<exists>base. revision_ok E r base s"
  shows "\<forall>r \<in> fst ` set (validRevisions t). \<exists>base. revision_ok E r base t"
proof
  fix r assume r: "r \<in> fst ` set (validRevisions t)"
  show "\<exists>base. revision_ok E r base t"
  proof (cases "r \<in> fst ` set (validRevisions s)")
    case True
    with assms(3) exec_op_inv(2) [OF assms(1,2)] show ?thesis by blast
  next
    case False
    have "x = SnapshotOp"
    proof (rule ccontr)
      assume "x \<noteq> SnapshotOp"
      then consider "writes_only x" | q where "x = RevertOp q" by (cases x) auto
      then show False
      proof cases
        case 1
        have "extends E s t"
          by (rule extends_exec_op [OF _ 1 assms(1)])
             (use assms(2) in \<open>simp add: sdb_inv_def wf_cache_def\<close>)
        with r False show False by (simp add: extends_def)
      next
        case 2
        with assms(1) have rev: "RevertToSnapshot q s = Some t" by simp
        obtain pre n post u where "validRevisions s = pre @ (q, n) # post"
          "t = u\<lparr>journal := take n (journal s), validRevisions := pre\<rparr>"
          using rev assms(2) by (rule RevertToSnapshot_cases)
        with r False show False by auto
      qed
    qed
    with assms(1) r False have "t = snd (Snapshot s)" "r = fst (Snapshot s)"
      by (auto simp: Snapshot_def)
    with revision_ok_snapshot [OF assms(2)] show ?thesis by auto
  qed
qed

lemma exec_ops_revisions:
  assumes "exec_ops E xs s = Some t" "sdb_inv s"
    and "\<forall>r \<in> fst ` set (validRevisions s). \<exists>base. revision_ok E r base s"
  shows "\<forall>r \<in> fst ` set (validRevisions t). \<exists>base. revision_ok E r base t"
  using assms
proof (induction xs arbitrary: s)
  case (Cons x xs)
  then obtain s1 where s1: "exec_op E x s = Some s1" "exec_ops E xs s1 = Some t"
    by (auto simp: bind_eq_Some_conv)
  show ?case
    by (rule Cons.IH [OF s1(2) exec_op_inv(1) [OF s1(1) Cons.prems(2)]
          exec_op_revisions [OF s1(1) Cons.prems(2,3)]])
qed simp

lemma revert_own_snapshot:
  assumes "sdb_inv s" and "exec_ops E ops (snd (Snapshot s)) = Some t"
    and "nested_in (fst (Snapshot s)) ops"
  shows "\<exists>u. RevertToSnapshot (fst (Snapshot s)) t = Some u \<and> observe E u = observe E s \<and>
    journal u = journal s \<and> validRevisions u = validRevisions s"
proof -
  let ?r = "fst (Snapshot s)" and ?s = "snd (Snapshot s)"
  have inv: "sdb_inv ?s" using assms(1) by (rule Snapshot_sdb_inv)
  have valid: "?r \<in> fst ` set (validRevisions ?s)" by (simp add: Snapshot_def)
  show ?thesis
  proof (rule RevertToSnapshot_base)
    show "sdb_inv t" by (rule exec_ops_inv(1) [OF assms(2) inv])
    show "revision_ok E ?r s t"
      by (rule exec_ops_inv(2) [OF assms(2) inv revision_ok_snapshot [OF assms(1)]])
    show "?r \<in> fst ` set (validRevisions t)"
      by (rule exec_ops_keeps_revision [OF assms(2) inv valid assms(3)])
  qed
qed

section \<open>Properties\<close>


text \<open>
  C5. In every state that the operations reach from a fresh database,
  \<^verbatim>\<open>RevertToSnapshot\<close> panics exactly for the identifiers that are not on the stack of
  valid revisions: the binary search finds every valid one, and no undo record meets a
  missing object.
\<close>

theorem revert_panics_iff_invalid:
  assumes "exec_ops E ops (New tr) = Some s"
  shows "RevertToSnapshot r s = None \<longleftrightarrow> r \<notin> fst ` set (validRevisions s)"
proof -
  have ok: "\<forall>r \<in> fst ` set (validRevisions s). \<exists>base. revision_ok E r base s"
    by (rule exec_ops_revisions [OF assms sdb_inv_New]) (simp add: New_def)
  show ?thesis
  proof (cases "r \<in> fst ` set (validRevisions s)")
    case True
    with ok obtain base where "revision_ok E r base s" by blast
    from RevertToSnapshot_base [OF exec_ops_inv(1) [OF assms sdb_inv_New] this True] True
    show ?thesis by auto
  next
    case False
    with RevertToSnapshot_invalid [OF this] show ?thesis by simp
  qed
qed

section \<open>Witnesses\<close>


theorem revert_panics_iff_invalid_witness:
  "\<exists>s. exec_ops demo_env (SnapshotOp # demo_ops) (New empty_trie) = Some s \<and>
     RevertToSnapshot 1 s = None \<and> RevertToSnapshot 0 s \<noteq> None"
proof -
  obtain s where "exec_ops demo_env demo_ops (snd (Snapshot (New empty_trie))) = Some s"
    and s2: "map fst (validRevisions s) = [0]"
    using demo_ops_run by (auto split: option.splits)
  then have s1: "exec_ops demo_env (SnapshotOp # demo_ops) (New empty_trie) = Some s" by simp
  from s2 have "fst ` set (validRevisions s) = {0}" by (metis list.set(1,2) list.set_map)
  with s1 revert_panics_iff_invalid [OF s1] show ?thesis by fastforce
qed

end
