(* ===== verification/State_Finalise.thy ===== *)
theory State_Finalise
  imports State_Write State_Revert
begin

text \<open>
  What writing the cached accounts back to the tries does. The Go code walks maps in an
  unspecified order; the result is compared with a description that mentions no order.
\<close>

section \<open>The result without an order\<close>

definition flushed_content :: "storage \<Rightarrow> (hash \<Rightarrow> hash leaf option) \<Rightarrow> hash \<Rightarrow> hash leaf option" where
  "flushed_content d c k = (case d k of
     None \<Rightarrow> c k | Some v \<Rightarrow> if v = 0 then None else Some (Leaf v))"

definition flushed :: "sdb_env \<Rightarrow> stateObject \<Rightarrow> stateObject" where
  "flushed E obj =
     (let (t, obj1) = getTrie E obj;
          t1 = t\<lparr>content := flushed_content (dirtyStorage obj) (content t)\<rparr> in
      obj1\<lparr>dirtyStorage := Map.empty, strie := Some t1,
           data := (data obj1)\<lparr>Root := TrieHash E t1\<rparr>\<rparr>)"

definition doomed :: "sdb_env \<Rightarrow> bool \<Rightarrow> stateObject \<Rightarrow> bool" where
  "doomed E del obj \<longleftrightarrow> suicided obj \<or> del \<and> empty E obj"

definition final_obj :: "sdb_env \<Rightarrow> bool \<Rightarrow> stateObject \<Rightarrow> stateObject" where
  "final_obj E del obj = (if doomed E del obj then obj\<lparr>deleted := True\<rparr> else flushed E obj)"

definition final_leaf :: "sdb_env \<Rightarrow> bool \<Rightarrow> stateObject \<Rightarrow> account leaf option" where
  "final_leaf E del obj = (if doomed E del obj then None else Some (Leaf (data (flushed E obj))))"

definition finalised :: "sdb_env \<Rightarrow> bool \<Rightarrow> address set \<Rightarrow> stateDB \<Rightarrow> stateDB" where
  "finalised E del D s =
     s\<lparr>trie := (trie s)\<lparr>content := (\<lambda>a. if a \<in> D
          then (case stateObjects s a of Some obj \<Rightarrow> final_leaf E del obj
                | None \<Rightarrow> content (trie s) a)
          else content (trie s) a)\<rparr>,
       stateObjects := (\<lambda>a. if a \<in> D then map_option (final_obj E del) (stateObjects s a)
          else stateObjects s a)\<rparr>"

text \<open>
  What the run needs: the dirty objects are cached under their addresses, the ones
  written back have an encoding, and resolving their paths meets no database error.
\<close>

definition writable :: "sdb_env \<Rightarrow> bool \<Rightarrow> address set \<Rightarrow> stateDB \<Rightarrow> bool" where
  "writable E del D s \<longleftrightarrow>
     (\<forall>a \<in> D. fault (trie s) a = None \<and>
        (\<exists>obj. stateObjects s a = Some obj \<and> address obj = a \<and>
           (\<not> doomed E del obj \<longrightarrow> rlp_encodable (data obj)) \<and>
           (\<forall>k \<in> dom (dirtyStorage obj). fault (storage_trie_of E obj) k = None)))"

lemma writableD:
  assumes "writable E del D s" "a \<in> D" "stateObjects s a = Some x"
  shows "address x = a" "\<not> doomed E del x \<Longrightarrow> rlp_encodable (data x)"
    "\<forall>k \<in> dom (dirtyStorage x). fault (storage_trie_of E x) k = None" "fault (trie s) a = None"
  using bspec [OF assms(1) [unfolded writable_def] assms(2)] assms(3) by auto

lemma flushed_content_step:
  "k \<in> dom d \<Longrightarrow>
     flushed_content (d(k := None)) (c(k := flushed_content d c k)) = flushed_content d c"
  by (auto simp: flushed_content_def fun_eq_iff split: option.splits)

lemma obj_setError_None [simp]: "obj_setError None obj = obj"
  by (cases obj) (simp add: obj_setError_def)

text \<open>Flushing the keys in any order reaches the same trie.\<close>

lemma updateTrie_step_eq:
  assumes "dirtyStorage obj k = Some v" "strie obj = Some t" "fault t k = None"
  shows "updateTrie_step k obj =
    obj\<lparr>dirtyStorage := (dirtyStorage obj)(k := None),
        strie := Some (t\<lparr>content :=
          (content t)(k := flushed_content (dirtyStorage obj) (content t) k)\<rparr>)\<rparr>"
  using assms by (simp add: updateTrie_step_def TryDelete_def TryUpdate_def flushed_content_def)

lemma fold_updateTrie_step:
  assumes "distinct keys" "set keys = dom (dirtyStorage obj)" "strie obj = Some t"
    "\<forall>k \<in> set keys. fault t k = None"
  shows "fold updateTrie_step keys obj =
      obj\<lparr>dirtyStorage := Map.empty,
          strie := Some (t\<lparr>content := flushed_content (dirtyStorage obj) (content t)\<rparr>)\<rparr>"
  using assms
proof (induction keys arbitrary: obj t)
  case Nil
  then have "dirtyStorage obj = Map.empty" by auto
  with Nil show ?case
    by (cases obj) (simp add: flushed_content_def)
next
  case (Cons k ks)
  then obtain v where v: "dirtyStorage obj k = Some v" by (metis domD list.set_intros(1))
  let ?t = "t\<lparr>content := (content t)(k := flushed_content (dirtyStorage obj) (content t) k)\<rparr>"
  let ?obj = "obj\<lparr>dirtyStorage := (dirtyStorage obj)(k := None), strie := Some ?t\<rparr>"
  have "set ks = dom (dirtyStorage ?obj)" using Cons.prems by auto
  then have "fold updateTrie_step ks ?obj = ?obj\<lparr>dirtyStorage := Map.empty,
      strie := Some (?t\<lparr>content := flushed_content (dirtyStorage ?obj) (content ?t)\<rparr>)\<rparr>"
    using Cons.prems by (intro Cons.IH) auto
  with v Cons.prems show ?case
    by (simp add: updateTrie_step_eq flushed_content_step domIff)
qed

lemma updateRoot_flushed:
  assumes "distinct keys" "set keys = dom (dirtyStorage obj)"
    "\<forall>k \<in> dom (dirtyStorage obj). fault (storage_trie_of E obj) k = None"
  shows "updateRoot E keys obj = flushed E obj"
  using assms
  by (simp add: updateRoot_def updateTrie_def flushed_def split_def Let_def storage_trie_of_def
      fold_updateTrie_step [where t = "storage_trie_of E obj"])

lemma flushed_simps [simp]:
  "address (flushed E obj) = address obj" "Balance (data (flushed E obj)) = Balance (data obj)"
  "Nonce (data (flushed E obj)) = Nonce (data obj)"
  "CodeHash (data (flushed E obj)) = CodeHash (data obj)"
  "LastUpdatedHeight (data (flushed E obj)) = LastUpdatedHeight (data obj)"
  "WeightAtLastUpdatedHeight (data (flushed E obj)) = WeightAtLastUpdatedHeight (data obj)"
  "suicided (flushed E obj) = suicided obj" "deleted (flushed E obj) = deleted obj"
  "cachedStorage (flushed E obj) = cachedStorage obj" "dirtyStorage (flushed E obj) = Map.empty"
  "code (flushed E obj) = code obj" "onDirty (flushed E obj) = onDirty obj"
  by (simp_all add: flushed_def split_def Let_def)

section \<open>Finalising\<close>

lemma finalise_step_spec:
  assumes w: "writable E del {a} s"
    and k: "\<And>obj. stateObjects s a = Some obj \<Longrightarrow>
      distinct (keys a) \<and> set (keys a) = dom (dirtyStorage obj)"
  shows "finalise_step E del keys a s = Some (finalised E del {a} s)"
proof -
  obtain obj where obj: "stateObjects s a = Some obj" "address obj = a"
    and enc: "\<not> doomed E del obj \<Longrightarrow> rlp_encodable (data obj)"
    and f: "\<forall>k \<in> dom (dirtyStorage obj). fault (storage_trie_of E obj) k = None"
    and ft: "fault (trie s) a = None"
    using w by (auto simp: writable_def)
  have u: "updateRoot E (keys a) obj = flushed E obj"
    using k [OF obj(1)] f by (simp add: updateRoot_flushed)
  have upd: "(\<lambda>b. if b = a then v else h b) = h(a := v)" for h :: "address \<Rightarrow> 'b" and v
    by auto
  show ?thesis
  proof (cases "doomed E del obj")
    case True
    with obj ft show ?thesis
      by (auto simp: finalise_step_def doomed_def deleteStateObject_def TryDelete_def
          finalised_def final_obj_def final_leaf_def setStateObject_def Let_def fun_eq_iff)
  next
    case False
    with obj ft enc u show ?thesis
      by (auto simp: finalise_step_def doomed_def updateStateObject_def TryUpdate_def
          finalised_def final_obj_def final_leaf_def setStateObject_def Let_def fun_eq_iff
          rlp_encodable_def)
  qed
qed

lemma finalised_insert:
  "a \<notin> D \<Longrightarrow> finalised E del D (finalised E del {a} s) = finalised E del (insert a D) s"
  by (auto simp: finalised_def fun_eq_iff split: option.splits)

lemma finalise_loop_spec:
  assumes "distinct order" "writable E del (set order) s"
    "\<forall>a \<in> set order. \<forall>obj. stateObjects s a = Some obj \<longrightarrow>
      distinct (keys a) \<and> set (keys a) = dom (dirtyStorage obj)"
  shows "finalise_loop E del keys order s = Some (finalised E del (set order) s)"
  using assms
proof (induction order arbitrary: s)
  case Nil
  show ?case by (cases s) (simp add: finalised_def)
next
  case (Cons a as)
  have "finalise_step E del keys a s = Some (finalised E del {a} s)"
    using Cons.prems by (intro finalise_step_spec) (auto simp: writable_def)
  moreover have "writable E del (set as) (finalised E del {a} s)"
    using Cons.prems by (auto simp: writable_def finalised_def)
  ultimately show ?case
    using Cons.prems Cons.IH [of "finalised E del {a} s"]
    by (auto simp: finalised_insert) (auto simp: finalised_def)
qed

text \<open>
  C4. The outcome of \<^verbatim>\<open>Finalise\<close> does not depend on the order in which Go walks the
  dirty accounts and their dirty storage slots: for every order it succeeds with the same
  state. Every dirty account that is neither suicided nor (on request) empty is written to
  the account trie with the root of its flushed storage trie, every other dirty account
  is removed from the trie and marked deleted, all else stays, and the journal is cleared.
\<close>

theorem Finalise_ignores_order:
  assumes "orders_ok keys order s" "writable E del (stateObjectsDirty s) s"
  shows "Finalise E del keys order s =
    Some (clearJournalAndRefund (finalised E del (stateObjectsDirty s) s))"
  using assms finalise_loop_spec [of order E del s keys]
  by (simp add: Finalise_def orders_ok_def)

lemma demo_credit_orders:
  "orders_ok (\<lambda>_. []) [4] (AddBalance demo_env 4 10 (New empty_trie))"
  unfolding demo_credit by (simp add: orders_ok_def)

lemma demo_credit_writable:
  "writable demo_env True {4} (AddBalance demo_env 4 10 (New empty_trie))"
  unfolding demo_credit
  by (simp add: writable_def New_def empty_trie_def rlp_encodable_def zeroAccount_def)

theorem Finalise_ignores_order_witness:
  "Finalise demo_env True (\<lambda>_. []) [4] (AddBalance demo_env 4 10 (New empty_trie)) =
     Some (clearJournalAndRefund
       (finalised demo_env True {4} (AddBalance demo_env 4 10 (New empty_trie))))"
  using Finalise_ignores_order [OF demo_credit_orders, of demo_env True] demo_credit_writable
  by (simp add: demo_credit)

end
