(* ===== verification/State_Dirty.thy ===== *)
theory State_Dirty
  imports State_Finalise
begin

text \<open>
  Dirty tracking. \<^verbatim>\<open>Finalise\<close> writes back the objects in \<^verbatim>\<open>stateObjectsDirty\<close>
  only, and an object enters that set through its callback \<^verbatim>\<open>onDirty\<close>, which runs
  once. The invariant below says that every cached object outside the set is a
  faithful copy of its leaf in the account trie and still has its callback. It is what
  makes \<^verbatim>\<open>Finalise\<close> lose nothing. The parameter \<open>Z\<close> holds the objects that may be
  marked deleted, which an earlier \<^verbatim>\<open>Finalise\<close> leaves in the cache.
\<close>

section \<open>The invariant\<close>

text \<open>
  The two storage maps of an object agree: what the cache answers is what the slots
  waiting to be flushed, and below them the storage trie, answer.
\<close>

definition coherent :: "sdb_env \<Rightarrow> stateObject \<Rightarrow> bool" where
  "coherent E x \<longleftrightarrow>
     storage_view (cachedStorage x) (storage_trie_of E x) =
     storage_view (dirtyStorage x) (storage_trie_of E x)"

text \<open>The storage trie and the code of an object are the ones its account names.\<close>

definition pristine :: "sdb_env \<Rightarrow> stateObject \<Rightarrow> bool" where
  "pristine E x \<longleftrightarrow>
     storage_trie_of E x = storage_trie_of E (newObject (address x) (data x) True) \<and>
     code_view E (code x) (CodeHash (data x)) = code_view E None (CodeHash (data x))"

lemma coherent_cong:
  "strie x = strie y \<Longrightarrow> Root (data x) = Root (data y) \<Longrightarrow> cachedStorage x = cachedStorage y \<Longrightarrow>
   dirtyStorage x = dirtyStorage y \<Longrightarrow> coherent E x = coherent E y"
  using storage_trie_of_cong [of x y E] by (simp add: coherent_def)

lemma coherent_newObject [simp]: "coherent E (newObject a d c)"
  by (simp add: coherent_def)

lemma pristine_newObject [simp]: "pristine E (newObject a d c)"
  using storage_trie_of_cong [of "newObject a d c" "newObject a d True" E]
  by (simp add: pristine_def)

lemma coherent_update [simp]:
  "coherent E (x\<lparr>onDirty := b\<rparr>) = coherent E x" "coherent E (x\<lparr>touched := b\<rparr>) = coherent E x"
  "coherent E (x\<lparr>suicided := b\<rparr>) = coherent E x" "coherent E (x\<lparr>deleted := b\<rparr>) = coherent E x"
  "coherent E (x\<lparr>dirtyCode := b\<rparr>) = coherent E x" "coherent E (x\<lparr>code := c\<rparr>) = coherent E x"
  by (rule coherent_cong; simp)+

lemma coherent_data [simp]: "Root d = Root (data x) \<Longrightarrow> coherent E (x\<lparr>data := d\<rparr>) = coherent E x"
  by (rule coherent_cong) simp_all

lemma pristine_touched [simp]: "pristine E (x\<lparr>touched := b\<rparr>) = pristine E x"
  using storage_trie_of_cong [of "x\<lparr>touched := b\<rparr>" x E] by (simp add: pristine_def)

lemma coherent_clean:
  "coherent E x \<Longrightarrow> dirtyStorage x = Map.empty \<Longrightarrow>
     vStorage (view E x) = read_slot (storage_trie_of E x)"
  by (simp add: coherent_def view_eq) (simp add: storage_view_def fun_eq_iff)

lemma coherent_setState [simp]:
  "coherent E x \<Longrightarrow> coherent E (x\<lparr>cachedStorage := (cachedStorage x)(k \<mapsto> v),
     dirtyStorage := (dirtyStorage x)(k \<mapsto> v)\<rparr>)"
  by (simp add: coherent_def)

lemma coherent_GetState [simp]: "coherent E x \<Longrightarrow> coherent E (snd (obj_GetState E x k))"
  using cachedStorage_GetState [of E x k] storage_view_fill [of "cachedStorage x" k "storage_trie_of E x"]
  by (auto simp: coherent_def)

lemma coherent_Code [simp]: "coherent E (snd (obj_Code E x)) = coherent E x"
  by (rule coherent_cong) simp_all

lemma pristine_GetState [simp]: "pristine E x \<Longrightarrow> pristine E (snd (obj_GetState E x k))"
  by (simp add: pristine_def)

lemma pristine_Code [simp]: "pristine E x \<Longrightarrow> pristine E (snd (obj_Code E x))"
  using storage_trie_of_cong [of "snd (obj_Code E x)" x E]
  by (auto simp: pristine_def obj_Code_def code_view_def split: option.splits sum.splits)

definition clean_copy :: "sdb_env \<Rightarrow> stateDB \<Rightarrow> address \<Rightarrow> stateObject \<Rightarrow> bool" where
  "clean_copy E s a x \<longleftrightarrow>
     pristine E x \<and> onDirty x \<and> \<not> suicided x \<and> \<not> deleted x \<and> dirtyStorage x = Map.empty \<and>
     fault (trie s) a = None \<and> content (trie s) a = Some (Leaf (data x))"

text \<open>
  An account is created over nothing at most before it is reset: no
  \<^term>\<open>createObjectChange a\<close> follows a reset of the same address.
\<close>

fun fresh_creates :: "address set \<Rightarrow> journalEntry list \<Rightarrow> bool" where
  "fresh_creates R [] = True"
| "fresh_creates R (createObjectChange a # es) = (a \<notin> R \<and> fresh_creates R es)"
| "fresh_creates R (resetObjectChange p # es) = fresh_creates (insert (address p) R) es"
| "fresh_creates R (_ # es) = fresh_creates R es"

text \<open>A touch whose undo takes the account out of the dirty set.\<close>

fun undirties :: "journalEntry \<Rightarrow> bool" where
  "undirties (touchChange a prev prevDirty) = (\<not> prev \<and> a \<noteq> ripemd \<and> \<not> prevDirty)"
| "undirties _ = False"

definition tracked :: "sdb_env \<Rightarrow> stateObject set \<Rightarrow> journalEntry list \<Rightarrow> stateDB \<Rightarrow> bool" where
  "tracked E Z j s \<longleftrightarrow>
     stateObjectsDirty s \<subseteq> dom (stateObjects s) \<and>
     (\<forall>a x. stateObjects s a = Some x \<longrightarrow> a \<notin> stateObjectsDirty s \<longrightarrow> clean_copy E s a x) \<and>
     (\<forall>a x. stateObjects s a = Some x \<longrightarrow> deleted x \<longrightarrow> x \<in> Z) \<and>
     (\<forall>a x. stateObjects s a = Some x \<longrightarrow> coherent E x) \<and>
     (\<forall>p. resetObjectChange p \<in> set j \<longrightarrow> coherent E p \<and> address p \<in> stateObjectsDirty s \<and>
        (\<exists>x. stateObjects s (address p) = Some x \<and> \<not> deleted x)) \<and>
     fresh_creates {} j \<and> (\<forall>e \<in> set j. \<not> undirties e \<and> entry_ok e)"

text \<open>An entry that neither creates nor resets an object.\<close>

fun plain_entry :: "journalEntry \<Rightarrow> bool" where
  "plain_entry (createObjectChange a) = False"
| "plain_entry (resetObjectChange p) = False"
| "plain_entry e = (\<not> undirties e)"

lemma fresh_creates_snoc:
  "fresh_creates R (es @ [e]) \<longleftrightarrow> fresh_creates R es \<and>
     (\<forall>a. e = createObjectChange a \<longrightarrow>
        a \<notin> R \<and> (\<forall>p. resetObjectChange p \<in> set es \<longrightarrow> address p \<noteq> a))"
proof (induction R es rule: fresh_creates.induct)
  case (1 R)
  then show ?case by (cases e) auto
qed auto

lemma tracked_New: "tracked E Z [] (New tr)"
  by (simp add: tracked_def New_def)

lemma tracked_cong:
  "trie s = trie t \<Longrightarrow> stateObjects s = stateObjects t \<Longrightarrow>
     stateObjectsDirty s = stateObjectsDirty t \<Longrightarrow> tracked E Z j s = tracked E Z j t"
  by (simp add: tracked_def clean_copy_def)

lemma tracked_update [simp]:
  "tracked E Z j (s\<lparr>refund := r\<rparr>) = tracked E Z j s" "tracked E Z j (s\<lparr>logs := l\<rparr>) = tracked E Z j s"
  "tracked E Z j (s\<lparr>logSize := n\<rparr>) = tracked E Z j s" "tracked E Z j (s\<lparr>preimages := p\<rparr>) = tracked E Z j s"
  "tracked E Z j (s\<lparr>journal := j'\<rparr>) = tracked E Z j s" "tracked E Z j (s\<lparr>validRevisions := v\<rparr>) = tracked E Z j s"
  "tracked E Z j (s\<lparr>nextRevisionId := i\<rparr>) = tracked E Z j s"
  "tracked E Z j (s\<lparr>thash := h\<rparr>) = tracked E Z j s" "tracked E Z j (s\<lparr>bhash := h\<rparr>) = tracked E Z j s"
  "tracked E Z j (s\<lparr>bheight := b\<rparr>) = tracked E Z j s" "tracked E Z j (s\<lparr>txIndex := ti\<rparr>) = tracked E Z j s"
  "tracked E Z j (append_journal e s) = tracked E Z j s" "tracked E Z j (setError err s) = tracked E Z j s"
  by (rule tracked_cong; simp add: append_journal_def setError_def)+

lemma tracked_entry: "tracked E Z j s \<Longrightarrow> plain_entry e \<Longrightarrow> tracked E Z (j @ [e]) s"
  by (cases e) (auto simp: tracked_def fresh_creates_snoc)

lemma tracked_prefix: "tracked E Z (j @ es) s \<Longrightarrow> tracked E Z j s"
proof (induction es rule: rev_induct)
  case (snoc e es)
  then have "tracked E Z (j @ es) s"
    using fresh_creates_snoc [of "{}" "j @ es" e] by (simp add: tracked_def)
  then show ?case by (rule snoc.IH)
qed simp

lemma tracked_fire:
  assumes "tracked E Z j s" "\<not> deleted x" "onDirty x \<or> address x \<in> stateObjectsDirty s" "coherent E x"
  shows "tracked E Z j (fire x s)"
  using assms by (auto simp: tracked_def fire_def setStateObject_def MarkStateObjectDirty_def
      clean_copy_def)

lemma tracked_lookup:
  assumes "tracked E Z j s" "wf_objs s" "lookup a s = Some x"
  shows "onDirty x \<or> address x \<in> stateObjectsDirty s"
  using assms by (auto simp: tracked_def clean_copy_def lookup_eq stored_def wf_objs_def
      split: option.splits leaf.splits if_splits)

lemma tracked_coherent:
  assumes "tracked E Z j s" "lookup a s = Some x"
  shows "coherent E x"
  using assms by (auto simp: tracked_def lookup_eq stored_def
      split: option.splits leaf.splits if_splits)

lemma tracked_getStateObject [simp]: "tracked E Z j s \<Longrightarrow> tracked E Z j (snd (getStateObject a s))"
  by (auto simp: tracked_def getStateObject_def TryGet_def clean_copy_def setStateObject_def
      setError_def Let_def split: option.splits leaf.splits if_splits)

text \<open>Storing a live object that differs in caches only.\<close>

lemma tracked_put:
  assumes "tracked E Z j s" "wf_objs s" "lookup a s = Some x"
    "data y = data x" "onDirty y = onDirty x" "suicided y = suicided x" "deleted y = deleted x"
    "address y = address x" "dirtyStorage y = dirtyStorage x"
    "coherent E x \<Longrightarrow> coherent E y" "pristine E x \<Longrightarrow> pristine E y"
  shows "tracked E Z j (setStateObject y s)"
  using assms lookup_live [OF assms(2,3)] tracked_coherent [OF assms(1,3)]
  by (auto simp: tracked_def clean_copy_def setStateObject_def lookup_eq stored_def
      split: option.splits leaf.splits if_splits)

section \<open>Flushing a storage\<close>

lemma flushed_trie:
  "storage_trie_of E (flushed E x) = (storage_trie_of E x)\<lparr>content :=
     flushed_content (dirtyStorage x) (content (storage_trie_of E x))\<rparr>"
  "Root (data (flushed E x)) = TrieHash E (storage_trie_of E (flushed E x))"
  by (simp_all add: flushed_def storage_trie_of_def getTrie_def split_def Let_def)

lemma flushed_slots:
  assumes "\<forall>k \<in> dom (dirtyStorage x). fault (storage_trie_of E x) k = None"
  shows "read_slot (storage_trie_of E (flushed E x)) k =
    storage_view (dirtyStorage x) (storage_trie_of E x) k"
proof (cases "dirtyStorage x k")
  case None
  then show ?thesis by (simp add: flushed_trie read_slot_def flushed_content_def storage_view_def)
next
  case (Some v)
  with assms have "fault (storage_trie_of E x) k = None" by auto
  with Some show ?thesis
    by (simp add: flushed_trie read_slot_def flushed_content_def storage_view_def)
qed

lemma flushed_storage_view:
  assumes "\<forall>k \<in> dom (dirtyStorage x). fault (storage_trie_of E x) k = None" "coherent E x"
  shows "storage_view (cachedStorage x) (storage_trie_of E (flushed E x)) =
    storage_view (cachedStorage x) (storage_trie_of E x)"
proof
  fix k show "storage_view (cachedStorage x) (storage_trie_of E (flushed E x)) k =
      storage_view (cachedStorage x) (storage_trie_of E x) k"
    using flushed_slots [OF assms(1), of k] fun_cong [OF assms(2) [unfolded coherent_def], of k]
    by (cases "cachedStorage x k") (simp_all add: storage_view_def)
qed

lemma flushed_keeps:
  assumes "\<forall>k \<in> dom (dirtyStorage x). fault (storage_trie_of E x) k = None" "coherent E x"
  shows "view E (flushed E x) = view E x" "coherent E (flushed E x)"
    "read_slot (storage_trie_of E (flushed E x)) = vStorage (view E x)"
proof -
  note v = flushed_storage_view [OF assms]
  show "view E (flushed E x) = view E x" by (simp add: view_eq v)
  show r: "read_slot (storage_trie_of E (flushed E x)) = vStorage (view E x)"
    using assms(2) by (simp add: fun_eq_iff flushed_slots [OF assms(1)] view_eq coherent_def)
  show "coherent E (flushed E x)"
    unfolding coherent_def using v r by (simp add: view_eq storage_view_def fun_eq_iff)
qed

section \<open>Undoing keeps it\<close>

lemma undo_tracked:
  assumes "tracked E Z (j @ [e]) s" "wf_objs s" "undo e s = Some t"
  shows "tracked E Z j t"
proof -
  note tj = tracked_prefix [OF assms(1)]
  have put: "tracked E Z j (fire y (snd (getStateObject a s)))"
    if "lookup a s = Some x" "onDirty y = onDirty x" "deleted y = deleted x" "address y = address x"
      "coherent E x \<Longrightarrow> coherent E y" for a x y
    using that tracked_coherent [OF tj that(1)] tracked_lookup [OF tj assms(2) that(1)] lookup_live [OF assms(2) that(1)] tj
    by (intro tracked_fire) auto
  show ?thesis
  proof (cases e)
    case (createObjectChange a)
    with assms tj show ?thesis
      by (auto simp: tracked_def fresh_creates_snoc clean_copy_def split: if_splits)
  next
    case (resetObjectChange p)
    with assms tj show ?thesis
      by (auto simp: tracked_def setStateObject_def clean_copy_def split: if_splits)
  next
    case (touchChange a p d)
    then have "\<not> undirties e" using assms(1) by (auto simp: tracked_def)
    with touchChange assms tj show ?thesis
      by (auto split: option.splits if_splits intro!: tracked_put [where a = a])
  next
    case (suicideChange a p b)
    with assms put [of a] tj show ?thesis
      by (auto simp: setBalance_def split: option.splits)
  next
    case (balanceChange a p)
    with assms put [of a] show ?thesis by (auto simp: setBalance_def split: option.splits)
  next
    case (nonceChange a p)
    with assms put [of a] show ?thesis by (auto simp: setNonce_def split: option.splits)
  next
    case (storageChange a k p)
    with assms put [of a] show ?thesis by (auto simp: setState_def split: option.splits)
  next
    case (codeChange a c h)
    with assms put [of a] show ?thesis by (auto simp: setCode_def split: option.splits)
  next
    case (addLogChange h)
    with assms(3) tj show ?thesis by (auto simp: Let_def split: if_splits)
  next
    case (refundChange r)
    with assms(3) tj show ?thesis by auto
  next
    case (addPreimageChange h)
    with assms(3) tj show ?thesis by auto
  qed
qed

lemma undo_all_tracked:
  assumes "tracked E Z (j @ es) s" "wf_objs s" "undo_all es s = Some t"
  shows "tracked E Z j t \<and> wf_objs t"
  using assms
proof (induction es arbitrary: j t)
  case (Cons e es)
  from Cons.prems(3) obtain u where u: "undo_all es s = Some u" "undo e u = Some t"
    by (rule undo_all_Cons)
  have "tracked E Z (j @ [e]) u \<and> wf_objs u" using Cons.IH [of "j @ [e]" u] Cons.prems u by simp
  moreover have "entry_ok e" using Cons.prems(1) by (simp add: tracked_def)
  ultimately show ?case using u undo_tracked undo_wf_objs by blast
qed simp

section \<open>Operations keep it\<close>

definition dirty_inv :: "sdb_env \<Rightarrow> stateObject set \<Rightarrow> stateDB \<Rightarrow> bool" where
  "dirty_inv E Z s \<longleftrightarrow> wf_objs s \<and> tracked E Z (journal s) s"

lemma dirty_inv_fire:
  assumes "dirty_inv E Z s" "lookup a s = Some x" "onDirty y = onDirty x" "deleted y = deleted x"
    "address y = address x" "coherent E x \<Longrightarrow> coherent E y"
  shows "dirty_inv E Z (fire y s)"
  using assms tracked_coherent [of E Z "journal s" s a x] tracked_lookup [of E Z "journal s" s a x] lookup_live [of s a x]
  by (auto simp: dirty_inv_def intro: tracked_fire wf_objs_fire)

lemma dirty_inv_append: "dirty_inv E Z s \<Longrightarrow> plain_entry e \<Longrightarrow> dirty_inv E Z (append_journal e s)"
  by (simp add: dirty_inv_def tracked_entry append_journal_def)

lemma dirty_inv_getStateObject [simp]: "dirty_inv E Z s \<Longrightarrow> dirty_inv E Z (snd (getStateObject a s))"
  by (simp add: dirty_inv_def)

lemma dirty_inv_put:
  assumes "dirty_inv E Z s" "lookup a s = Some x"
    "data y = data x" "onDirty y = onDirty x" "suicided y = suicided x" "deleted y = deleted x"
    "address y = address x" "dirtyStorage y = dirtyStorage x"
    "coherent E x \<Longrightarrow> coherent E y" "pristine E x \<Longrightarrow> pristine E y"
  shows "dirty_inv E Z (setStateObject y s)"
  using assms tracked_put [of E Z "journal s" s a x y] lookup_live [of s a x]
  by (simp add: dirty_inv_def wf_objs_setStateObject)

lemma dirty_inv_update [simp]:
  "dirty_inv E Z (s\<lparr>refund := r\<rparr>) = dirty_inv E Z s" "dirty_inv E Z (s\<lparr>logs := l\<rparr>) = dirty_inv E Z s"
  "dirty_inv E Z (s\<lparr>logSize := n\<rparr>) = dirty_inv E Z s" "dirty_inv E Z (s\<lparr>preimages := p\<rparr>) = dirty_inv E Z s"
  "dirty_inv E Z (s\<lparr>validRevisions := v\<rparr>) = dirty_inv E Z s"
  "dirty_inv E Z (s\<lparr>nextRevisionId := i\<rparr>) = dirty_inv E Z s"
  "dirty_inv E Z (s\<lparr>thash := h\<rparr>) = dirty_inv E Z s" "dirty_inv E Z (s\<lparr>bhash := h\<rparr>) = dirty_inv E Z s"
  "dirty_inv E Z (s\<lparr>bheight := b\<rparr>) = dirty_inv E Z s" "dirty_inv E Z (s\<lparr>txIndex := ti\<rparr>) = dirty_inv E Z s"
  by (simp_all add: dirty_inv_def)

lemma setStateObject_append:
  "setStateObject x (append_journal e s) = append_journal e (setStateObject x s)"
  by (simp add: setStateObject_def append_journal_def)

lemma dirty_inv_createObject:
  assumes "dirty_inv E Z s"
  shows "dirty_inv E Z (snd (createObject E a s))"
proof -
  let ?s = "snd (getStateObject a s)"
  let ?e = "case lookup a s of None \<Rightarrow> createObjectChange a | Some p \<Rightarrow> resetObjectChange p"
  have t: "tracked E Z (journal s) ?s" "wf_objs ?s" "wf_objs s"
    using assms by (simp_all add: dirty_inv_def)
  have live: "resetObjectChange p \<notin> set (journal s)" if "lookup (address p) s = None" for p
    using that assms by (auto simp: dirty_inv_def tracked_def lookup_eq split: if_splits)
  have "tracked E Z (journal s @ [?e])
      (setStateObject (newObject a (zeroAccount E) False) (MarkStateObjectDirty a ?s))"
    using t(1) live lookup_live [OF t(3), of a] tracked_coherent [OF t(1), of a]
    by (auto simp: tracked_def fresh_creates_snoc clean_copy_def MarkStateObjectDirty_def
        setStateObject_def split: option.splits)
  then show ?thesis
    using t(2) by (simp add: createObject_eq dirty_inv_def setStateObject_append wf_objs_setStateObject
        MarkStateObjectDirty_def)
qed

lemma dirty_inv_GetOrNew:
  assumes "dirty_inv E Z s" "GetOrNewStateObject E a s = (x, t)"
  shows "dirty_inv E Z t" and "lookup a t = Some x"
proof -
  have wf: "wf_objs s" using assms(1) by (simp add: dirty_inv_def)
  show "lookup a t = Some x" using extends_GetOrNew(2) [OF wf assms(2)] .
  have "t = (case lookup a s of None \<Rightarrow> snd (createObject E a (snd (getStateObject a s)))
      | Some y \<Rightarrow> snd (getStateObject a s))"
    using assms(2) lookup_live [OF wf, of a]
    by (auto simp: GetOrNewStateObject_def split: option.splits prod.splits)
  with assms(1) show "dirty_inv E Z t"
    by (auto split: option.splits intro: dirty_inv_createObject)
qed

text \<open>Operations on a live object, as the methods of the database call them.\<close>

lemma dirty_inv_object_writes:
  assumes "dirty_inv E Z s" "lookup a s = Some x"
  shows "dirty_inv E Z (obj_SetBalance x v s)" "dirty_inv E Z (obj_SetNonce x n s)"
    "dirty_inv E Z (obj_SetState E x k w s)" "dirty_inv E Z (obj_SetCode E x h c s)"
    "dirty_inv E Z (obj_SubBalance x v s)" "v \<noteq> 0 \<Longrightarrow> dirty_inv E Z (obj_AddBalance E x v s)"
    "\<not> onDirty x \<Longrightarrow> dirty_inv E Z (obj_AddBalance E x v s)"
proof -
  have fire: "dirty_inv E Z (fire y (append_journal e s))"
    if "plain_entry e" "onDirty y = onDirty x" "deleted y = deleted x" "address y = address x"
      "coherent E x \<Longrightarrow> coherent E y" for e y
    using assms that by (intro dirty_inv_fire [where a = a and x = x] dirty_inv_append) simp_all
  show SB: "dirty_inv E Z (obj_SetBalance x v s)" for v
    unfolding obj_SetBalance_def setBalance_def by (rule fire) simp_all
  show "dirty_inv E Z (obj_SetNonce x n s)"
    unfolding obj_SetNonce_def setNonce_def by (rule fire) simp_all
  show "dirty_inv E Z (obj_SetState E x k w s)"
    unfolding obj_SetState_def setState_def split_def Let_def
    by (rule fire) (use coherent_setState [of E "snd (obj_GetState E x k)" k w] in simp_all)
  show "dirty_inv E Z (obj_SetCode E x h c s)"
    unfolding obj_SetCode_def setCode_def split_def Let_def by (rule fire) simp_all
  show "dirty_inv E Z (obj_SubBalance x v s)"
    using SB assms by (simp add: obj_SubBalance_def)
  show "v \<noteq> 0 \<Longrightarrow> dirty_inv E Z (obj_AddBalance E x v s)"
    using SB by (simp add: obj_AddBalance_def)
  have "\<not> onDirty x \<Longrightarrow> dirty_inv E Z (touch x s)"
    unfolding touch_def by (rule fire) simp_all
  then show "\<not> onDirty x \<Longrightarrow> dirty_inv E Z (obj_AddBalance E x v s)"
    using SB assms by (simp add: obj_AddBalance_def)
qed

lemma dirty_inv_setWeight:
  assumes "dirty_inv E Z s" "lookup a s = Some x" "setWeight x w h s = Some t"
  shows "dirty_inv E Z t" and "\<exists>y. lookup a t = Some y \<and> \<not> onDirty y"
proof -
  obtain b where t: "t = fire (x\<lparr>data := (data x)\<lparr>WeightAtLastUpdatedHeight := w,
      LastUpdatedHeight := b\<rparr>\<rparr>) s"
    using assms(3) by (cases h) (auto simp: setWeight_def)
  show "dirty_inv E Z t"
    unfolding t by (rule dirty_inv_fire [OF assms(1,2)]) simp_all
  have "wf_objs s" using assms(1) by (simp add: dirty_inv_def)
  then show "\<exists>y. lookup a t = Some y \<and> \<not> onDirty y"
    using lookup_live [OF _ assms(2)] by (simp add: t lookup_fire)
qed

lemma dirty_inv_balance_ops:
  assumes "dirty_inv E Z s"
  shows "v \<noteq> 0 \<Longrightarrow> dirty_inv E Z (AddBalance E a v s)" "dirty_inv E Z (SubBalance E a v s)"
    "dirty_inv E Z (SetBalance E a v s)" "dirty_inv E Z (SetNonce E a n s)" "dirty_inv E Z (SetCode E a c s)"
    "dirty_inv E Z (SetState E a k w s)"
proof -
  obtain x t where g: "GetOrNewStateObject E a s = (x, t)" by (metis prod.exhaust)
  note dirty_inv_GetOrNew [OF assms g]
  note object_writes = dirty_inv_object_writes [OF this]
  show "v \<noteq> 0 \<Longrightarrow> dirty_inv E Z (AddBalance E a v s)" "dirty_inv E Z (SubBalance E a v s)"
    "dirty_inv E Z (SetBalance E a v s)" "dirty_inv E Z (SetNonce E a n s)" "dirty_inv E Z (SetCode E a c s)"
    "dirty_inv E Z (SetState E a k w s)"
    by (simp_all add: AddBalance_def SubBalance_def SetBalance_def SetNonce_def SetCode_def
        SetState_def g object_writes)
qed

lemma GetOrNew_live:
  "wf_objs s \<Longrightarrow> lookup a s = Some x \<Longrightarrow>
     GetOrNewStateObject E a s = (x, snd (getStateObject a s))"
  by (simp add: GetOrNewStateObject_def lookup_live)

lemma dirty_inv_AddBalanceAndWeight:
  assumes "dirty_inv E Z s" "AddBalanceAndWeight E a v s = Some t"
  shows "dirty_inv E Z t"
proof -
  obtain x u where g: "GetOrNewStateObject E a s = (x, u)" by (metis prod.exhaust)
  note u = dirty_inv_GetOrNew [OF assms(1) g]
  obtain w where w: "addWeight E a v s = Some w" "t = AddBalance E a v w"
    using assms(2) by (auto simp: AddBalanceAndWeight_def bind_eq_Some_conv)
  then obtain q where q: "setWeight x q (bheight u) u = Some w"
    by (auto simp: addWeight_def g obj_AddWeight_def bind_eq_Some_conv)
  obtain y where y: "lookup a w = Some y" "\<not> onDirty y"
    using dirty_inv_setWeight(2) [OF u q] by auto
  have dw: "dirty_inv E Z w" using dirty_inv_setWeight(1) [OF u q] .
  then have wf: "wf_objs w" by (simp add: dirty_inv_def)
  have "dirty_inv E Z (obj_AddBalance E y v (snd (getStateObject a w)))"
    by (rule dirty_inv_object_writes(7) [where a = a]) (use y dw in simp_all)
  then show ?thesis using w(2) GetOrNew_live [OF wf y(1)] by (simp add: AddBalance_def)
qed

lemma dirty_inv_SubBalanceAndWeight:
  assumes "dirty_inv E Z s" "SubBalanceAndWeight E a v s = Some t"
  shows "dirty_inv E Z t"
proof -
  obtain x u where g: "GetOrNewStateObject E a s = (x, u)" by (metis prod.exhaust)
  note u = dirty_inv_GetOrNew [OF assms(1) g]
  obtain w where w: "subWeight E a v s = Some w" "t = SubBalance E a v w"
    using assms(2) by (auto simp: SubBalanceAndWeight_def bind_eq_Some_conv)
  then obtain q where q: "setWeight x q (bheight u) u = Some w"
    by (auto simp: subWeight_def g obj_SubWeight_def Let_def bind_eq_Some_conv)
  show ?thesis
    unfolding w(2) by (rule dirty_inv_balance_ops(2)) (rule dirty_inv_setWeight(1) [OF u q])
qed

lemma dirty_inv_ClearWeight:
  assumes "dirty_inv E Z s" "ClearWeight a s = Some t"
  shows "dirty_inv E Z t"
proof (cases "lookup a s")
  case None
  then have "t = snd (getStateObject a s)" using assms(2) by (simp add: ClearWeight_def)
  then show ?thesis using assms(1) by simp
next
  case (Some y)
  have w: "setWeight y 0 (bheight s) (snd (getStateObject a s)) = Some t"
    using assms(2) Some by (simp add: ClearWeight_def)
  show ?thesis
    by (rule dirty_inv_setWeight(1) [OF _ _ w, where a = a]) (simp_all add: assms(1) Some)
qed

lemma dirty_inv_Suicide:
  assumes "dirty_inv E Z s"
  shows "dirty_inv E Z (snd (Suicide a s))"
proof (cases "lookup a s")
  case None
  then show ?thesis using assms by (simp add: Suicide_def)
next
  case (Some x)
  let ?e = "suicideChange a (suicided x) (Balance (data x))"
  let ?s = "append_journal ?e (snd (getStateObject a s))"
  have "dirty_inv E Z ?s" by (rule dirty_inv_append) (simp_all add: assms)
  moreover have "lookup a ?s = Some x" using Some by simp
  ultimately have "dirty_inv E Z (markSuicided (x\<lparr>data := (data x)\<lparr>Balance := 0\<rparr>\<rparr>) ?s)"
    unfolding markSuicided_def by (rule dirty_inv_fire) simp_all
  then show ?thesis using Some by (simp add: Suicide_def Let_def)
qed

lemma dirty_inv_CreateAccount:
  assumes "dirty_inv E Z s" "CreateAccount E a s = Some t"
  shows "dirty_inv E Z t"
proof -
  let ?x = "newObject a (zeroAccount E) False"
  define u where "u = snd (createObject E a s)"
  have u: "dirty_inv E Z u" "lookup a u = Some ?x"
    using assms(1) by (simp add: u_def dirty_inv_createObject)
      (simp add: u_def createObject_eq lookup_setStateObject)
  have c: "createObject E a s = ((?x, lookup a s), u)"
    by (simp add: u_def createObject_eq)
  show ?thesis
  proof (cases "lookup a s")
    case None
    with assms(2) c u(1) show ?thesis by (simp add: CreateAccount_def)
  next
    case (Some p)
    with assms(2) c obtain w y where w: "setWeight ?x 0 (bheight u) u = Some w"
      and y: "stateObjects w a = Some y" and t: "t = setBalance y (Balance (data p)) w"
      by (auto simp: CreateAccount_def bind_eq_Some_conv)
    obtain z where "lookup a w = Some z" using dirty_inv_setWeight(2) [OF u w] by auto
    with y have "lookup a w = Some y" by (simp add: lookup_eq split: if_splits)
    then show ?thesis
      unfolding t setBalance_def
      by (intro dirty_inv_fire [where a = a and x = y] dirty_inv_setWeight(1) [OF u w]) simp_all
  qed
qed

lemma dirty_inv_reads:
  assumes "dirty_inv E Z s"
  shows "dirty_inv E Z (snd (GetCode E a s))" "dirty_inv E Z (snd (GetState E a k s))"
    "dirty_inv E Z (snd (GetCodeSize E a s))"
proof -
  have "dirty_inv E Z (setError e s1) = dirty_inv E Z s1" for e s1 by (simp add: dirty_inv_def)
  then show "dirty_inv E Z (snd (GetCodeSize E a s))"
    using assms by (cases rule: GetCodeSize_state [of E a s]) simp_all
  have "dirty_inv E Z (setStateObject y (snd (getStateObject a s)))"
    if "lookup a s = Some x" "data y = data x" "onDirty y = onDirty x" "suicided y = suicided x"
      "deleted y = deleted x" "address y = address x" "dirtyStorage y = dirtyStorage x"
      "coherent E x \<Longrightarrow> coherent E y" "pristine E x \<Longrightarrow> pristine E y" for x y
    by (rule dirty_inv_put [where a = a and x = x]) (use assms that in simp_all)
  then show "dirty_inv E Z (snd (GetCode E a s))" "dirty_inv E Z (snd (GetState E a k s))"
    using assms by (auto simp: GetCode_def GetState_def split_def split: option.splits)
qed

lemma dirty_inv_counters:
  assumes "dirty_inv E Z s"
  shows "dirty_inv E Z (AddLog l s)" "dirty_inv E Z (AddPreimage h p s)" "dirty_inv E Z (AddRefund g s)"
    "dirty_inv E Z (Prepare th bh n i s)" "dirty_inv E Z (snd (Snapshot s))"
  using assms
  by (simp_all add: AddLog_def Let_def AddPreimage_def AddRefund_def Prepare_def Snapshot_def
      dirty_inv_append split: option.splits)

lemma dirty_inv_Revert:
  assumes "dirty_inv E Z s" "sdb_inv s" "RevertToSnapshot q s = Some t"
  shows "dirty_inv E Z t"
proof -
  obtain pre n post u where u: "undo_all (drop n (journal s)) s = Some u"
    and t: "t = u\<lparr>journal := take n (journal s), validRevisions := pre\<rparr>"
    using RevertToSnapshot_cases [OF assms(3,2)] by metis
  have "tracked E Z (take n (journal s)) u \<and> wf_objs u"
    by (rule undo_all_tracked [OF _ _ u]) (use assms(1) in \<open>simp_all add: dirty_inv_def\<close>)
  then show ?thesis by (simp add: t dirty_inv_def)
qed

section \<open>Runs\<close>

text \<open>
  The one operation that breaks the tracking: \<^verbatim>\<open>AddBalance\<close> of zero touches an empty
  account, and undoing the touch takes the account out of the dirty set although its
  callback is gone. (\<^verbatim>\<open>AddBalanceAndWeight\<close> of zero is harmless: it updates the
  weight first, which runs the callback.)
\<close>

fun touches :: "sdb_op \<Rightarrow> bool" where
  "touches (AddBalanceOp a v) = (v = 0)"
| "touches _ = False"

lemma exec_op_dirty_inv:
  assumes "dirty_inv E Z s" "sdb_inv s" "\<not> touches x" "exec_op E x s = Some t"
  shows "dirty_inv E Z t"
  using assms
  by (cases x)
     (auto intro: dirty_inv_balance_ops dirty_inv_AddBalanceAndWeight dirty_inv_SubBalanceAndWeight
       dirty_inv_ClearWeight dirty_inv_Suicide dirty_inv_CreateAccount dirty_inv_reads
       dirty_inv_counters dirty_inv_Revert)

lemma exec_ops_dirty_inv:
  assumes "dirty_inv E Z s" "sdb_inv s" "\<forall>x \<in> set xs. \<not> touches x" "exec_ops E xs s = Some t"
  shows "dirty_inv E Z t \<and> sdb_inv t"
  using assms
proof (induction xs arbitrary: s)
  case (Cons x xs)
  then obtain u where u: "exec_op E x s = Some u" "exec_ops E xs u = Some t"
    by (auto simp: bind_eq_Some_conv)
  then have "dirty_inv E Z u" "sdb_inv u"
    using Cons.prems exec_op_dirty_inv [of E Z s x u] exec_op_inv(1) [of E x s u] by auto
  with Cons.IH [of u] Cons.prems u show ?case by simp
qed simp

section \<open>Nothing is lost\<close>

lemma dirty_inv_New: "dirty_inv E Z (New tr)"
  using tracked_New [of E Z tr] by (simp add: dirty_inv_def wf_objs_def New_def)

lemma lookup_New: "lookup a (New tr) = stored tr a"
  by (simp add: lookup_eq New_def)

lemma trie_clear [simp]: "trie (clearJournalAndRefund s) = trie s"
  by (simp add: clearJournalAndRefund_def)

lemma lookup_clear [simp]: "lookup a (clearJournalAndRefund s) = lookup a s"
  by (simp add: clearJournalAndRefund_def)

lemma data_stored: "map_option data (stored tr a) =
  (if fault tr a = None then (case content tr a of Some (Leaf d) \<Rightarrow> Some d | _ \<Rightarrow> None) else None)"
  by (simp add: stored_def split: option.splits leaf.splits)

lemma finalised_in_sync:
  assumes "dirty_inv E (Collect (doomed E del)) s" "writable E del (stateObjectsDirty s) s"
  shows "map_option data (stored (trie (finalised E del (stateObjectsDirty s) s)) a) =
    map_option data (lookup a (finalised E del (stateObjectsDirty s) s))"
proof (cases "a \<in> stateObjectsDirty s")
  case True
  with assms(2) obtain x where "stateObjects s a = Some x" "fault (trie s) a = None"
    by (auto simp: writable_def)
  with True assms(1) show ?thesis
    by (auto simp: dirty_inv_def tracked_def data_stored lookup_eq finalised_def final_leaf_def final_obj_def)
next
  case False
  with assms(1) show ?thesis
    by (auto simp: data_stored lookup_eq finalised_def dirty_inv_def tracked_def clean_copy_def
        split: option.splits)
      (auto simp: stored_def split: option.splits leaf.splits)
qed

lemma finalised_fields [simp]:
  "stateObjectsDirty (finalised E del D s) = stateObjectsDirty s"
  "journal (finalised E del D s) = journal s"
  "fault (trie (finalised E del D s)) = fault (trie s)"
  by (simp_all add: finalised_def)

lemma finalised_at:
  assumes "stateObjects (finalised E del D s) a = Some y"
  obtains "a \<notin> D" "stateObjects s a = Some y" "content (trie (finalised E del D s)) a = content (trie s) a"
  | x where "a \<in> D" "stateObjects s a = Some x" "y = final_obj E del x"
      "content (trie (finalised E del D s)) a = final_leaf E del x"
  using assms by (cases "a \<in> D") (auto simp: finalised_def)

lemma final_obj_deleted:
  "deleted (final_obj E del x) \<Longrightarrow> (deleted x \<Longrightarrow> doomed E del x) \<Longrightarrow>
     doomed E del x \<and> doomed E del (final_obj E del x)"
  by (auto simp: final_obj_def doomed_def empty_def split: if_splits)

lemma Finalise_dirty_inv:
  assumes "dirty_inv E (Collect (doomed E del)) s" "writable E del (stateObjectsDirty s) s"
  shows "dirty_inv E (Collect (doomed E del)) (clearJournalAndRefund (finalised E del (stateObjectsDirty s) s))"
proof -
  let ?Z = "Collect (doomed E del)" and ?D = "stateObjectsDirty s"
  let ?t = "finalised E del ?D s"
  have clean: "clean_copy E s a x" if "stateObjects s a = Some x" "a \<notin> ?D" for a x
    using assms(1) that by (auto simp: dirty_inv_def tracked_def)
  have zombie: "doomed E del x" if "stateObjects s a = Some x" "deleted x" for a x
    using assms(1) that by (auto simp: dirty_inv_def tracked_def)
  have dom: "?D \<subseteq> dom (stateObjects ?t)"
    using assms(1) by (auto simp: dirty_inv_def tracked_def finalised_def)
  have 1: "clean_copy E ?t a y" if "stateObjects ?t a = Some y" "a \<notin> ?D" for a y
    using that(1) by (rule finalised_at) (use that(2) clean in \<open>auto simp: clean_copy_def\<close>)
  have 2: "doomed E del y \<and> fault (trie s) a = None \<and> content (trie ?t) a = None"
    if "stateObjects ?t a = Some y" "deleted y" for a y
    using that(1)
  proof (rule finalised_at)
    assume "a \<notin> ?D" "stateObjects s a = Some y"
    with clean [of a y] that(2) show ?thesis by (simp add: clean_copy_def)
  next
    fix x assume x: "a \<in> ?D" "stateObjects s a = Some x" "y = final_obj E del x"
      "content (trie ?t) a = final_leaf E del x"
    have "doomed E del x \<and> doomed E del y"
      using final_obj_deleted [of E del x] that(2) zombie [OF x(2)] x(3) by simp
    moreover have "fault (trie s) a = None" using assms(2) x(1) by (simp add: writable_def)
    ultimately show ?thesis using x(4) by (simp add: final_leaf_def)
  qed
  have 3: "address y = a" if "stateObjects ?t a = Some y" for a y
    using that
  proof (rule finalised_at)
    assume "stateObjects s a = Some y"
    with assms(1) show ?thesis by (simp add: dirty_inv_def wf_objs_def)
  next
    fix x assume "stateObjects s a = Some x" "y = final_obj E del x"
    with assms(1) show ?thesis by (simp add: dirty_inv_def wf_objs_def final_obj_def)
  qed
  have 4: "coherent E y" if "stateObjects ?t a = Some y" for a y
    using that
  proof (rule finalised_at)
    assume "stateObjects s a = Some y"
    with assms(1) show ?thesis by (auto simp: dirty_inv_def tracked_def)
  next
    fix x assume x: "a \<in> ?D" "stateObjects s a = Some x" "y = final_obj E del x"
    have "coherent E x" using assms(1) x(2) by (auto simp: dirty_inv_def tracked_def)
    with x(3) flushed_keeps(2) [OF writableD(3) [OF assms(2) x(1,2)]] show ?thesis
      by (simp add: final_obj_def)
  qed
  have "tracked E ?Z [] ?t" unfolding tracked_def using dom 1 2 4 by simp
  moreover have "wf_objs ?t" unfolding wf_objs_def using 2 3 by simp
  ultimately show ?thesis
    by (simp add: dirty_inv_def clearJournalAndRefund_def)
qed

lemma Finalise_sdb_inv:
  assumes "dirty_inv E Z (clearJournalAndRefund s)"
  shows "sdb_inv (clearJournalAndRefund s)"
  using assms by (simp add: dirty_inv_def sdb_inv_def wf_cache_def wf_revs_def clearJournalAndRefund_def)

text \<open>
  The states of a database that is opened on a trie and then runs transactions: any
  sequence of operations that does not touch an account with zero, with \<^verbatim>\<open>Finalise\<close>
  in any order at any point where no database error is met.
\<close>

inductive reachable :: "sdb_env \<Rightarrow> bool \<Rightarrow> (address, account) atrie \<Rightarrow> stateDB \<Rightarrow> bool"
  for E del tr where
  reachable_New: "reachable E del tr (New tr)"
| reachable_op: "reachable E del tr s \<Longrightarrow> \<not> touches x \<Longrightarrow> exec_op E x s = Some t \<Longrightarrow>
    reachable E del tr t"
| reachable_Finalise: "reachable E del tr s \<Longrightarrow> orders_ok keys order s \<Longrightarrow>
    writable E del (stateObjectsDirty s) s \<Longrightarrow> Finalise E del keys order s = Some t \<Longrightarrow>
    reachable E del tr t"

lemma reachable_inv:
  "reachable E del tr s \<Longrightarrow> dirty_inv E (Collect (doomed E del)) s \<and> sdb_inv s"
proof (induction rule: reachable.induct)
  case reachable_New
  then show ?case by (simp add: dirty_inv_New sdb_inv_New)
next
  case (reachable_op s x t)
  then show ?case using exec_op_dirty_inv exec_op_inv(1) by blast
next
  case (reachable_Finalise s keys order t)
  then have "t = clearJournalAndRefund (finalised E del (stateObjectsDirty s) s)"
    by (simp add: finalise_loop_spec Finalise_def orders_ok_def)
  with reachable_Finalise Finalise_dirty_inv Finalise_sdb_inv show ?case by blast
qed

text \<open>What one account looks like before and after a \<^verbatim>\<open>Finalise\<close> that does not remove it.\<close>

lemma finalised_account:
  assumes "dirty_inv E (Collect (doomed E del)) s" "writable E del (stateObjectsDirty s) s"
    "lookup a s = Some x" "a \<in> stateObjectsDirty s \<Longrightarrow> \<not> doomed E del x"
  shows "\<exists>y. lookup a (finalised E del (stateObjectsDirty s) s) = Some y \<and> view E y = view E x \<and>
    dirtyStorage y = Map.empty \<and> read_slot (storage_trie_of E y) = vStorage (view E x) \<and>
    (if a \<in> stateObjectsDirty s then Root (data y) = TrieHash E (storage_trie_of E y)
     else storage_trie_of E y = storage_trie_of E (newObject a (data y) True))"
proof (cases "a \<in> stateObjectsDirty s")
  case True
  with assms(2) have x: "stateObjects s a = Some x" "\<not> deleted x"
    using assms(3) by (auto simp: writable_def lookup_eq split: if_splits)
  have "coherent E x"
    using assms(1,3) tracked_coherent by (auto simp: dirty_inv_def)
  with flushed_keeps [OF writableD(3) [OF assms(2) True x(1)]] True x assms(4)
  show ?thesis
    by (intro exI [of _ "flushed E x"]) (simp add: lookup_eq finalised_def final_obj_def flushed_trie(2))
next
  case False
  have "coherent E x \<and> pristine E x \<and> address x = a \<and> dirtyStorage x = Map.empty"
    using assms(1,3) False tracked_coherent [of E _ "journal s" s a x]
    by (auto simp: dirty_inv_def tracked_def clean_copy_def wf_objs_def lookup_eq stored_def
        split: option.splits leaf.splits if_splits)
  moreover have "lookup a (finalised E del (stateObjectsDirty s) s) = Some x"
    using assms(3) False
    by (auto simp: lookup_eq finalised_def stored_def split: option.splits if_splits)
  ultimately show ?thesis
    using False coherent_clean [of E x] by (intro exI [of _ x]) (simp add: pristine_def)
qed

lemma finalised_gone:
  assumes "dirty_inv E (Collect (doomed E del)) s"
    "\<forall>x. lookup a s = Some x \<longrightarrow> a \<in> stateObjectsDirty s \<and> doomed E del x"
  shows "lookup a (finalised E del (stateObjectsDirty s) s) = None"
proof (cases "stateObjects s a")
  case None
  then have "a \<notin> stateObjectsDirty s" using assms(1) by (auto simp: dirty_inv_def tracked_def)
  with None assms(2) show ?thesis
    by (auto simp: lookup_eq finalised_def stored_def split: if_splits)
next
  case (Some x)
  have "a \<in> stateObjectsDirty s \<and> doomed E del x"
  proof (cases "deleted x")
    case True
    with Some assms(1) show ?thesis by (auto simp: dirty_inv_def tracked_def clean_copy_def)
  next
    case False
    with Some assms(2) show ?thesis by (simp add: lookup_eq)
  qed
  with Some show ?thesis by (simp add: lookup_eq finalised_def final_obj_def)
qed


lemma demo_credit_reachable:
  "reachable demo_env True empty_trie (AddBalance demo_env 4 10 (New empty_trie))"
  by (rule reachable_op [OF reachable_New, where x = "AddBalanceOp 4 10"]) simp_all

text \<open>A credit and a storage write to an address that the trie does not know.\<close>

definition demo_slot :: stateDB where
  "demo_slot = SetState demo_env 4 7 9 (AddBalance demo_env 4 10 (New empty_trie))"

lemma demo_slot_state:
  "\<exists>x. stateObjects demo_slot = [4 \<mapsto> x] \<and> stateObjectsDirty demo_slot = {4} \<and>
     fault (trie demo_slot) 4 = None \<and> address x = 4 \<and> \<not> doomed demo_env True x \<and> \<not> deleted x \<and>
     Balance (data x) = 10 \<and> rlp_encodable (data x) \<and> dirtyStorage x = [7 \<mapsto> 9] \<and>
     cachedStorage x = [7 \<mapsto> 9] \<and> fault (storage_trie_of demo_env x) 7 = None"
  by (rule exI [of _ "the (stateObjects demo_slot 4)"], unfold demo_slot_def demo_credit)
     (simp add: sdb_eval demo_env_def storage_trie_of_def rlp_encodable_def doomed_def)

lemma demo_slot_reachable: "reachable demo_env True empty_trie demo_slot"
  unfolding demo_slot_def
  by (rule reachable_op [OF demo_credit_reachable, where x = "SetStateOp 4 7 9"]) simp_all


end
