(* ===== verification/State_Commit.thy ===== *)
theory State_Commit
  imports State_Dirty
begin

text \<open>
  \<^verbatim>\<open>Commit\<close> and \<^verbatim>\<open>Copy\<close> of the state database. The root that \<^verbatim>\<open>Commit\<close> stores is
  the one \<^verbatim>\<open>IntermediateRoot\<close> announced, for every iteration order of either; a copy
  answers as the original.
\<close>

section \<open>Commit\<close>

definition code_done :: "stateObject \<Rightarrow> stateObject" where
  "code_done obj = (if code obj \<noteq> None \<and> dirtyCode obj then obj\<lparr>dirtyCode := False\<rparr> else obj)"

definition commit_obj :: "sdb_env \<Rightarrow> bool \<Rightarrow> stateObject \<Rightarrow> stateObject" where
  "commit_obj E del obj =
     (if doomed E del obj then obj\<lparr>deleted := True\<rparr> else flushed E (code_done obj))"

definition committed :: "sdb_env \<Rightarrow> bool \<Rightarrow> address set \<Rightarrow> stateDB \<Rightarrow> stateDB" where
  "committed E del A s =
     (finalised E del (A \<inter> stateObjectsDirty s) s)\<lparr>
       stateObjects := (\<lambda>a. if a \<in> A \<inter> stateObjectsDirty s
          then map_option (commit_obj E del) (stateObjects s a) else stateObjects s a),
       stateObjectsDirty := stateObjectsDirty s - A\<rparr>"

text \<open>No error is recorded or met by an account that is written back.\<close>

definition committable :: "sdb_env \<Rightarrow> commit_env \<Rightarrow> bool \<Rightarrow> address set \<Rightarrow> stateDB \<Rightarrow> bool" where
  "committable E C del A s \<longleftrightarrow>
     (\<forall>a \<in> A. \<exists>x. stateObjects s a = Some x \<and>
        (a \<notin> stateObjectsDirty s \<longrightarrow> \<not> suicided x) \<and>
        (a \<in> stateObjectsDirty s \<longrightarrow> \<not> doomed E del x \<longrightarrow>
           objErr (flushed E x) = None \<and> StorageCommitErr C (storage_trie_of E (flushed E x)) = None))"

lemma doomed_code_done [simp]: "doomed E del (code_done x) = doomed E del x"
  by (simp add: code_done_def doomed_def empty_def)

lemma getTrie_code_done: "getTrie E (code_done x) =
  (fst (getTrie E x), code_done (snd (getTrie E x)))"
  by (auto simp: code_done_def getTrie_def obj_setError_def split: option.splits sum.splits)

lemma code_done_simps [simp]:
  "address (code_done x) = address x" "data (code_done x) = data x"
  "dirtyStorage (code_done x) = dirtyStorage x" "objErr (code_done x) = objErr x"
  by (simp_all add: code_done_def)

lemma data_flushed_code_done [simp]: "data (flushed E (code_done x)) = data (flushed E x)"
  by (simp add: flushed_def getTrie_code_done split_def Let_def)

lemma CommitTrie_flushed:
  assumes "distinct keys" "set keys = dom (dirtyStorage x)"
    "\<forall>k \<in> dom (dirtyStorage x). fault (storage_trie_of E x) k = None"
    "objErr (flushed E x) = None" "StorageCommitErr C (storage_trie_of E (flushed E x)) = None"
  shows "\<exists>w. CommitTrie E C keys x = ((None, w), flushed E x)"
proof -
  let ?t = "storage_trie_of E x"
  let ?t1 = "?t\<lparr>content := flushed_content (dirtyStorage x) (content ?t)\<rparr>"
  have u: "updateTrie E keys x =
      (snd (getTrie E x))\<lparr>dirtyStorage := Map.empty, strie := Some ?t1\<rparr>"
    using assms by (simp add: updateTrie_def fold_updateTrie_step [where t = ?t])
  have f: "flushed E x =
      (updateTrie E keys x)\<lparr>data := (data x)\<lparr>Root := TrieHash E ?t1\<rparr>\<rparr>"
    by (simp add: u flushed_def split_def Let_def storage_trie_of_def)
  have "storage_trie_of E (flushed E x) = ?t1"
    by (simp add: f u storage_trie_of_def getTrie_def)
  moreover have "objErr (updateTrie E keys x) = None"
    using assms(4) by (simp add: f)
  ultimately show ?thesis
    using assms(5) by (simp add: CommitTrie_def u f Let_def)
qed

lemma storage_trie_of_code_done [simp]: "storage_trie_of E (code_done x) = storage_trie_of E x"
  by (simp add: storage_trie_of_def getTrie_code_done)

lemma flushed_code_done: "objErr (flushed E (code_done x)) = objErr (flushed E x)"
  "storage_trie_of E (flushed E (code_done x)) = storage_trie_of E (flushed E x)"
  by (simp_all add: flushed_def getTrie_code_done split_def Let_def storage_trie_of_def)
     (simp_all add: getTrie_def)

definition code_writes :: "stateObject \<Rightarrow> db_write list" where
  "code_writes x = (case code x of
     Some c \<Rightarrow> if dirtyCode x then [InsertCode (CodeHash (data x)) c] else []
   | None \<Rightarrow> [])"

lemma commit_dirty_code_done:
  "commit_dirty E C keys x s =
     (case CommitTrie E C keys (code_done x) of ((err, w2), y) \<Rightarrow>
        (case err of
           Some e \<Rightarrow> Some ((Some e, code_writes x @ w2), setStateObject y s)
         | None \<Rightarrow> map_option (\<lambda>t. ((None, code_writes x @ w2), t)) (updateStateObject y (setStateObject y s))))"
  by (auto simp: commit_dirty_def code_done_def code_writes_def map_conv_bind_option comp_def split_def Let_def
      split: option.splits)

lemma commit_step_spec:
  assumes w: "writable E del (A \<inter> stateObjectsDirty s) s" and c: "committable E C del A s"
    and k: "\<forall>x. stateObjects s a = Some x \<longrightarrow>
      distinct (keys a) \<and> set (keys a) = dom (dirtyStorage x)"
    and a: "a \<in> A"
  shows "\<exists>ws. commit_step E C del keys a s = Some ((None, ws), committed E del {a} s)"
proof -
  obtain x where x: "stateObjects s a = Some x"
    and su: "a \<notin> stateObjectsDirty s \<Longrightarrow> \<not> suicided x"
    and ok: "a \<in> stateObjectsDirty s \<Longrightarrow> \<not> doomed E del x \<Longrightarrow>
        objErr (flushed E x) = None \<and> StorageCommitErr C (storage_trie_of E (flushed E x)) = None"
    using c a by (auto simp: committable_def)
  show ?thesis
  proof (cases "a \<in> stateObjectsDirty s")
    case False
    then have "committed E del {a} s = s"
      by (cases s) (auto simp: committed_def finalised_def)
    with False x su show ?thesis by (cases s) (auto simp: commit_step_def)
  next
    case True
    note d = writableD [OF w IntI [OF a True] x]
    show ?thesis
    proof (cases "doomed E del x")
      case D: True
      with True x d show ?thesis
        by (auto simp: commit_step_def doomed_def deleteStateObject_def TryDelete_def committed_def
            finalised_def final_leaf_def commit_obj_def setStateObject_def Let_def fun_eq_iff)
    next
      case D: False
      obtain ws where "CommitTrie E C (keys a) (code_done x) = ((None, ws), flushed E (code_done x))"
        using CommitTrie_flushed [of "keys a" "code_done x" E C] k x d(3) ok [OF True D]
        by (auto simp: flushed_code_done)
      moreover have "rlp_encodable (data (flushed E x))"
        using d(2) [OF D] by (simp add: rlp_encodable_def)
      ultimately have "\<exists>ws. commit_dirty E C (keys a) x s =
          Some ((None, ws), (finalised E del {a} s)\<lparr>
            stateObjects := (stateObjects s)(a \<mapsto> flushed E (code_done x))\<rparr>)"
        using commit_dirty_code_done [of E C "keys a" x s] D d x
        by (auto simp: updateStateObject_def TryUpdate_def setStateObject_def finalised_def
            final_leaf_def fun_eq_iff)
      with True D x show ?thesis
        by (auto simp: commit_step_def doomed_def committed_def commit_obj_def finalised_def fun_eq_iff)
    qed
  qed
qed

lemma committed_insert:
  "a \<notin> B \<Longrightarrow> committed E del B (committed E del {a} s) = committed E del (insert a B) s"
  by (intro stateDB.equality atrie.equality ext)
     (auto simp: committed_def finalised_def split: option.splits)

lemma commit_loop_spec:
  assumes "distinct order" "writable E del (set order \<inter> stateObjectsDirty s) s"
    "committable E C del (set order) s"
    "\<forall>a \<in> set order. \<forall>x. stateObjects s a = Some x \<longrightarrow>
      distinct (keys a) \<and> set (keys a) = dom (dirtyStorage x)"
  shows "\<exists>w. commit_loop E C del keys order s = Some ((None, w), committed E del (set order) s)"
  using assms
proof (induction order arbitrary: s)
  case Nil
  show ?case by (cases s) (simp add: committed_def finalised_def)
next
  case (Cons a as)
  let ?t = "committed E del {a} s"
  obtain w where w: "commit_step E C del keys a s = Some ((None, w), ?t)"
    using commit_step_spec [of E del "set (a # as)" s C a keys] Cons.prems by auto
  have same: "stateObjects ?t b = stateObjects s b" "b \<in> stateObjectsDirty ?t \<longleftrightarrow> b \<in> stateObjectsDirty s"
    if "b \<in> set as" for b
    using that Cons.prems(1) by (auto simp: committed_def)
  have "writable E del (set as \<inter> stateObjectsDirty ?t) ?t"
    using Cons.prems(1,2) by (auto simp: writable_def committed_def)
  moreover have "committable E C del (set as) ?t"
    using Cons.prems(3) same by (auto simp: committable_def)
  ultimately obtain w2 where "commit_loop E C del keys as ?t =
      Some ((None, w2), committed E del (set as) ?t)"
    using Cons.IH [of ?t] Cons.prems(1,4) same by auto
  with w Cons.prems(1) show ?case by (simp add: committed_insert)
qed

lemma committed_all_trie:
  assumes "stateObjectsDirty s \<subseteq> A"
  shows "trie (committed E del A s) = trie (finalised E del (stateObjectsDirty s) s)"
    "stateObjectsDirty (committed E del A s) = {}"
  using assms by (auto simp: committed_def Int_absorb1)


section \<open>Copy\<close>

lemma view_deepCopy:
  assumes "coherent E x"
  shows "view E (deepCopy x) = view E x"
proof -
  have "storage_trie_of E (deepCopy x) = storage_trie_of E x"
    by (rule storage_trie_of_cong) (simp_all add: deepCopy_def)
  with assms show ?thesis by (simp add: view_eq coherent_def) (simp add: deepCopy_def)
qed

lemma view_pristine:
  assumes "coherent E x" "pristine E x" "dirtyStorage x = Map.empty" "\<not> suicided x"
  shows "view E (newObject (address x) (data x) True) = view E x"
proof -
  have "vStorage (view E (newObject (address x) (data x) True)) = vStorage (view E x)"
    using assms coherent_clean [of E x] coherent_clean [of E "newObject (address x) (data x) True"]
    by (simp add: pristine_def)
  with assms show ?thesis by (simp add: view_eq pristine_def)
qed


section \<open>Witnesses and the refund counter\<close>

text \<open>A node database that accepts every trie.\<close>

definition demo_commit :: commit_env where
  "demo_commit = \<lparr>StorageCommitErr = (\<lambda>_. None), StateCommitErr = (\<lambda>_. None)\<rparr>"



lemma finalise_step_refund: "finalise_step E del keys a s = Some t \<Longrightarrow> refund t = refund s"
  by (auto simp: finalise_step_def updateStateObject_def deleteStateObject_def TryUpdate_def
      TryDelete_def Let_def bind_eq_Some_conv split: if_splits option.splits)

lemma finalise_loop_refund: "finalise_loop E del keys order s = Some t \<Longrightarrow> refund t = refund s"
  by (induction order arbitrary: s) (auto simp: bind_eq_Some_conv dest: finalise_step_refund)

text \<open>
  C11. The refund counter survives \<^verbatim>\<open>Finalise\<close>: gas refunds collected by one
  transaction are still in the counter when the next transaction of the block starts,
  although the comment of \<^verbatim>\<open>Finalise\<close> says that it clears the refunds.
\<close>

theorem Finalise_keeps_refund:
  "map_option refund (Finalise E del keys order s) =
     (if finalise_loop E del keys order s = None then None else Some (GetRefund s))"
  using finalise_loop_refund [of E del keys order s]
  by (cases "finalise_loop E del keys order s")
     (simp_all add: Finalise_def clearJournalAndRefund_def GetRefund_def)

end
