(* ===== verification/Evm_Base.thy ===== *)
theory Evm_Base
  imports Prelude
begin

unbundle bit_operations_syntax

text \<open>
  The data the virtual machine of \<^verbatim>\<open>src/core/vm\<close> works on: 256-bit arithmetic on big
  integers (\<^verbatim>\<open>src/common/math\<close>), byte strings, the operand stack (\<^verbatim>\<open>stack.go\<close>), the
  memory (\<^verbatim>\<open>memory.go\<close>), the helpers of \<^verbatim>\<open>common.go\<close> and the jump destination
  analysis (\<^verbatim>\<open>analysis.go\<close>).

  Stack items are big integers in the source and unbounded integers here. The top of the
  stack is the head of the list. \<^term>\<open>None\<close> is a panic.
\<close>

section \<open>Arithmetic of \<^verbatim>\<open>common/math\<close>\<close>

definition tt255 :: int where "tt255 = 2 ^ 255"
definition tt256 :: int where "tt256 = 2 ^ 256"
definition tt256m1 :: int where "tt256m1 = tt256 - 1"

text \<open>The bitwise operations of \<^verbatim>\<open>big.Int\<close> are those of two's complement.\<close>

definition U256 :: "int \<Rightarrow> int" where
  "U256 x = x AND tt256m1"

definition S256 :: "int \<Rightarrow> int" where
  "S256 x = (if x < tt255 then x else x - tt256)"

definition BigMax :: "int \<Rightarrow> int \<Rightarrow> int" where
  "BigMax x y = (if x < y then y else x)"

definition BigMin :: "int \<Rightarrow> int \<Rightarrow> int" where
  "BigMin x y = (if x > y then y else x)"

text \<open>
  \<^verbatim>\<open>big.Int.Bits\<close>: the 64-bit words of the absolute value, least significant first,
  without leading zero words. \<^verbatim>\<open>Bytes\<close> is the same in bytes, most significant first,
  and \<^verbatim>\<open>BitLen\<close> the length of the absolute value in bits.
\<close>

fun nat_words :: "nat \<Rightarrow> u64 list" where
  "nat_words n = (if n = 0 then [] else of_nat n # nat_words (n div 2 ^ 64))"

fun nat_bytes :: "nat \<Rightarrow> byte list" where
  "nat_bytes n = (if n = 0 then [] else of_nat n # nat_bytes (n div 256))"

fun nat_bits :: "nat \<Rightarrow> nat" where
  "nat_bits n = (if n = 0 then 0 else Suc (nat_bits (n div 2)))"

declare nat_words.simps [simp del] nat_bytes.simps [simp del] nat_bits.simps [simp del]

definition Bits :: "int \<Rightarrow> u64 list" where
  "Bits x = nat_words (nat \<bar>x\<bar>)"

definition Bytes :: "int \<Rightarrow> byte list" where
  "Bytes x = rev (nat_bytes (nat \<bar>x\<bar>))"

definition BitLen :: "int \<Rightarrow> nat" where
  "BitLen x = nat_bits (nat \<bar>x\<bar>)"

definition SetBytes :: "byte list \<Rightarrow> int" where
  "SetBytes bs = foldl (\<lambda>a b. a * 256 + uint b) 0 bs"

text \<open>\<^verbatim>\<open>x.Uint64()\<close> and \<^verbatim>\<open>x.Int64()\<close> keep the low 64 bits.\<close>

definition Uint64 :: "int \<Rightarrow> u64" where
  "Uint64 x = word_of_int \<bar>x\<bar>"

definition Int64 :: "int \<Rightarrow> int" where
  "Int64 x = (if 0 \<le> x then sint (Uint64 x) else - sint (Uint64 x))"

text \<open>
  \<^verbatim>\<open>ReadBits\<close> walks the words from the least significant one and each word from its
  least significant byte, filling the buffer from its end.
\<close>

definition word_bytes :: "u64 \<Rightarrow> byte list" where
  "word_bytes w = map (\<lambda>j. ucast (drop_bit (8 * j) w)) [0..<8]"

definition ReadBits :: "int \<Rightarrow> nat \<Rightarrow> byte list" where
  "ReadBits x n = rev (take n (concat (map word_bytes (Bits x)) @ replicate n 0))"

definition PaddedBigBytes :: "int \<Rightarrow> nat \<Rightarrow> byte list" where
  "PaddedBigBytes x n = (if n \<le> BitLen x div 8 then Bytes x else ReadBits x n)"

definition bigEndianByteAt :: "int \<Rightarrow> nat \<Rightarrow> byte" where
  "bigEndianByteAt x n =
     (let words = Bits x; i = n div 8 in
      if length words \<le> i then 0 else ucast (drop_bit (8 * (n mod 8)) (words ! i)))"

definition Byte :: "int \<Rightarrow> nat \<Rightarrow> nat \<Rightarrow> byte" where
  "Byte x padlength n = (if padlength \<le> n then 0 else bigEndianByteAt x (padlength - 1 - n))"

text \<open>\<^verbatim>\<open>Exp\<close>: squaring over the bits of the words, from the least significant bit.\<close>

fun exp_bits :: "nat \<Rightarrow> u64 \<Rightarrow> int \<times> int \<Rightarrow> int \<times> int" where
  "exp_bits 0 w (r, b) = (r, b)"
| "exp_bits (Suc k) w (r, b) =
     exp_bits k (drop_bit 1 w) (if w AND 1 = 1 then U256 (r * b) else r, U256 (b * b))"

definition Exp :: "int \<Rightarrow> int \<Rightarrow> int" where
  "Exp base exponent = fst (fold (exp_bits 64) (Bits exponent) (1, base))"

definition SafeAdd :: "u64 \<Rightarrow> u64 \<Rightarrow> u64 \<times> bool" where
  "SafeAdd x y = (x + y, y > - 1 - x)"

definition SafeMul :: "u64 \<Rightarrow> u64 \<Rightarrow> u64 \<times> bool" where
  "SafeMul x y = (if x = 0 \<or> y = 0 then (0, False) else (x * y, y > (- 1) div x))"

definition SafeSub :: "u64 \<Rightarrow> u64 \<Rightarrow> u64 \<times> bool" where
  "SafeSub x y = (x - y, x < y)"

subsection \<open>What they compute\<close>

lemma U256_mod: "U256 x = x mod 2 ^ 256"
proof -
  have m: "tt256m1 = mask 256" by (simp add: tt256m1_def tt256_def mask_eq_exp_minus_1)
  show ?thesis by (simp only: U256_def m take_bit_eq_mask [symmetric] take_bit_eq_mod)
qed

lemma U256_word: "U256 x = uint (word_of_int x :: 256 word)"
  by (simp add: U256_mod unsigned_of_int take_bit_eq_mod)

lemma U256_bounds [simp]: "0 \<le> U256 x" "U256 x < 2 ^ 256"
  by (simp_all add: U256_mod)

lemma U256_id: "0 \<le> x \<Longrightarrow> x < 2 ^ 256 \<Longrightarrow> U256 x = x"
  by (simp add: U256_mod)

lemma S256_uint: "S256 (uint w) = sint (w :: 256 word)"
proof -
  have u: "0 \<le> uint w" "uint w < 2 * 2 ^ 255" using uint_lt2p [of w] by simp_all
  have "bit (uint w) 255 \<longleftrightarrow> odd (uint w div 2 ^ 255)"
    by (rule bit_iff_odd)
  also have "uint w div 2 ^ 255 = (if uint w < 2 ^ 255 then 0 else 1)"
    using u int_div_pos_eq [of "uint w" "2 ^ 255" 1 "uint w - 2 ^ 255"] by auto
  finally have "bit (uint w) 255 \<longleftrightarrow> \<not> uint w < 2 ^ 255" by simp
  then show ?thesis
    using take_bit_int_eq_self [of "uint w" 256] u
    by (simp add: S256_def tt255_def tt256_def sint_uint signed_take_bit_eq_take_bit_minus)
qed

lemma nat_bits_le: "nat_bits n \<le> k \<longleftrightarrow> n < 2 ^ k"
proof (induction k arbitrary: n)
  case 0
  then show ?case by (simp add: nat_bits.simps [of n])
next
  case (Suc k)
  show ?case
  proof (cases "n = 0")
    case False
    then have "nat_bits n \<le> Suc k \<longleftrightarrow> nat_bits (n div 2) \<le> k" by (simp add: nat_bits.simps [of n])
    also have "\<dots> \<longleftrightarrow> n div 2 < 2 ^ k" by (rule Suc.IH)
    also have "\<dots> \<longleftrightarrow> n < 2 ^ Suc k" by (simp add: div_less_iff_less_mult mult.commute)
    finally show ?thesis .
  qed (simp add: nat_bits.simps)
qed

lemma BitLen_le: "0 \<le> x \<Longrightarrow> BitLen x \<le> k \<longleftrightarrow> x < 2 ^ k"
  by (simp add: BitLen_def nat_bits_le nat_less_iff)

lemma Uint64_small: "0 \<le> x \<Longrightarrow> x < 2 ^ 64 \<Longrightarrow> uint (Uint64 x) = x"
  by (simp add: Uint64_def unsigned_of_int take_bit_int_eq_self)

lemma Int64_small: "0 \<le> x \<Longrightarrow> x < 2 ^ 63 \<Longrightarrow> Int64 x = x"
  by (simp add: Int64_def Uint64_def signed_of_int signed_take_bit_int_eq_self)

lemma max_u64: "unat (- 1 :: u64) = 2 ^ 64 - 1"
  by (simp add: unsigned_minus_1_eq_mask mask_eq_exp_minus_1)

lemma SafeAdd_ok:
  "snd (SafeAdd x y) \<longleftrightarrow> 2 ^ 64 \<le> unat x + unat y"
  "\<not> snd (SafeAdd x y) \<Longrightarrow> unat (fst (SafeAdd x y)) = unat x + unat y"
proof -
  have m: "unat (- 1 - x) = 2 ^ 64 - 1 - unat x"
    by (simp add: unat_sub max_u64)
  show 1: "snd (SafeAdd x y) \<longleftrightarrow> 2 ^ 64 \<le> unat x + unat y"
    using unsigned_less [of x, where 'a = nat] by (auto simp: SafeAdd_def word_less_nat_alt m)
  show "\<not> snd (SafeAdd x y) \<Longrightarrow> unat (fst (SafeAdd x y)) = unat x + unat y"
    using 1 by (simp add: SafeAdd_def unat_word_ariths)
qed

lemma SafeMul_ok:
  "snd (SafeMul x y) \<longleftrightarrow> 2 ^ 64 \<le> unat x * unat y"
  "\<not> snd (SafeMul x y) \<Longrightarrow> unat (fst (SafeMul x y)) = unat x * unat y"
proof -
  show 1: "snd (SafeMul x y) \<longleftrightarrow> 2 ^ 64 \<le> unat x * unat y"
  proof (cases "x = 0 \<or> y = 0")
    case False
    then have "0 < unat x" by (simp add: unat_gt_0)
    then have "(2 ^ 64 - 1) div unat x < unat y \<longleftrightarrow> 2 ^ 64 \<le> unat x * unat y"
      by (simp add: div_less_iff_less_mult mult.commute) linarith
    with False show ?thesis by (simp add: SafeMul_def word_less_nat_alt unat_div max_u64)
  qed (auto simp: SafeMul_def)
  show "\<not> snd (SafeMul x y) \<Longrightarrow> unat (fst (SafeMul x y)) = unat x * unat y"
    using 1 by (auto simp: SafeMul_def unat_word_ariths)
qed

text \<open>The words and the bytes of a number.\<close>

lemma nat_words_nth:
  "i < length (nat_words n) \<Longrightarrow> nat_words n ! i = of_nat (n div 2 ^ (64 * i))"
proof (induction n arbitrary: i rule: nat_words.induct)
  case (1 n)
  show ?case
  proof (cases i)
    case 0
    with "1.prems" show ?thesis by (simp add: nat_words.simps [of n] split: if_splits)
  next
    case (Suc k)
    with 1 have "n \<noteq> 0" "k < length (nat_words (n div 2 ^ 64))"
      by (auto simp: nat_words.simps [of n] split: if_splits)
    with 1 Suc show ?thesis
      by (simp add: nat_words.simps [of n] power_add div_mult2_eq)
  qed
qed

lemma nat_words_length: "length (nat_words n) \<le> i \<longleftrightarrow> n div 2 ^ (64 * i) = 0"
proof (induction n arbitrary: i rule: nat_words.induct)
  case (1 n)
  show ?case
  proof (cases "n = 0")
    case False
    show ?thesis
    proof (cases i)
      case 0
      with False show ?thesis by (simp add: nat_words.simps [of n])
    next
      case (Suc k)
      have "length (nat_words n) \<le> i \<longleftrightarrow> length (nat_words (n div 2 ^ 64)) \<le> k"
        using False Suc by (simp add: nat_words.simps [of n])
      also have "\<dots> \<longleftrightarrow> n div 2 ^ (64 * i) = 0"
        using 1 [OF False, of k] Suc by (simp only: div_mult2_eq [symmetric] power_add [symmetric]) simp
      finally show ?thesis .
    qed
  qed (simp add: nat_words.simps)
qed

lemma ucast_drop_bit:
  "m + 8 \<le> 64 \<Longrightarrow> ucast (drop_bit m (of_nat q :: u64)) = (of_nat (q div 2 ^ m) :: byte)"
  by (rule bit_word_eqI)
     (simp add: bit_simps ac_simps flip: drop_bit_eq_div)

lemma bigEndianByteAt_eq:
  assumes "0 \<le> x"
  shows "bigEndianByteAt x n = word_of_int (x div 256 ^ n)"
proof -
  define k where "k = nat x"
  then have x: "x = int k" using assms by simp
  let ?i = "n div 8"
  have n: "256 ^ n = 2 ^ (64 * ?i) * (2 :: nat) ^ (8 * (n mod 8))"
  proof -
    have "(256 :: nat) ^ n = 2 ^ (8 * n)" by (simp add: power_mult)
    also have "8 * n = 64 * ?i + 8 * (n mod 8)" using mult_div_mod_eq [of 8 n] by linarith
    finally show ?thesis by (simp add: power_add)
  qed
  have "bigEndianByteAt x n = of_nat (k div 256 ^ n)"
  proof (cases "length (nat_words k) \<le> ?i")
    case True
    then have "k div 256 ^ n = 0" using nat_words_length [of k ?i] by (simp add: n div_mult2_eq)
    with True show ?thesis by (simp add: bigEndianByteAt_def Bits_def Let_def x)
  next
    case False
    have "n mod 8 < 8" by simp
    then have "8 * (n mod 8) + 8 \<le> 64" by linarith
    then have "ucast (drop_bit (8 * (n mod 8)) (of_nat (k div 2 ^ (64 * ?i)) :: u64)) =
        (of_nat (k div 256 ^ n) :: byte)"
      by (simp add: ucast_drop_bit n div_mult2_eq)
    with False show ?thesis
      by (simp add: bigEndianByteAt_def Bits_def Let_def x nat_words_nth)
  qed
  also have "x div 256 ^ n = int (k div 256 ^ n)" by (simp add: x zdiv_int)
  then have "of_nat (k div 256 ^ n) = (word_of_int (x div 256 ^ n) :: byte)" by simp
  finally show ?thesis .
qed

text \<open>Big-endian encoding in \<open>n\<close> bytes.\<close>

definition be_bytes :: "nat \<Rightarrow> int \<Rightarrow> byte list" where
  "be_bytes n x = rev (map (\<lambda>i. word_of_int (x div 256 ^ i)) [0..<n])"

lemma length_be_bytes [simp]: "length (be_bytes n x) = n"
  by (simp add: be_bytes_def)

lemma concat_word_bytes_nth:
  "j < 8 * length ws \<Longrightarrow>
     concat (map word_bytes ws) ! j = ucast (drop_bit (8 * (j mod 8)) (ws ! (j div 8)))"
proof (induction ws arbitrary: j)
  case (Cons w ws)
  show ?case
  proof (cases "j < 8")
    case True
    then show ?thesis by (simp add: nth_append word_bytes_def)
  next
    case False
    then obtain k where k: "j = 8 + k" using le_Suc_ex by fastforce
    moreover have "(8 + k) div 8 = Suc (k div 8)" by simp
    ultimately show ?thesis using Cons by (simp add: nth_append word_bytes_def)
  qed
qed simp

lemma ReadBits_eq:
  assumes "0 \<le> x"
  shows "ReadBits x n = be_bytes n x"
proof -
  let ?L = "concat (map word_bytes (Bits x)) @ replicate n 0"
  have len: "length (concat (map word_bytes ws)) = 8 * length ws" for ws
    by (induction ws) (simp_all add: word_bytes_def)
  have "take n ?L = map (bigEndianByteAt x) [0..<n]"
  proof (rule nth_equalityI)
    fix j assume "j < length (take n ?L)"
    then have j: "j < n" by simp
    show "take n ?L ! j = map (bigEndianByteAt x) [0..<n] ! j"
      using j by (auto simp: nth_append len concat_word_bytes_nth bigEndianByteAt_def Let_def
          less_mult_imp_div_less not_less)
  qed (simp add: len)
  then show ?thesis
    using assms by (simp add: ReadBits_def be_bytes_def bigEndianByteAt_eq)
qed

lemma nat_bytes_nth:
  "i < length (nat_bytes n) \<Longrightarrow> nat_bytes n ! i = of_nat (n div 256 ^ i)"
proof (induction n arbitrary: i rule: nat_bytes.induct)
  case (1 n)
  then show ?case
    by (cases i) (auto simp: nat_bytes.simps [of n] div_mult2_eq split: if_splits)
qed

lemma nat_bytes_0 [simp]: "nat_bytes 0 = []"
  by (simp add: nat_bytes.simps)

lemma nat_bytes_length: "length (nat_bytes n) \<le> i \<longleftrightarrow> n < 256 ^ i"
proof (induction n arbitrary: i rule: nat_bytes.induct)
  case (1 n)
  then show ?case
    by (cases "n = 0"; cases i) (simp_all add: nat_bytes.simps [of n] div_less_iff_less_mult mult.commute)
qed

lemma Bytes_eq:
  assumes "0 \<le> x" "length (Bytes x) = n"
  shows "Bytes x = be_bytes n x"
proof -
  have "nat_bytes (nat x) = map (\<lambda>i. word_of_int (x div 256 ^ i)) [0..<n]"
  proof (rule nth_equalityI)
    fix i assume i: "i < length (nat_bytes (nat x))"
    have "int (nat x div 256 ^ i) = x div 256 ^ i" using assms(1) by (simp add: zdiv_int)
    then have "(of_nat (nat x div 256 ^ i) :: byte) = word_of_int (x div 256 ^ i)"
      by (metis of_int_of_nat_eq)
    with i assms show "nat_bytes (nat x) ! i = map (\<lambda>i. word_of_int (x div 256 ^ i)) [0..<n] ! i"
      by (simp add: nat_bytes_nth Bytes_def)
  qed (use assms in \<open>simp add: Bytes_def\<close>)
  then show ?thesis using assms(1) by (simp add: Bytes_def be_bytes_def)
qed

lemma PaddedBigBytes_eq:
  assumes "0 \<le> x" "x < 256 ^ n"
  shows "PaddedBigBytes x n = be_bytes n x"
proof (cases "n \<le> BitLen x div 8")
  case True
  have "nat x < 256 ^ n" using assms by (simp add: nat_less_iff)
  then have "length (Bytes x) \<le> n" using assms(1) nat_bytes_length [of "nat x" n] by (simp add: Bytes_def)
  moreover have "\<not> length (Bytes x) < n"
  proof
    assume "length (Bytes x) < n"
    then obtain k where k: "n = Suc k" "length (Bytes x) \<le> k" by (cases n) auto
    then have "nat x < 256 ^ k" using assms(1) nat_bytes_length [of "nat x" k] by (simp add: Bytes_def)
    then have "nat x < 2 ^ (8 * k)" by (simp add: power_mult)
    then have "BitLen x \<le> 8 * k" using assms(1) by (simp add: BitLen_def nat_bits_le)
    then have "BitLen x div 8 \<le> k" using div_le_mono [of "BitLen x" "8 * k" 8] by simp
    with True k show False by simp
  qed
  ultimately show ?thesis using True assms(1) Bytes_eq [of x n] by (simp add: PaddedBigBytes_def)
qed (use assms ReadBits_eq in \<open>simp add: PaddedBigBytes_def\<close>)

lemma foldl_SetBytes: "foldl (\<lambda>a b. a * 256 + uint b) a bs = a * 256 ^ length bs + SetBytes bs"
  unfolding SetBytes_def
proof (induction bs arbitrary: a)
  case (Cons b bs)
  from Cons [of "a * 256 + uint b"] Cons [of "uint b"] show ?case by (simp add: algebra_simps)
qed simp

lemma SetBytes_Cons: "SetBytes (b # bs) = uint b * 256 ^ length bs + SetBytes bs"
  using foldl_SetBytes [of "uint b" bs] by (simp add: SetBytes_def)

lemma SetBytes_be_bytes: "SetBytes (be_bytes n x) = x mod 256 ^ n"
proof (induction n)
  case (Suc n)
  have "be_bytes (Suc n) x = word_of_int (x div 256 ^ n) # be_bytes n x" by (simp add: be_bytes_def)
  moreover have "uint (word_of_int (x div 256 ^ n) :: byte) = x div 256 ^ n mod 256"
    by (simp add: unsigned_of_int take_bit_eq_mod)
  ultimately show ?case
    using Suc mod_mult2_eq' [of x "256 ^ n" 256] by (simp add: SetBytes_Cons mult.commute)
qed (simp add: SetBytes_def be_bytes_def)

text \<open>Exponentiation.\<close>

definition words_val :: "u64 list \<Rightarrow> nat" where
  "words_val ws = foldr (\<lambda>w v. unat w + 2 ^ 64 * v) ws 0"

lemma nat_words_0 [simp]: "nat_words 0 = []"
  by (simp add: nat_words.simps)

lemma words_val_nat_words: "words_val (nat_words n) = n"
proof (induction n rule: nat_words.induct)
  case (1 n)
  then show ?case
    by (cases "n = 0") (simp_all add: words_val_def nat_words.simps [of n] unsigned_of_nat take_bit_eq_mod)
qed

lemma exp_bits_eq:
  "fst (exp_bits k w (r, b)) mod 2 ^ 256 = r * b ^ take_bit k (unat w) mod 2 ^ 256 \<and>
   snd (exp_bits k w (r, b)) mod 2 ^ 256 = b ^ 2 ^ k mod 2 ^ 256"
proof (induction k arbitrary: w r b)
  case (Suc k)
  let ?M = "2 ^ 256 :: int"
  let ?r = "if w AND 1 = 1 then U256 (r * b) else r" and ?b = "U256 (b * b)"
  let ?n = "unat w"
  have d: "unat (drop_bit 1 w) = ?n div 2" by (simp add: drop_bit_eq_div unat_div)
  have o: "w AND 1 = 1 \<longleftrightarrow> odd ?n"
  proof -
    have "odd ?n \<longleftrightarrow> odd w" by (simp add: bit_unsigned_iff flip: bit_0)
    then show ?thesis by (simp add: and_one_eq mod_2_eq_odd)
  qed
  have b: "?b ^ j mod ?M = b ^ (2 * j) mod ?M" for j
    by (simp add: U256_mod power_mod power_mult power2_eq_square)
  have "fst (exp_bits (Suc k) w (r, b)) mod ?M = ?r * ?b ^ take_bit k (?n div 2) mod ?M"
    using Suc.IH [of "drop_bit 1 w" ?r ?b] by (simp only: exp_bits.simps d)
  also have "\<dots> = ?r * b ^ (2 * take_bit k (?n div 2)) mod ?M"
    using b mod_mult_cong [of ?r ?M ?r] by blast
  also have "\<dots> = r * b ^ take_bit (Suc k) ?n mod ?M"
  proof (cases "odd ?n")
    case True
    then have "take_bit (Suc k) ?n = Suc (2 * take_bit k (?n div 2))" by (simp add: take_bit_Suc mod_2_eq_odd)
    with True o show ?thesis by (simp add: U256_mod mod_mult_left_eq mult.assoc)
  next
    case False
    then have "take_bit (Suc k) ?n = 2 * take_bit k (?n div 2)" by (simp add: take_bit_Suc)
    with False o show ?thesis by simp
  qed
  finally have "fst (exp_bits (Suc k) w (r, b)) mod ?M = r * b ^ take_bit (Suc k) ?n mod ?M" .
  moreover have "snd (exp_bits (Suc k) w (r, b)) mod ?M = b ^ 2 ^ Suc k mod ?M"
    using Suc.IH [of "drop_bit 1 w" ?r ?b] b [of "2 ^ k"] by (simp only: exp_bits.simps power_Suc)
  ultimately show ?case by blast
qed simp_all

lemma exp_words_eq:
  "fst (fold (exp_bits 64) ws (r, b)) mod 2 ^ 256 = r * b ^ words_val ws mod 2 ^ 256"
proof (induction ws arbitrary: r b)
  case (Cons w ws)
  let ?M = "2 ^ 256 :: int"
  obtain r1 b1 where e: "exp_bits 64 w (r, b) = (r1, b1)" by fastforce
  have tb: "take_bit 64 (unat w) = unat w"
    using unsigned_less [of w, where 'a = nat] by (simp add: take_bit_nat_eq_self)
  have r1: "r1 mod ?M = r * b ^ unat w mod ?M" and b1: "b1 mod ?M = b ^ 2 ^ 64 mod ?M"
    using exp_bits_eq [of 64 w r b] e tb by simp_all
  have "fst (fold (exp_bits 64) (w # ws) (r, b)) mod ?M = r1 * b1 ^ words_val ws mod ?M"
    using Cons [of r1 b1] e by simp
  also have "\<dots> = (r * b ^ unat w) * (b ^ 2 ^ 64) ^ words_val ws mod ?M"
    by (rule mod_mult_cong [OF r1]) (metis b1 power_mod)
  also have "\<dots> = r * b ^ words_val (w # ws) mod ?M"
    by (simp only: words_val_def foldr.simps o_apply power_add power_mult mult.assoc)
  finally show ?case .
qed (simp add: words_val_def)

lemma exp_bits_range:
  "0 \<le> r \<Longrightarrow> r < 2 ^ 256 \<Longrightarrow>
     0 \<le> fst (exp_bits k w (r, b)) \<and> fst (exp_bits k w (r, b)) < 2 ^ 256"
proof (induction k arbitrary: w r b)
  case (Suc k)
  then show ?case using U256_bounds [of "r * b"] by (auto simp del: U256_bounds)
qed simp

lemma exp_words_range:
  "0 \<le> r \<Longrightarrow> r < 2 ^ 256 \<Longrightarrow>
     0 \<le> fst (fold (exp_bits 64) ws (r, b)) \<and> fst (fold (exp_bits 64) ws (r, b)) < 2 ^ 256"
proof (induction ws arbitrary: r b)
  case (Cons w ws)
  obtain r1 b1 where "exp_bits 64 w (r, b) = (r1, b1)" by fastforce
  with Cons.IH [of r1 b1] exp_bits_range [OF Cons.prems, of 64 w b] show ?case by simp
qed simp

lemma Exp_eq:
  assumes "0 \<le> exponent"
  shows "Exp base exponent = base ^ nat exponent mod 2 ^ 256"
  using exp_words_eq [of "Bits exponent" 1 base] exp_words_range [of 1 "Bits exponent" base] assms
  by (simp add: Exp_def Bits_def words_val_nat_words)

section \<open>The operand stack\<close>

type_synonym stack = "int list"

definition pop :: "stack \<Rightarrow> (int \<times> stack) option" where
  "pop st = (case st of [] \<Rightarrow> None | x # xs \<Rightarrow> Some (x, xs))"

definition peek :: "stack \<Rightarrow> int option" where
  "peek st = (case st of [] \<Rightarrow> None | x # xs \<Rightarrow> Some x)"

definition Back :: "stack \<Rightarrow> nat \<Rightarrow> int option" where
  "Back st n = (if n < length st then Some (st ! n) else None)"

definition push :: "int \<Rightarrow> stack \<Rightarrow> stack" where
  "push d st = d # st"

definition stack_swap :: "nat \<Rightarrow> stack \<Rightarrow> stack option" where
  "stack_swap n st =
     (if 1 \<le> n \<and> n \<le> length st then Some (st[n - 1 := st ! 0, 0 := st ! (n - 1)]) else None)"

definition stack_dup :: "nat \<Rightarrow> stack \<Rightarrow> stack option" where
  "stack_dup n st = (if 1 \<le> n \<and> n \<le> length st then Some (push (st ! (n - 1)) st) else None)"

lemma stack_ops [simp]:
  "pop (x # xs) = Some (x, xs)" "pop [] = None" "peek (x # xs) = Some x"
  "Back (x # xs) 0 = Some x" "Back (x # xs) (Suc n) = Back xs n"
  "push x xs = x # xs"
  by (simp_all add: pop_def peek_def Back_def push_def)

section \<open>Memory\<close>

record Memory =
  store :: "byte list"
  lastGasCost :: u64

definition NewMemory :: Memory where
  "NewMemory = \<lparr>store = [], lastGasCost = 0\<rparr>"

text \<open>
  A slice expression that exceeds the length of the store counts as a panic (Go allows
  it up to the capacity).
\<close>

definition Memory_Set :: "u64 \<Rightarrow> u64 \<Rightarrow> byte list \<Rightarrow> Memory \<Rightarrow> Memory option" where
  "Memory_Set offset sz val m =
     (if length (store m) < unat sz then None
      else if sz = 0 then Some m
      else if length (store m) < unat offset + unat sz then None
      else (let o1 = unat offset; n = min (unat sz) (length val) in
        Some (m\<lparr>store := take o1 (store m) @ take n val @ drop (o1 + n) (store m)\<rparr>)))"

definition Resize :: "u64 \<Rightarrow> Memory \<Rightarrow> Memory" where
  "Resize sz m =
     (if length (store m) < unat sz
      then m\<lparr>store := store m @ replicate (unat sz - length (store m)) 0\<rparr> else m)"

definition Memory_Get :: "int \<Rightarrow> int \<Rightarrow> Memory \<Rightarrow> byte list option" where
  "Memory_Get offset sz m =
     (if sz = 0 then Some []
      else if offset < int (length (store m))
      then (if 0 \<le> offset \<and> 0 \<le> sz \<and> offset + sz \<le> int (length (store m))
            then Some (take (nat sz) (drop (nat offset) (store m))) else None)
      else Some [])"

text \<open>\<^verbatim>\<open>GetPtr\<close> returns the same bytes without copying them.\<close>

definition GetPtr :: "int \<Rightarrow> int \<Rightarrow> Memory \<Rightarrow> byte list option" where
  "GetPtr offset sz m = Memory_Get offset sz m"

section \<open>Helpers of \<^verbatim>\<open>common.go\<close>\<close>

definition calcMemSize :: "int \<Rightarrow> int \<Rightarrow> int" where
  "calcMemSize off l = (if l = 0 then 0 else off + l)"

definition RightPadBytes :: "byte list \<Rightarrow> int \<Rightarrow> byte list" where
  "RightPadBytes bs l =
     (if l \<le> int (length bs) then bs
      else bs @ replicate (nat l - length bs) 0)"

definition getDataBig :: "byte list \<Rightarrow> int \<Rightarrow> int \<Rightarrow> byte list" where
  "getDataBig data start sz =
     (let dlen = int (length data);
          s = BigMin start dlen;
          e = BigMin (s + sz) dlen in
      RightPadBytes (take (unat (Uint64 e) - unat (Uint64 s)) (drop (unat (Uint64 s)) data))
        (sint (Uint64 sz)))"

definition getData :: "byte list \<Rightarrow> u64 \<Rightarrow> u64 \<Rightarrow> byte list option" where
  "getData data start sz =
     (let len = of_nat (length data);
          start = (if start > len then len else start);
          e = start + sz;
          e = (if e > len then len else e) in
      if e < start then None
      else Some (RightPadBytes (take (unat e - unat start) (drop (unat start) data)) (sint sz)))"

definition bigUint64 :: "int \<Rightarrow> u64 \<times> bool" where
  "bigUint64 v = (Uint64 v, BitLen v > 64)"

definition toWordSize :: "u64 \<Rightarrow> u64" where
  "toWordSize sz = (if sz > - 1 - 31 then (- 1) div 32 + 1 else (sz + 31) div 32)"

definition allZero :: "byte list \<Rightarrow> bool" where
  "allZero b = (\<forall>x \<in> set b. x = 0)"

lemma toWordSize_eq: "unat (toWordSize sz) = (unat sz + 31) div 32"
proof (cases "sz > - 1 - 31")
  case True
  then have "2 ^ 64 - 32 < unat sz" by (simp add: word_less_nat_alt)
  moreover have "unat sz < 2 ^ 64" using unsigned_less [of sz, where 'a = nat] by simp
  ultimately have "(unat sz + 31) div 32 = 2 ^ 59" by simp
  with True show ?thesis by (simp add: toWordSize_def)
next
  case False
  then have "unat sz \<le> 2 ^ 64 - 32" by (simp add: word_less_nat_alt)
  with False show ?thesis by (simp add: toWordSize_def unat_div unat_word_ariths)
qed

end
