(* ===== verification/Evm_Jumpdest.thy ===== *)
theory Evm_Jumpdest
  imports Evm_Base
begin

unbundle bit_operations_syntax

text \<open>
  The jump destination analysis of \<^verbatim>\<open>src/core/vm/analysis.go\<close>: a bit vector marks the
  bytes of a program that are arguments of a push instruction. The theory shows that the
  bit vector agrees with a direct decoding of the program and that computing it stays
  within the vector.
\<close>

section \<open>Bit vectors\<close>

type_synonym bitvec = "byte list"

definition bits_set :: "nat \<Rightarrow> bitvec \<Rightarrow> bitvec option" where
  "bits_set pos bits =
     (if pos div 8 < length bits
      then Some (bits[pos div 8 := bits ! (pos div 8) OR drop_bit (pos mod 8) 0x80])
      else None)"

definition bits_set8 :: "nat \<Rightarrow> bitvec \<Rightarrow> bitvec option" where
  "bits_set8 pos bits =
     (if pos div 8 + 1 < length bits
      then (let b1 = bits[pos div 8 := bits ! (pos div 8) OR drop_bit (pos mod 8) 0xFF] in
            Some (b1[pos div 8 + 1 := b1 ! (pos div 8 + 1) OR NOT (drop_bit (pos mod 8) 0xFF)]))
      else None)"

definition codeSegment :: "bitvec \<Rightarrow> nat \<Rightarrow> bool option" where
  "codeSegment bits pos =
     (if pos div 8 < length bits
      then Some (bits ! (pos div 8) AND drop_bit (pos mod 8) 0x80 = 0) else None)"

section \<open>Marking the data of a program\<close>

definition PUSH1 :: byte where "PUSH1 = 0x60"
definition PUSH32 :: byte where "PUSH32 = 0x7f"
definition JUMPDEST :: byte where "JUMPDEST = 0x5b"

fun mark8 :: "nat \<Rightarrow> nat \<Rightarrow> bitvec \<Rightarrow> (nat \<times> nat \<times> bitvec) option" where
  "mark8 numbits pc bits =
     (if 8 \<le> numbits then do { b \<leftarrow> bits_set8 pc bits; mark8 (numbits - 8) (pc + 8) b }
      else Some (numbits, pc, bits))"

fun mark1 :: "nat \<Rightarrow> nat \<Rightarrow> bitvec \<Rightarrow> (nat \<times> bitvec) option" where
  "mark1 0 pc bits = Some (pc, bits)"
| "mark1 (Suc n) pc bits = do { b \<leftarrow> bits_set pc bits; mark1 n (pc + 1) b }"

declare mark8.simps [simp del]

lemma mark8_pc: "mark8 n pc bits = Some (m, pc1, b) \<Longrightarrow> pc1 = pc + (n - m) \<and> m \<le> n \<and> m < 8"
proof (induction n pc bits rule: mark8.induct)
  case (1 n pc bits)
  show ?case
  proof (cases "8 \<le> n")
    case True
    with 1 obtain b1 where "bits_set8 pc bits = Some b1" "mark8 (n - 8) (pc + 8) b1 = Some (m, pc1, b)"
      by (auto simp: mark8.simps [of n] bind_eq_Some_conv)
    with 1 True show ?thesis by fastforce
  qed (use 1 in \<open>simp add: mark8.simps [of n]\<close>)
qed

lemma mark1_pc: "mark1 n pc bits = Some (pc1, b) \<Longrightarrow> pc1 = pc + n"
  by (induction n pc bits rule: mark1.induct) (auto simp: bind_eq_Some_conv)

function codeBitmap_loop :: "byte list \<Rightarrow> nat \<Rightarrow> bitvec \<Rightarrow> bitvec option" where
  "codeBitmap_loop code pc bits =
     (if pc < length code then
        (let op = code ! pc in
         if PUSH1 \<le> op \<and> op \<le> PUSH32 then
           (let numbits = unat (op - PUSH1 + 1) in
            case mark8 numbits (pc + 1) bits of
              None \<Rightarrow> None
            | Some (n, pc1, bits1) \<Rightarrow> (case mark1 n pc1 bits1 of
                None \<Rightarrow> None
              | Some (pc2, bits2) \<Rightarrow> codeBitmap_loop code pc2 bits2))
         else codeBitmap_loop code (pc + 1) bits)
      else Some bits)"
  by pat_completeness auto
termination
  by (relation "measure (\<lambda>(code, pc, bits). length code - pc)")
     (auto dest!: mark8_pc mark1_pc)

definition codeBitmap :: "byte list \<Rightarrow> bitvec option" where
  "codeBitmap code = codeBitmap_loop code 0 (replicate (length code div 8 + 1 + 4) 0)"

section \<open>Agreement with decoding\<close>

definition bitat :: "bitvec \<Rightarrow> nat \<Rightarrow> bool" where
  "bitat bits p = bit (bits ! (p div 8)) (7 - p mod 8)"

lemma bit_80: "j < 8 \<Longrightarrow> k < 8 \<Longrightarrow> bit (drop_bit j (0x80 :: byte)) (7 - k) \<longleftrightarrow> j = k"
proof -
  assume "j < 8" "k < 8"
  moreover have "bit (0x80 :: byte) n \<longleftrightarrow> n = 7" for n
    using bit_exp_iff [where 'a = byte, of 7 n] by (auto simp: possible_bit_def)
  ultimately show ?thesis by (simp add: bit_drop_bit_eq) linarith
qed

lemma bit_FF: "j < 8 \<Longrightarrow> k < 8 \<Longrightarrow> bit (drop_bit j (0xFF :: byte)) (7 - k) \<longleftrightarrow> j \<le> k"
proof -
  assume "j < 8" "k < 8"
  moreover have "(0xFF :: byte) = - 1" by simp
  then have "bit (0xFF :: byte) n \<longleftrightarrow> n < 8" for n
    using bit_minus_1_iff [where 'a = byte, of n] by (simp only:) (simp add: possible_bit_def)
  ultimately show ?thesis by (simp add: bit_drop_bit_eq) linarith
qed

lemma high_bit: "j < 8 \<Longrightarrow> (w :: byte) AND drop_bit j 0x80 = 0 \<longleftrightarrow> \<not> bit w (7 - j)"
proof -
  assume j: "j < 8"
  have "drop_bit j (0x80 :: byte) = push_bit (7 - j) 1"
  proof (rule bit_word_eqI)
    fix n assume "n < LENGTH(8)"
    then have "7 - n < 8" "n = 7 - (7 - n)" by auto
    then obtain k where "k < 8" "n = 7 - k" by blast
    with bit_80 [OF j, of k] j show "bit (drop_bit j (0x80 :: byte)) n = bit (push_bit (7 - j) (1 :: byte)) n"
      by (auto simp: bit_simps)
  qed
  then show ?thesis using bit_iff_and_push_bit_not_eq_0 [of w "7 - j"] by simp
qed

lemma codeSegment_bitat:
  "p div 8 < length bits \<Longrightarrow> codeSegment bits p = Some (\<not> bitat bits p)"
  by (simp add: codeSegment_def bitat_def high_bit)

lemma bit_not_FF: "j < 8 \<Longrightarrow> k < 8 \<Longrightarrow> bit (NOT (drop_bit j (0xFF :: byte))) (7 - k) \<longleftrightarrow> k < j"
  using bit_FF [of j k] by (auto simp: bit_not_iff)

lemma bits_set_at:
  assumes "q div 8 < length bits"
  shows "\<exists>b. bits_set q bits = Some b \<and> length b = length bits \<and>
    (\<forall>p. bitat b p \<longleftrightarrow> p = q \<or> bitat bits p)"
proof -
  let ?b = "bits[q div 8 := bits ! (q div 8) OR drop_bit (q mod 8) 0x80]"
  have "bitat ?b p \<longleftrightarrow> p = q \<or> bitat bits p" for p
  proof (cases "p div 8 = q div 8")
    case True
    moreover have "p = q \<longleftrightarrow> p mod 8 = q mod 8"
      using True by (metis div_mult_mod_eq)
    ultimately show ?thesis
      using assms by (auto simp: bitat_def bit_or_iff bit_80)
  qed (auto simp: bitat_def)
  with assms show ?thesis by (simp add: bits_set_def)
qed

lemma div_mod_8: "p = 8 * (p div 8) + p mod (8 :: nat)" "p mod 8 < (8 :: nat)"
  by simp_all

lemma window8:
  fixes i j k l :: nat
  assumes "k < 8" "l < 8"
  shows "8 * j + l \<le> 8 * i + k \<and> 8 * i + k < 8 * j + l + 8 \<longleftrightarrow> i = j \<and> l \<le> k \<or> i = j + 1 \<and> k < l"
  using assms by linarith

lemma bits_set8_at:
  assumes "q div 8 + 1 < length bits"
  shows "\<exists>b. bits_set8 q bits = Some b \<and> length b = length bits \<and>
    (\<forall>p. bitat b p \<longleftrightarrow> q \<le> p \<and> p < q + 8 \<or> bitat bits p)"
proof -
  define j where "j = q div 8"
  define l where "l = q mod 8"
  define b1 where "b1 = bits[j := bits ! j OR drop_bit l 0xFF]"
  define b where "b = b1[j + 1 := b1 ! (j + 1) OR NOT (drop_bit l 0xFF)]"
  have q: "q = 8 * j + l" "l < 8" using div_mod_8 [of q] by (simp_all add: j_def l_def)
  have j: "j + 1 < length bits" using assms by (simp add: j_def)
  have "bitat b p \<longleftrightarrow> q \<le> p \<and> p < q + 8 \<or> bitat bits p" for p
  proof -
    define i where "i = p div 8"
    define k where "k = p mod 8"
    have p: "p = 8 * i + k" "k < 8" using div_mod_8 [of p] by (simp_all add: i_def k_def)
    have at: "bitat c p = bit (c ! i) (7 - k)" for c by (simp add: bitat_def i_def k_def)
    have w: "q \<le> p \<and> p < q + 8 \<longleftrightarrow> i = j \<and> l \<le> k \<or> i = j + 1 \<and> k < l"
      unfolding p(1) q(1) by (rule window8 [OF p(2) q(2)])
    have "b ! i = (if i = j then bits ! i OR drop_bit l 0xFF
        else if i = j + 1 then bits ! i OR NOT (drop_bit l 0xFF) else bits ! i)"
      using j by (simp add: b_def b1_def nth_list_update)
    then show ?thesis
      unfolding at w using bit_FF [OF q(2) p(2)] bit_not_FF [OF q(2) p(2)] by (auto simp: bit_or_iff)
  qed
  moreover have "bits_set8 q bits = Some b"
    using j by (simp add: bits_set8_def b_def b1_def j_def l_def Let_def)
  ultimately show ?thesis by (auto simp: b_def b1_def)
qed

text \<open>Marking \<open>n\<close> bytes from \<open>pc\<close>, eight at a time and then one at a time.\<close>

definition marked :: "nat \<Rightarrow> nat \<Rightarrow> bitvec \<Rightarrow> bitvec \<Rightarrow> bool" where
  "marked pc n bits b \<longleftrightarrow> length b = length bits \<and>
     (\<forall>p. bitat b p \<longleftrightarrow> pc \<le> p \<and> p < pc + n \<or> bitat bits p)"

lemma marked_0 [simp]: "marked pc 0 bits bits"
  unfolding marked_def by (metis add_0_right leD)

lemma marked_trans: "marked pc n bits b \<Longrightarrow> marked (pc + n) m b c \<Longrightarrow> marked pc (n + m) bits c"
proof -
  have "pc \<le> p \<and> p < pc + (n + m) \<longleftrightarrow> pc \<le> p \<and> p < pc + n \<or> pc + n \<le> p \<and> p < pc + n + m" for p
    by linarith
  then show "marked pc n bits b \<Longrightarrow> marked (pc + n) m b c \<Longrightarrow> marked pc (n + m) bits c"
    by (simp add: marked_def) blast
qed

lemma mark1_marked:
  "(pc + n) div 8 < length bits \<Longrightarrow> \<exists>b. mark1 n pc bits = Some (pc + n, b) \<and> marked pc n bits b"
proof (induction n arbitrary: pc bits)
  case (Suc n)
  have "pc div 8 < length bits"
    using Suc.prems div_le_mono [of pc "pc + Suc n" 8] by simp
  then obtain b where b: "bits_set pc bits = Some b" "length b = length bits"
    "\<forall>p. bitat b p \<longleftrightarrow> p = pc \<or> bitat bits p" using bits_set_at by blast
  have "p = pc \<longleftrightarrow> pc \<le> p \<and> p < pc + 1" for p by linarith
  with b have m: "marked pc 1 bits b" by (simp add: marked_def)
  obtain c where "mark1 n (pc + 1) b = Some (pc + 1 + n, c)" "marked (pc + 1) n b c"
    using Suc.IH [of "pc + 1" b] Suc.prems b(2) by auto
  with b(1) marked_trans [OF m, of n c] show ?case by simp
qed simp

lemma mark8_marked:
  "(pc + n) div 8 < length bits \<Longrightarrow>
     \<exists>b. mark8 n pc bits = Some (n mod 8, pc + (n - n mod 8), b) \<and> marked pc (n - n mod 8) bits b"
proof (induction n pc bits rule: mark8.induct)
  case (1 n pc bits)
  show ?case
  proof (cases "8 \<le> n")
    case True
    then have "pc div 8 + 1 < length bits"
      using "1.prems" div_le_mono [of "pc + 8" "pc + n" 8] by simp
    then obtain b where b: "bits_set8 pc bits = Some b" "length b = length bits"
      "\<forall>p. bitat b p \<longleftrightarrow> pc \<le> p \<and> p < pc + 8 \<or> bitat bits p" using bits_set8_at by blast
    then have m: "marked pc 8 bits b" by (simp add: marked_def)
    have n: "(n - 8) mod 8 = n mod 8" "8 + (n - 8 - n mod 8) = n - n mod 8"
      using True mod_less_eq_dividend [of "n - 8" 8] by (simp_all add: le_mod_geq)
    obtain c where "mark8 (n - 8) (pc + 8) b =
        Some ((n - 8) mod 8, pc + 8 + (n - 8 - (n - 8) mod 8), c)"
      "marked (pc + 8) (n - 8 - (n - 8) mod 8) b c"
      using "1.IH" [OF True b(1)] "1.prems" b(2) True by auto
    with b(1) True marked_trans [OF m, of "n - 8 - n mod 8" c] n show ?thesis
      by (simp add: mark8.simps [of n] add.assoc)
  next
    case False
    then show ?thesis by (simp add: mark8.simps [of n])
  qed
qed

lemma push_len_le: "PUSH1 \<le> op \<Longrightarrow> op \<le> PUSH32 \<Longrightarrow> unat (op - PUSH1 + 1) \<le> 32"
proof -
  assume op: "PUSH1 \<le> op" "op \<le> PUSH32"
  then have "unat op \<le> 127" "96 \<le> unat op" by (simp_all add: word_le_nat_alt PUSH1_def PUSH32_def)
  moreover have "unat (op - PUSH1) = unat op - 96" using op(1) by (simp add: unat_sub PUSH1_def)
  ultimately show ?thesis by (simp add: unat_word_ariths)
qed

text \<open>The reference: the positions at which instructions start, by decoding from \<open>pc\<close>.\<close>

definition push_len :: "byte \<Rightarrow> nat" where
  "push_len op = (if PUSH1 \<le> op \<and> op \<le> PUSH32 then unat (op - PUSH1 + 1) else 0)"

function instr_starts :: "byte list \<Rightarrow> nat \<Rightarrow> nat set" where
  "instr_starts code pc =
     (if pc < length code
      then insert pc (instr_starts code (pc + 1 + push_len (code ! pc))) else {})"
  by pat_completeness auto
termination
  by (relation "measure (\<lambda>(code, pc). length code - pc)") auto

declare instr_starts.simps [simp del] codeBitmap_loop.simps [simp del]

lemma instr_starts_ge: "p \<in> instr_starts code pc \<Longrightarrow> pc \<le> p \<and> p < length code"
proof (induction code pc rule: instr_starts.induct)
  case (1 code pc)
  then show ?case by (fastforce simp: instr_starts.simps [of code pc] split: if_splits)
qed

lemma codeBitmap_loop_push:
  assumes "pc < length code" "PUSH1 \<le> code ! pc \<and> code ! pc \<le> PUSH32"
    "length bits = length code div 8 + 5"
  shows "\<exists>b. codeBitmap_loop code pc bits = codeBitmap_loop code (pc + 1 + push_len (code ! pc)) b \<and>
    marked (pc + 1) (push_len (code ! pc)) bits b"
proof -
  let ?n = "push_len (code ! pc)"
  have n: "?n = unat (code ! pc - PUSH1 + 1)" "?n \<le> 32"
    using assms(2) push_len_le by (simp_all add: push_len_def)
  have sz: "(pc + 1 + ?n) div 8 < length bits"
    using assms(1,3) n(2) div_le_mono [of "pc + 1 + ?n" "length code + 32" 8] by simp
  obtain b1 where b1: "mark8 ?n (pc + 1) bits = Some (?n mod 8, pc + 1 + (?n - ?n mod 8), b1)"
    "marked (pc + 1) (?n - ?n mod 8) bits b1"
    using mark8_marked [OF sz] by blast
  have e: "pc + 1 + (?n - ?n mod 8) + ?n mod 8 = pc + 1 + ?n" by simp
  obtain b2 where b2: "mark1 (?n mod 8) (pc + 1 + (?n - ?n mod 8)) b1 = Some (pc + 1 + ?n, b2)"
    "marked (pc + 1 + (?n - ?n mod 8)) (?n mod 8) b1 b2"
    using mark1_marked [of "pc + 1 + (?n - ?n mod 8)" "?n mod 8" b1, unfolded e] sz b1(2)
    by (auto simp: marked_def)
  have "marked (pc + 1) ?n bits b2" using marked_trans [OF b1(2) b2(2)] by simp
  moreover have "codeBitmap_loop code pc bits = codeBitmap_loop code (pc + 1 + ?n) b2"
    using assms(1,2) b1(1) b2(1)
    by (simp only: codeBitmap_loop.simps [of code pc] n(1) [symmetric] Let_def if_True) simp
  ultimately show ?thesis by blast
qed

lemma codeBitmap_loop_spec:
  assumes "length bits = length code div 8 + 5" "\<forall>p. pc \<le> p \<longrightarrow> p < length code \<longrightarrow> \<not> bitat bits p"
  shows "\<exists>b. codeBitmap_loop code pc bits = Some b \<and> length b = length bits \<and>
    (\<forall>p < length code. bitat b p \<longleftrightarrow>
       (if p < pc then bitat bits p else p \<notin> instr_starts code pc))"
  using assms
proof (induction "length code - pc" arbitrary: pc bits rule: less_induct)
  case less
  show ?case
  proof (cases "pc < length code")
    case False
    with less.prems show ?thesis by (simp add: codeBitmap_loop.simps [of code pc])
  next
    case lt: True
    let ?n = "push_len (code ! pc)"
    let ?pc = "pc + 1 + ?n"
    obtain c where c: "codeBitmap_loop code pc bits = codeBitmap_loop code ?pc c"
      "marked (pc + 1) ?n bits c"
    proof (cases "PUSH1 \<le> code ! pc \<and> code ! pc \<le> PUSH32")
      case True
      then show thesis using codeBitmap_loop_push [OF lt True less.prems(1)] that by blast
    next
      case False
      with lt have "codeBitmap_loop code pc bits = codeBitmap_loop code ?pc bits"
        by (auto simp: codeBitmap_loop.simps [of code pc] push_len_def Let_def)
      moreover have "?n = 0" using False by (auto simp: push_len_def)
      ultimately show thesis using that by simp
    qed
    have "length c = length code div 8 + 5" using c(2) less.prems(1) by (simp add: marked_def)
    moreover have "\<forall>p. ?pc \<le> p \<longrightarrow> p < length code \<longrightarrow> \<not> bitat c p"
      using c(2) less.prems(2) by (auto simp: marked_def)
    ultimately obtain b where b: "codeBitmap_loop code ?pc c = Some b" "length b = length c"
      "\<forall>p < length code. bitat b p \<longleftrightarrow> (if p < ?pc then bitat c p else p \<notin> instr_starts code ?pc)"
      using less.hyps [of ?pc c] lt by force
    have "bitat b p \<longleftrightarrow> (if p < pc then bitat bits p else p \<notin> instr_starts code pc)"
      if p: "p < length code" for p
    proof -
      have s: "instr_starts code pc = insert pc (instr_starts code ?pc)"
        using lt by (simp add: instr_starts.simps [of code pc])
      consider "p < pc" | "p = pc" | "pc < p" "p < ?pc" | "?pc \<le> p" by linarith
      then show ?thesis
        using b(3) c(2) less.prems(2) p instr_starts_ge [of p code ?pc]
        by cases (auto simp: marked_def s)
    qed
    with b c show ?thesis by (auto simp: marked_def)
  qed
qed

section \<open>Jump destinations\<close>

text \<open>
  \<^verbatim>\<open>destinations.has\<close> caches the bit vector of a program under the hash of its code; the
  cache is shared by the frames of a call.
\<close>

type_synonym destinations = "hash \<Rightarrow> bitvec option"

definition has :: "destinations \<Rightarrow> hash \<Rightarrow> byte list \<Rightarrow> int \<Rightarrow> (bool \<times> destinations) option" where
  "has d codehash code dest =
     (let udest = Uint64 dest in
      if 63 \<le> BitLen dest \<or> of_nat (length code) \<le> udest then Some (False, d)
      else do {
        m \<leftarrow> (case d codehash of Some m \<Rightarrow> Some m | None \<Rightarrow> codeBitmap code);
        seg \<leftarrow> (if code ! unat udest = JUMPDEST then codeSegment m (unat udest) else Some False);
        Some (seg, d(codehash \<mapsto> m))
      })"

definition coherent :: "destinations \<Rightarrow> hash \<Rightarrow> byte list \<Rightarrow> bool" where
  "coherent d codehash code \<longleftrightarrow> d codehash = None \<or> d codehash = codeBitmap code"

lemma codeBitmap_spec:
  "\<exists>b. codeBitmap code = Some b \<and> length b = length code div 8 + 5 \<and>
     (\<forall>p < length code. codeSegment b p = Some (p \<in> instr_starts code 0))"
proof -
  let ?z = "replicate (length code div 8 + 5) (0 :: byte)"
  have z: "\<not> bitat ?z p" if "p < length code" for p
    using that div_le_mono [of p "length code" 8] by (simp add: bitat_def)
  obtain b where b: "codeBitmap_loop code 0 ?z = Some b" "length b = length ?z"
    "\<forall>p < length code. bitat b p \<longleftrightarrow> p \<notin> instr_starts code 0"
    using codeBitmap_loop_spec [of ?z code 0] z by auto
  have "p div 8 < length b" if "p < length code" for p
    using that div_le_mono [of p "length code" 8] b(2) by simp
  with b have "\<forall>p < length code. codeSegment b p = Some (p \<in> instr_starts code 0)"
    by (simp add: codeSegment_bitat)
  with b show ?thesis by (simp add: codeBitmap_def add.commute)
qed

lemma has_spec:
  assumes "coherent d codehash code" "length code < 2 ^ 62" "0 \<le> dest"
  shows "\<exists>d1. has d codehash code dest =
      Some (nat dest < length code \<and> code ! nat dest = JUMPDEST \<and> nat dest \<in> instr_starts code 0, d1) \<and>
    coherent d1 codehash code"
proof -
  obtain b where b: "codeBitmap code = Some b"
    "\<forall>p < length code. codeSegment b p = Some (p \<in> instr_starts code 0)"
    using codeBitmap_spec by blast
  have m: "(case d codehash of Some m \<Rightarrow> Some m | None \<Rightarrow> codeBitmap code) = Some b"
    using assms(1) b(1) by (auto simp: coherent_def split: option.splits)
  have len: "unat (of_nat (length code) :: u64) = length code"
    using assms(2) by (simp add: unsigned_of_nat take_bit_nat_eq_self)
  show ?thesis
  proof (cases "BitLen dest < 63")
    case True
    then have "dest < 2 ^ 62" using BitLen_le [OF assms(3), of 62] by simp
    then have "dest < 2 ^ 64" by simp
    then have "uint (Uint64 dest) = dest" by (rule Uint64_small [OF assms(3)])
    then have u: "unat (Uint64 dest) = nat dest" by (simp add: unat_eq_nat_uint)
    have guard: "(63 \<le> BitLen dest \<or> of_nat (length code) \<le> Uint64 dest) = (length code \<le> nat dest)"
      using True len u by (simp add: word_le_nat_alt)
    show ?thesis
    proof (cases "length code \<le> nat dest")
      case True
      with guard assms(1) show ?thesis by (simp add: has_def Let_def)
    next
      case False
      with guard m u b assms(1) show ?thesis by (simp add: has_def Let_def coherent_def)
    qed
  next
    case False
    then have "2 ^ 62 \<le> dest" using BitLen_le [OF assms(3), of 62] by simp
    then have "\<not> nat dest < length code" using assms(2) by (simp add: nat_less_iff)
    with False assms(1) show ?thesis by (simp add: has_def Let_def)
  qed
qed

text \<open>
  C7. The jump check accepts exactly the positions where decoding the program from its
  beginning finds an instruction and that instruction is \<^verbatim>\<open>JUMPDEST\<close>: bytes that are
  arguments of a push are never accepted, nor positions outside the code, and the
  analysis never indexes outside its bit vector. It leaves the cache correct.
\<close>

theorem has_iff_jumpdest:
  assumes "coherent d codehash code" "length code < 2 ^ 62" "0 \<le> dest"
  shows "\<exists>d1. has d codehash code dest =
      Some (nat dest < length code \<and> code ! nat dest = JUMPDEST \<and> nat dest \<in> instr_starts code 0, d1) \<and>
    coherent d1 codehash code"
  using assms by (rule has_spec)

theorem has_iff_jumpdest_witness:
  "\<exists>d1. has Map.empty 0 [0x60, 0x5b, 0x5b] 1 =
      Some (nat 1 < length [0x60, 0x5b, 0x5b :: byte] \<and> [0x60, 0x5b, 0x5b] ! nat 1 = JUMPDEST \<and>
            nat 1 \<in> instr_starts [0x60, 0x5b, 0x5b] 0, d1) \<and>
    coherent d1 0 [0x60, 0x5b, 0x5b] \<and> 1 \<notin> instr_starts [0x60, 0x5b, 0x5b] 0"
  using has_iff_jumpdest [of Map.empty 0 "[0x60, 0x5b, 0x5b]" 1]
  by (simp add: coherent_def instr_starts.simps push_len_def PUSH1_def PUSH32_def)

end
