(* ===== verification/Evm_Arith.thy ===== *)
theory Evm_Arith
  imports Evm_Base "HOL-Library.Signed_Division"
begin

unbundle bit_operations_syntax

text \<open>
  The arithmetic, comparison, bitwise and shift instructions of
  \<^verbatim>\<open>src/core/vm/instructions.go\<close> on big integers, and the proof that on 256-bit values
  they compute the operations of 256-bit machine words. The functions keep the
  order in which the code pops its operands; \<open>set_top\<close> is the in-place update of the
  operand that the code peeks.
\<close>

section \<open>Instructions\<close>

definition set_top :: "int \<Rightarrow> stack \<Rightarrow> stack" where
  "set_top v st = v # tl st"

definition opAdd :: "stack \<Rightarrow> stack option" where
  "opAdd st = do { (x, st) \<leftarrow> pop st; y \<leftarrow> peek st; Some (set_top (U256 (x + y)) st) }"

definition opSub :: "stack \<Rightarrow> stack option" where
  "opSub st = do { (x, st) \<leftarrow> pop st; y \<leftarrow> peek st; Some (set_top (U256 (x - y)) st) }"

definition opMul :: "stack \<Rightarrow> stack option" where
  "opMul st = do { (x, st) \<leftarrow> pop st; (y, st) \<leftarrow> pop st; Some (push (U256 (x * y)) st) }"

definition opDiv :: "stack \<Rightarrow> stack option" where
  "opDiv st = do { (x, st) \<leftarrow> pop st; y \<leftarrow> peek st; Some (set_top (if y \<noteq> 0 then U256 (x div y) else 0) st) }"

definition opSdiv :: "stack \<Rightarrow> stack option" where
  "opSdiv st = do {
     (x, st) \<leftarrow> pop st; (y, st) \<leftarrow> pop st;
     let x = S256 x; let y = S256 y;
     Some (push
       (if y = 0 \<or> x = 0 then 0
        else U256 (if sgn x \<noteq> sgn y then - (\<bar>x\<bar> div \<bar>y\<bar>) else \<bar>x\<bar> div \<bar>y\<bar>)) st)
   }"

definition opMod :: "stack \<Rightarrow> stack option" where
  "opMod st = do { (x, st) \<leftarrow> pop st; (y, st) \<leftarrow> pop st; Some (push (if y = 0 then 0 else U256 (x mod y)) st) }"

definition opSmod :: "stack \<Rightarrow> stack option" where
  "opSmod st = do {
     (x, st) \<leftarrow> pop st; (y, st) \<leftarrow> pop st;
     let x = S256 x; let y = S256 y;
     Some (push
       (if y = 0 then 0
        else U256 (if x < 0 then - (\<bar>x\<bar> mod \<bar>y\<bar>) else \<bar>x\<bar> mod \<bar>y\<bar>)) st)
   }"

definition opExp :: "stack \<Rightarrow> stack option" where
  "opExp st = do { (x, st) \<leftarrow> pop st; (y, st) \<leftarrow> pop st; Some (push (Exp x y) st) }"

definition opSignExtend :: "stack \<Rightarrow> stack option" where
  "opSignExtend st = do {
     (back, st) \<leftarrow> pop st;
     if back < 31 then do {
       let b = unat (Uint64 back) * 8 + 7;
       (num, st) \<leftarrow> pop st;
       let mask = push_bit b 1 - 1;
       Some (push (U256 (if bit num b then num OR NOT mask else num AND mask)) st)
     } else Some st
   }"

definition opNot :: "stack \<Rightarrow> stack option" where
  "opNot st = do { x \<leftarrow> peek st; Some (set_top (U256 (NOT x)) st) }"

definition opLt :: "stack \<Rightarrow> stack option" where
  "opLt st = do { (x, st) \<leftarrow> pop st; y \<leftarrow> peek st; Some (set_top ((if x < y then 1 else 0)) st) }"

definition opGt :: "stack \<Rightarrow> stack option" where
  "opGt st = do { (x, st) \<leftarrow> pop st; y \<leftarrow> peek st; Some (set_top ((if x > y then 1 else 0)) st) }"

definition opSlt :: "stack \<Rightarrow> stack option" where
  "opSlt st = do { (x, st) \<leftarrow> pop st; y \<leftarrow> peek st; Some (set_top (if tt255 \<le> x \<and> y < tt255 then 1
      else if x < tt255 \<and> tt255 \<le> y then 0
      else if x < y then 1 else 0) st) }"

definition opSgt :: "stack \<Rightarrow> stack option" where
  "opSgt st = do { (x, st) \<leftarrow> pop st; y \<leftarrow> peek st; Some (set_top (if tt255 \<le> x \<and> y < tt255 then 0
      else if x < tt255 \<and> tt255 \<le> y then 1
      else if x > y then 1 else 0) st) }"

definition opEq :: "stack \<Rightarrow> stack option" where
  "opEq st = do { (x, st) \<leftarrow> pop st; y \<leftarrow> peek st; Some (set_top ((if x = y then 1 else 0)) st) }"

definition opIszero :: "stack \<Rightarrow> stack option" where
  "opIszero st = do { x \<leftarrow> peek st; Some (set_top (if x > 0 then 0 else 1) st) }"

definition opAnd :: "stack \<Rightarrow> stack option" where
  "opAnd st = do { (x, st) \<leftarrow> pop st; (y, st) \<leftarrow> pop st; Some (push (x AND y) st) }"

definition opOr :: "stack \<Rightarrow> stack option" where
  "opOr st = do { (x, st) \<leftarrow> pop st; y \<leftarrow> peek st; Some (set_top (x OR y) st) }"

definition opXor :: "stack \<Rightarrow> stack option" where
  "opXor st = do { (x, st) \<leftarrow> pop st; y \<leftarrow> peek st; Some (set_top (x XOR y) st) }"

definition opByte :: "stack \<Rightarrow> stack option" where
  "opByte st = do { (x, st) \<leftarrow> pop st; y \<leftarrow> peek st; Some (set_top (if x < 32 then uint (Byte y 32 (nat (Int64 x))) else 0) st) }"

definition opAddmod :: "stack \<Rightarrow> stack option" where
  "opAddmod st = do {
     (x, st) \<leftarrow> pop st; (y, st) \<leftarrow> pop st; (z, st) \<leftarrow> pop st;
     Some (push (if z > 0 then U256 ((x + y) mod z) else 0) st)
   }"

definition opMulmod :: "stack \<Rightarrow> stack option" where
  "opMulmod st = do {
     (x, st) \<leftarrow> pop st; (y, st) \<leftarrow> pop st; (z, st) \<leftarrow> pop st;
     Some (push (if z > 0 then U256 ((x * y) mod z) else 0) st)
   }"

definition opSHL :: "stack \<Rightarrow> stack option" where
  "opSHL st = do {
     (s, st) \<leftarrow> pop st; y \<leftarrow> peek st;
     let shift = U256 s; let val = U256 y;
     Some (set_top (if 256 \<le> shift then 0 else U256 (push_bit (unat (Uint64 shift)) val)) st)
   }"

definition opSHR :: "stack \<Rightarrow> stack option" where
  "opSHR st = do {
     (s, st) \<leftarrow> pop st; y \<leftarrow> peek st;
     let shift = U256 s; let val = U256 y;
     Some (set_top (if 256 \<le> shift then 0 else U256 (drop_bit (unat (Uint64 shift)) val)) st)
   }"

definition opSAR :: "stack \<Rightarrow> stack option" where
  "opSAR st = do {
     (s, st) \<leftarrow> pop st; (y, st) \<leftarrow> pop st;
     let shift = U256 s; let val = S256 y;
     Some (push (if 256 \<le> shift then U256 (if val > 0 then 0 else - 1)
                 else U256 (drop_bit (unat (Uint64 shift)) val)) st)
   }"


section \<open>256-bit words\<close>

text \<open>The stack that holds given 256-bit words.\<close>

definition words :: "256 word list \<Rightarrow> stack" where
  "words ws = map uint ws"

lemma words_Cons [simp]: "words (w # ws) = uint w # words ws" "words [] = []"
  by (simp_all add: words_def)

lemma set_top_Cons [simp]: "set_top v (x # st) = v # st"
  by (simp add: set_top_def)

lemma uint_256 [simp]: "U256 (uint (w :: 256 word)) = uint w"
  by (simp add: U256_word)

lemma uint_256_less: "uint (w :: 256 word) < 2 ^ 256"
  using uint_lt2p [of w] by simp

lemma uint_eq_iff:
  fixes x y :: "'a::len word"
  shows "uint x = uint y \<longleftrightarrow> x = y" "uint x = 0 \<longleftrightarrow> x = 0" "0 < uint x \<longleftrightarrow> x \<noteq> 0"
  by (metis word_uint_eqI) (metis uint_0_iff, metis uint_0_iff uint_ge_0 order_less_le)

lemma sint_eq_0: "sint (x :: 'a::len word) = 0 \<longleftrightarrow> x = 0"
  by (metis signed_eq_0_iff)

text \<open>Ring operations.\<close>

lemma opAdd_words: "opAdd (words (x # y # ws)) = Some (words ((x + y) # ws))"
  by (simp add: opAdd_def U256_word)

lemma opSub_words: "opSub (words (x # y # ws)) = Some (words ((x - y) # ws))"
  by (simp add: opSub_def U256_word)

lemma opMul_words: "opMul (words (x # y # ws)) = Some (words ((x * y) # ws))"
  by (simp add: opMul_def U256_word)

lemma opExp_words: "opExp (words (x # y # ws)) = Some (words ((x ^ unat y) # ws))"
proof -
  have "uint x ^ unat y mod 2 ^ 256 = U256 (uint x ^ unat y)" by (simp only: U256_mod)
  also have "\<dots> = uint (x ^ unat y)" by (simp add: U256_word)
  finally show ?thesis by (simp add: opExp_def Exp_eq)
qed

text \<open>Division; a division by zero gives zero.\<close>

lemma opDiv_words: "opDiv (words (x # y # ws)) = Some (words ((x div y) # ws))"
  by (simp add: opDiv_def U256_word word_div_def uint_eq_iff)

lemma opMod_words:
  "opMod (words (x # y # ws)) = Some (words ((if y = 0 then 0 else x mod y) # ws))"
  by (simp add: opMod_def U256_word word_mod_def uint_eq_iff)

lemma opAddmod_words:
  "opAddmod (words (x # y # z # ws)) =
     Some (words ((if z = 0 then 0 else word_of_int ((uint x + uint y) mod uint z)) # ws))"
  by (simp add: opAddmod_def U256_word uint_eq_iff)

lemma opMulmod_words:
  "opMulmod (words (x # y # z # ws)) =
     Some (words ((if z = 0 then 0 else word_of_int (uint x * uint y mod uint z)) # ws))"
  by (simp add: opMulmod_def U256_word uint_eq_iff)

lemma opSdiv_words:
  "opSdiv (words (x # y # ws)) = Some (words (word_of_int (sint x sdiv sint y) # ws))"
proof -
  have "sint x sdiv sint y = sgn (sint x) * sgn (sint y) * (\<bar>sint x\<bar> div \<bar>sint y\<bar>)"
    by (simp only: signed_divide_int_def)
  then show ?thesis
    by (simp add: opSdiv_def S256_uint U256_word sgn_if Let_def)
qed

lemma opSmod_words:
  "opSmod (words (x # y # ws)) =
     Some (words ((if y = 0 then 0 else word_of_int (sint x smod sint y)) # ws))"
proof -
  have "sint x smod sint y = sgn (sint x) * (\<bar>sint x\<bar> mod \<bar>sint y\<bar>)"
    by (simp only: signed_modulo_int_def)
  moreover have "sint y = 0 \<longleftrightarrow> y = 0" by (rule sint_eq_0)
  ultimately show ?thesis
    by (simp add: opSmod_def S256_uint U256_word sgn_if Let_def)
qed

text \<open>Comparisons.\<close>

lemma opLt_words: "opLt (words (x # y # ws)) = Some (words (of_bool (x < y) # ws))"
  by (simp add: opLt_def word_less_def)

lemma opGt_words: "opGt (words (x # y # ws)) = Some (words (of_bool (y < x) # ws))"
  by (simp add: opGt_def word_less_def)

lemma S256_less:
  assumes "0 \<le> a" "a < 2 ^ 256" "0 \<le> b" "b < 2 ^ 256"
  shows "S256 a < S256 b \<longleftrightarrow>
    (tt255 \<le> a \<and> b < tt255) \<or> \<not> (a < tt255 \<and> tt255 \<le> b) \<and> a < b"
  using assms by (auto simp: S256_def tt255_def tt256_def)

lemma sless_iff:
  "(x :: 256 word) <s y \<longleftrightarrow>
     (tt255 \<le> uint x \<and> uint y < tt255) \<or> \<not> (uint x < tt255 \<and> tt255 \<le> uint y) \<and> uint x < uint y"
  using S256_less [of "uint x" "uint y"] uint_256_less [of x] uint_256_less [of y]
  by (simp add: word_sless_alt S256_uint)

lemma opSlt_words: "opSlt (words (x # y # ws)) = Some (words (of_bool (x <s y) # ws))"
  by (simp add: opSlt_def sless_iff)

lemma opSgt_words: "opSgt (words (x # y # ws)) = Some (words (of_bool (y <s x) # ws))"
  by (simp add: opSgt_def sless_iff)

lemma opEq_words: "opEq (words (x # y # ws)) = Some (words (of_bool (x = y) # ws))"
  by (simp add: opEq_def uint_eq_iff)

lemma opIszero_words: "opIszero (words (x # ws)) = Some (words (of_bool (x = 0) # ws))"
  by (simp add: opIszero_def uint_eq_iff)

text \<open>Bitwise operations and shifts.\<close>

lemma opAnd_words: "opAnd (words (x # y # ws)) = Some (words ((x AND y) # ws))"
  by (simp add: opAnd_def unsigned_and_eq)

lemma opOr_words: "opOr (words (x # y # ws)) = Some (words ((x OR y) # ws))"
  by (simp add: opOr_def unsigned_or_eq)

lemma opXor_words: "opXor (words (x # y # ws)) = Some (words ((x XOR y) # ws))"
  by (simp add: opXor_def unsigned_xor_eq)

lemma opNot_words: "opNot (words (x # ws)) = Some (words (NOT x # ws))"
  by (simp add: opNot_def U256_word of_int_not_eq)

lemma opByte_words:
  "opByte (words (x # y # ws)) =
     Some (words ((if x < 32 then drop_bit (8 * (31 - unat x)) y AND 0xFF else 0) # ws))"
proof (cases "x < 32")
  case True
  then have x: "uint x < 32" by (simp add: word_less_def)
  then have n: "nat (Int64 (uint x)) = unat x" "unat x < 32"
    using nat_less_iff [of "uint x" 32] by (simp_all add: Int64_small)
  have "uint (word_of_int (uint y div 256 ^ (31 - unat x)) :: byte) =
        take_bit 8 (drop_bit (8 * (31 - unat x)) (uint y))"
    by (simp add: unsigned_of_int drop_bit_eq_div power_mult)
  also have "\<dots> = uint (take_bit 8 (drop_bit (8 * (31 - unat x)) y))"
    by (rule bit_eqI) (simp add: bit_simps)
  finally show ?thesis using x n True
    by (simp add: opByte_def Byte_def bigEndianByteAt_eq take_bit_eq_mask mask_eq_exp_minus_1)
qed (simp add: opByte_def word_less_def)

lemma shift_small:
  "\<not> 256 \<le> uint (s :: 256 word) \<Longrightarrow> unat (Uint64 (uint s)) = unat s"
  using Uint64_small [of "uint s"] by (simp flip: nat_uint_eq)

lemma shift_big: "256 \<le> uint (s :: 256 word) \<Longrightarrow> 256 \<le> unat s"
  by (simp flip: nat_uint_eq add: le_nat_iff)

lemma word_of_int_shifts:
  fixes x :: "'a::len word"
  shows "word_of_int (push_bit n (uint x)) = push_bit n x"
    and "word_of_int (drop_bit n (uint x)) = drop_bit n x"
    and "word_of_int (drop_bit n (sint x)) = signed_drop_bit n x"
proof -
  show "word_of_int (push_bit n (uint x)) = push_bit n x"
    by (rule bit_word_eqI) (auto simp: bit_simps)
  show "word_of_int (drop_bit n (uint x)) = drop_bit n x"
    by (rule bit_word_eqI) (auto simp: bit_simps dest: bit_imp_le_length)
  show "word_of_int (drop_bit n (sint x)) = signed_drop_bit n x"
    by (simp flip: sint_signed_drop_bit_eq)
qed

lemma opSHL_words: "opSHL (words (s # x # ws)) = Some (words (push_bit (unat s) x # ws))"
proof (cases "256 \<le> uint s")
  case True
  then have "push_bit (unat s) x = 0"
    by (intro bit_word_eqI) (use shift_big in \<open>auto simp: bit_simps\<close>)
  with True show ?thesis by (simp add: opSHL_def)
next
  case False
  then show ?thesis
    by (simp add: opSHL_def shift_small U256_word word_of_int_shifts)
qed

lemma opSHR_words: "opSHR (words (s # x # ws)) = Some (words (drop_bit (unat s) x # ws))"
proof (cases "256 \<le> uint s")
  case True
  then have "drop_bit (unat s) x = 0"
    by (intro bit_word_eqI) (use shift_big in \<open>auto simp: bit_simps dest: bit_imp_le_length\<close>)
  with True show ?thesis by (simp add: opSHR_def)
next
  case False
  then show ?thesis
    by (simp add: opSHR_def shift_small U256_word word_of_int_shifts)
qed

lemma zdiv_eq_minus1:
  assumes "a < 0" "- a < b"
  shows "a div b = (- 1 :: int)"
  using assms int_div_pos_eq [of a b "- 1" "a + b"] by simp

lemma signed_drop_bit_big:
  fixes x :: "256 word"
  assumes "256 \<le> n"
  shows "signed_drop_bit n x = (if 0 \<le> sint x then 0 else - 1)"
proof -
  have "\<bar>sint x\<bar> \<le> 2 ^ 255" using sint_ge [of x] sint_lt [of x] by auto
  also have "\<dots> < 2 ^ n"
    using assms by (intro power_strict_increasing) auto
  finally have "drop_bit n (sint x) = (if 0 \<le> sint x then 0 else - 1)"
    using zdiv_eq_minus1 [of "sint x" "2 ^ n"]
    by (auto simp: drop_bit_eq_div div_pos_pos_trivial)
  then show ?thesis by (simp flip: word_of_int_shifts(3))
qed

lemma opSAR_words:
  "opSAR (words (s # x # ws)) =
     Some (words ((if 256 \<le> s \<and> x = 0 then - 1 else signed_drop_bit (unat s) x) # ws))"
proof (cases "256 \<le> uint s")
  case True
  with sint_eq_0 [of x] signed_drop_bit_big [OF shift_big [OF True], of x] show ?thesis
    by (auto simp: opSAR_def word_le_def S256_uint U256_word Let_def)
next
  case False
  then show ?thesis
    by (simp add: opSAR_def shift_small S256_uint U256_word word_of_int_shifts word_le_def)
qed

lemma signed_take_bit_mask:
  "signed_take_bit b n = (if bit n b then n OR NOT (mask b) else n AND mask b)" for n :: int
  by (rule bit_eqI) (auto simp: bit_simps min_def not_less le_less)

lemma opSignExtend_words:
  "opSignExtend (words (k # x # ws)) =
     Some (words ((if k < 31 then word_of_int (signed_take_bit (8 * unat k + 7) (uint x)) else x) # ws))"
proof (cases "k < 31")
  case True
  then have "uint k < 31" by (simp add: word_less_def)
  moreover from this have "unat (Uint64 (uint k)) = unat k" by (intro shift_small) simp
  moreover have "push_bit b 1 - 1 = (mask b :: int)" for b
    by (simp add: push_bit_eq_mult mask_eq_exp_minus_1)
  ultimately show ?thesis
    using True by (simp add: opSignExtend_def U256_word signed_take_bit_mask mult.commute)
qed (simp add: opSignExtend_def word_less_def)

lemmas arith_words =
  opAdd_words opSub_words opMul_words opExp_words opDiv_words
  opMod_words opAddmod_words opMulmod_words opSdiv_words opSmod_words
  opLt_words opGt_words opSlt_words opSgt_words opEq_words
  opIszero_words opAnd_words opOr_words opXor_words opNot_words
  opByte_words opSHL_words opSHR_words opSAR_words opSignExtend_words

text \<open>
  C8. The arithmetic, comparison, bitwise and shift instructions compute the operations
  of 256-bit machine words: the big-integer code with its explicit reductions, its sign
  conversions and its square-and-multiply loop agrees with two's complement words on
  every operand, and touches nothing below its operands. The one deviation is
  \<^verbatim>\<open>SAR\<close>, which turns zero into minus one when the shift is at least 256.
\<close>

theorem arithmetic_refines_words:
  "opAdd (words (x # y # ws)) = Some (words ((x + y) # ws)) \<and>
   opSub (words (x # y # ws)) = Some (words ((x - y) # ws)) \<and>
   opMul (words (x # y # ws)) = Some (words ((x * y) # ws)) \<and>
   opExp (words (x # y # ws)) = Some (words ((x ^ unat y) # ws)) \<and>
   opDiv (words (x # y # ws)) = Some (words ((x div y) # ws)) \<and>
   opMod (words (x # y # ws)) = Some (words ((if y = 0 then 0 else x mod y) # ws)) \<and>
   opAddmod (words (x # y # z # ws)) =
     Some (words ((if z = 0 then 0 else word_of_int ((uint x + uint y) mod uint z)) # ws)) \<and>
   opMulmod (words (x # y # z # ws)) =
     Some (words ((if z = 0 then 0 else word_of_int (uint x * uint y mod uint z)) # ws)) \<and>
   opSdiv (words (x # y # ws)) = Some (words (word_of_int (sint x sdiv sint y) # ws)) \<and>
   opSmod (words (x # y # ws)) =
     Some (words ((if y = 0 then 0 else word_of_int (sint x smod sint y)) # ws)) \<and>
   opLt (words (x # y # ws)) = Some (words (of_bool (x < y) # ws)) \<and>
   opGt (words (x # y # ws)) = Some (words (of_bool (y < x) # ws)) \<and>
   opSlt (words (x # y # ws)) = Some (words (of_bool (x <s y) # ws)) \<and>
   opSgt (words (x # y # ws)) = Some (words (of_bool (y <s x) # ws)) \<and>
   opEq (words (x # y # ws)) = Some (words (of_bool (x = y) # ws)) \<and>
   opIszero (words (x # ws)) = Some (words (of_bool (x = 0) # ws)) \<and>
   opAnd (words (x # y # ws)) = Some (words ((x AND y) # ws)) \<and>
   opOr (words (x # y # ws)) = Some (words ((x OR y) # ws)) \<and>
   opXor (words (x # y # ws)) = Some (words ((x XOR y) # ws)) \<and>
   opNot (words (x # ws)) = Some (words (NOT x # ws)) \<and>
   opByte (words (x # y # ws)) =
     Some (words ((if x < 32 then drop_bit (8 * (31 - unat x)) y AND 0xFF else 0) # ws)) \<and>
   opSHL (words (s # x # ws)) = Some (words (push_bit (unat s) x # ws)) \<and>
   opSHR (words (s # x # ws)) = Some (words (drop_bit (unat s) x # ws)) \<and>
   opSAR (words (s # x # ws)) =
     Some (words ((if 256 \<le> s \<and> x = 0 then - 1 else signed_drop_bit (unat s) x) # ws)) \<and>
   opSignExtend (words (k # x # ws)) =
     Some (words ((if k < 31 then word_of_int (signed_take_bit (8 * unat k + 7) (uint x)) else x) # ws))"
  by (intro conjI arith_words)

end
