(* ===== verification/Evm_Machine.thy ===== *)
theory Evm_Machine
  imports State_Revert Evm_Jumpdest Evm_Arith
begin

text \<open>
  The state of the virtual machine (\<^verbatim>\<open>src/core/vm\<close>): opcodes, errors, contracts,
  frames, the part of \<^verbatim>\<open>EVM\<close> and \<^verbatim>\<open>Interpreter\<close> that changes during a transaction,
  and the part that does not, together with the value transfer of \<^verbatim>\<open>src/core/evm.go\<close>.

  Empty byte slices and nil are one value. The pool of big integers only recycles
  storage and is left out, as are the tracer and the abort flag.
\<close>

section \<open>Opcodes\<close>

named_theorems opcode_simps \<open>the bytes of the opcodes\<close>

definition STOP :: byte where [opcode_simps]: "STOP = 0x00"
definition ADD :: byte where [opcode_simps]: "ADD = 0x01"
definition MUL :: byte where [opcode_simps]: "MUL = 0x02"
definition SUB :: byte where [opcode_simps]: "SUB = 0x03"
definition DIV :: byte where [opcode_simps]: "DIV = 0x04"
definition SDIV :: byte where [opcode_simps]: "SDIV = 0x05"
definition MOD :: byte where [opcode_simps]: "MOD = 0x06"
definition SMOD :: byte where [opcode_simps]: "SMOD = 0x07"
definition ADDMOD :: byte where [opcode_simps]: "ADDMOD = 0x08"
definition MULMOD :: byte where [opcode_simps]: "MULMOD = 0x09"
definition EXP :: byte where [opcode_simps]: "EXP = 0x0a"
definition SIGNEXTEND :: byte where [opcode_simps]: "SIGNEXTEND = 0x0b"
definition LT :: byte where [opcode_simps]: "LT = 0x10"
definition GT :: byte where [opcode_simps]: "GT = 0x11"
definition SLT :: byte where [opcode_simps]: "SLT = 0x12"
definition SGT :: byte where [opcode_simps]: "SGT = 0x13"
definition EQ :: byte where [opcode_simps]: "EQ = 0x14"
definition ISZERO :: byte where [opcode_simps]: "ISZERO = 0x15"
definition AND_OP :: byte where [opcode_simps]: "AND_OP = 0x16"
definition OR_OP :: byte where [opcode_simps]: "OR_OP = 0x17"
definition XOR_OP :: byte where [opcode_simps]: "XOR_OP = 0x18"
definition NOT_OP :: byte where [opcode_simps]: "NOT_OP = 0x19"
definition BYTE :: byte where [opcode_simps]: "BYTE = 0x1a"
definition SHL :: byte where [opcode_simps]: "SHL = 0x1b"
definition SHR :: byte where [opcode_simps]: "SHR = 0x1c"
definition SAR :: byte where [opcode_simps]: "SAR = 0x1d"
definition SHA3 :: byte where [opcode_simps]: "SHA3 = 0x20"
definition ADDRESS :: byte where [opcode_simps]: "ADDRESS = 0x30"
definition BALANCE :: byte where [opcode_simps]: "BALANCE = 0x31"
definition ORIGIN :: byte where [opcode_simps]: "ORIGIN = 0x32"
definition CALLER :: byte where [opcode_simps]: "CALLER = 0x33"
definition CALLVALUE :: byte where [opcode_simps]: "CALLVALUE = 0x34"
definition CALLDATALOAD :: byte where [opcode_simps]: "CALLDATALOAD = 0x35"
definition CALLDATASIZE :: byte where [opcode_simps]: "CALLDATASIZE = 0x36"
definition CALLDATACOPY :: byte where [opcode_simps]: "CALLDATACOPY = 0x37"
definition CODESIZE :: byte where [opcode_simps]: "CODESIZE = 0x38"
definition CODECOPY :: byte where [opcode_simps]: "CODECOPY = 0x39"
definition GASPRICE :: byte where [opcode_simps]: "GASPRICE = 0x3a"
definition EXTCODESIZE :: byte where [opcode_simps]: "EXTCODESIZE = 0x3b"
definition EXTCODECOPY :: byte where [opcode_simps]: "EXTCODECOPY = 0x3c"
definition RETURNDATASIZE :: byte where [opcode_simps]: "RETURNDATASIZE = 0x3d"
definition RETURNDATACOPY :: byte where [opcode_simps]: "RETURNDATACOPY = 0x3e"
definition BLOCKHASH :: byte where [opcode_simps]: "BLOCKHASH = 0x40"
definition COINBASE :: byte where [opcode_simps]: "COINBASE = 0x41"
definition TIMESTAMP :: byte where [opcode_simps]: "TIMESTAMP = 0x42"
definition NUMBER :: byte where [opcode_simps]: "NUMBER = 0x43"
definition DIFFICULTY :: byte where [opcode_simps]: "DIFFICULTY = 0x44"
definition GASLIMIT :: byte where [opcode_simps]: "GASLIMIT = 0x45"
definition POP :: byte where [opcode_simps]: "POP = 0x50"
definition MLOAD :: byte where [opcode_simps]: "MLOAD = 0x51"
definition MSTORE :: byte where [opcode_simps]: "MSTORE = 0x52"
definition MSTORE8 :: byte where [opcode_simps]: "MSTORE8 = 0x53"
definition SLOAD :: byte where [opcode_simps]: "SLOAD = 0x54"
definition SSTORE :: byte where [opcode_simps]: "SSTORE = 0x55"
definition JUMP :: byte where [opcode_simps]: "JUMP = 0x56"
definition JUMPI :: byte where [opcode_simps]: "JUMPI = 0x57"
definition PC :: byte where [opcode_simps]: "PC = 0x58"
definition MSIZE :: byte where [opcode_simps]: "MSIZE = 0x59"
definition GAS :: byte where [opcode_simps]: "GAS = 0x5a"
definition DUP1 :: byte where [opcode_simps]: "DUP1 = 0x80"
definition SWAP1 :: byte where [opcode_simps]: "SWAP1 = 0x90"
definition LOG0 :: byte where [opcode_simps]: "LOG0 = 0xa0"
definition CREATE :: byte where [opcode_simps]: "CREATE = 0xf0"
definition CALL :: byte where [opcode_simps]: "CALL = 0xf1"
definition CALLCODE :: byte where [opcode_simps]: "CALLCODE = 0xf2"
definition RETURN :: byte where [opcode_simps]: "RETURN = 0xf3"
definition DELEGATECALL :: byte where [opcode_simps]: "DELEGATECALL = 0xf4"
definition STATICCALL :: byte where [opcode_simps]: "STATICCALL = 0xfa"
definition REVERT :: byte where [opcode_simps]: "REVERT = 0xfd"
definition SELFDESTRUCT :: byte where [opcode_simps]: "SELFDESTRUCT = 0xff"

declare PUSH1_def [opcode_simps] PUSH32_def [opcode_simps] JUMPDEST_def [opcode_simps]

section \<open>Protocol constants and gas table\<close>

abbreviation (input) GasQuickStep :: u64 where "GasQuickStep \<equiv> 2"
abbreviation (input) GasFastestStep :: u64 where "GasFastestStep \<equiv> 3"
abbreviation (input) GasFastStep :: u64 where "GasFastStep \<equiv> 5"
abbreviation (input) GasMidStep :: u64 where "GasMidStep \<equiv> 8"
abbreviation (input) GasSlowStep :: u64 where "GasSlowStep \<equiv> 10"
abbreviation (input) GasExtStep :: u64 where "GasExtStep \<equiv> 20"

abbreviation (input) CallValueTransferGas :: u64 where "CallValueTransferGas \<equiv> 9000"
abbreviation (input) CallNewAccountGas :: u64 where "CallNewAccountGas \<equiv> 25000"
abbreviation (input) QuadCoeffDiv :: u64 where "QuadCoeffDiv \<equiv> 512"
abbreviation (input) SstoreSetGas :: u64 where "SstoreSetGas \<equiv> 20000"
abbreviation (input) LogDataGas :: u64 where "LogDataGas \<equiv> 8"
abbreviation (input) CallStipend :: u64 where "CallStipend \<equiv> 2300"
abbreviation (input) Sha3Gas :: u64 where "Sha3Gas \<equiv> 30"
abbreviation (input) Sha3WordGas :: u64 where "Sha3WordGas \<equiv> 6"
abbreviation (input) SstoreResetGas :: u64 where "SstoreResetGas \<equiv> 5000"
abbreviation (input) SstoreClearGas :: u64 where "SstoreClearGas \<equiv> 5000"
abbreviation (input) SstoreRefundGas :: u64 where "SstoreRefundGas \<equiv> 15000"
abbreviation (input) JumpdestGas :: u64 where "JumpdestGas \<equiv> 1"
abbreviation (input) CreateDataGas :: u64 where "CreateDataGas \<equiv> 200"
abbreviation (input) CallCreateDepth :: nat where "CallCreateDepth \<equiv> 1024"
abbreviation (input) LogGas :: u64 where "LogGas \<equiv> 375"
abbreviation (input) CopyGas :: u64 where "CopyGas \<equiv> 3"
abbreviation (input) StackLimit :: nat where "StackLimit \<equiv> 1024"
abbreviation (input) LogTopicGas :: u64 where "LogTopicGas \<equiv> 375"
abbreviation (input) CreateGas :: u64 where "CreateGas \<equiv> 32000"
abbreviation (input) SuicideRefundGas :: u64 where "SuicideRefundGas \<equiv> 24000"
abbreviation (input) MemoryGas :: u64 where "MemoryGas \<equiv> 3"
abbreviation (input) MaxCodeSize :: nat where "MaxCodeSize \<equiv> 24576"

record GasTable =
  ExtcodeSize :: u64
  ExtcodeCopy :: u64
  BalanceGas :: u64
  SLoad :: u64
  Calls :: u64
  SuicideGas :: u64
  ExpByte :: u64
  CreateBySuicide :: u64

definition GasTableHomestead :: GasTable where
  "GasTableHomestead = \<lparr>ExtcodeSize = 20, ExtcodeCopy = 20, BalanceGas = 20, SLoad = 50,
     Calls = 40, SuicideGas = 0, ExpByte = 10, CreateBySuicide = 0\<rparr>"

lemma GasTableHomestead_simps [simp]:
  "ExtcodeSize GasTableHomestead = 20" "ExtcodeCopy GasTableHomestead = 20"
  "BalanceGas GasTableHomestead = 20" "SLoad GasTableHomestead = 50"
  "Calls GasTableHomestead = 40" "SuicideGas GasTableHomestead = 0"
  "ExpByte GasTableHomestead = 10" "CreateBySuicide GasTableHomestead = 0"
  by (simp_all add: GasTableHomestead_def)

section \<open>Errors\<close>

datatype vmerr =
    ErrOutOfGas | ErrCodeStoreOutOfGas | ErrDepth | ErrInsufficientBalance
  | ErrContractAddressCollision | errWriteProtection | errReturnDataOutOfBounds
  | errExecutionReverted | errMaxCodeSizeExceeded | errGasUintOverflow
  | ErrInvalidOpcode byte | ErrStackUnderflow nat nat | ErrStackLimit nat
  | ErrInvalidJump byte int | ErrPrecompile string

section \<open>Contracts\<close>

record Contract =
  CallerAddress :: address
  cSelf :: address
  cCode :: "byte list"
  cCodeHash :: hash
  cCodeAddr :: "address option"
  cInput :: "byte list"
  cGas :: u64
  cValue :: int
  cDelegateCall :: bool

text \<open>
  A caller is an account or a running contract. \<^verbatim>\<open>NewContract\<close> shares the jump
  destinations of a calling contract; the shared map is part of the machine below.
\<close>

datatype ContractRef = AccountRef address | ContractOf Contract

fun ref_Address :: "ContractRef \<Rightarrow> address" where
  "ref_Address (AccountRef a) = a"
| "ref_Address (ContractOf c) = cSelf c"

definition NewContract :: "ContractRef \<Rightarrow> address \<Rightarrow> int \<Rightarrow> u64 \<Rightarrow> Contract" where
  "NewContract caller object val gas =
     \<lparr>CallerAddress = ref_Address caller, cSelf = object, cCode = [], cCodeHash = 0,
      cCodeAddr = None, cInput = [], cGas = gas, cValue = val, cDelegateCall = False\<rparr>"

text \<open>The type assertion panics when the caller is not a contract.\<close>

definition AsDelegate :: "ContractRef \<Rightarrow> Contract \<Rightarrow> Contract option" where
  "AsDelegate caller c = (case caller of
     AccountRef a \<Rightarrow> None
   | ContractOf parent \<Rightarrow>
       Some (c\<lparr>cDelegateCall := True, CallerAddress := CallerAddress parent, cValue := cValue parent\<rparr>))"

definition GetByte :: "Contract \<Rightarrow> u64 \<Rightarrow> byte" where
  "GetByte c n = (if n < of_nat (length (cCode c)) then cCode c ! unat n else 0)"

definition GetOp :: "Contract \<Rightarrow> u64 \<Rightarrow> byte" where
  "GetOp c n = GetByte c n"

definition UseGas :: "u64 \<Rightarrow> Contract \<Rightarrow> bool \<times> Contract" where
  "UseGas gas c = (if cGas c < gas then (False, c) else (True, c\<lparr>cGas := cGas c - gas\<rparr>))"

definition SetCallCode :: "address \<Rightarrow> hash \<Rightarrow> byte list \<Rightarrow> Contract \<Rightarrow> Contract" where
  "SetCallCode a h c ct = ct\<lparr>cCode := c, cCodeHash := h, cCodeAddr := Some a\<rparr>"

section \<open>The machine\<close>

record precompile =
  RequiredGas :: "byte list \<Rightarrow> u64"
  PRun :: "byte list \<Rightarrow> (byte list \<times> vmerr option) option"

record vm_env =
  Origin :: address
  GasPrice :: int
  Coinbase :: address
  GasLimit :: u64
  BlockNumber :: int
  Time :: int
  GetHash :: "u64 \<Rightarrow> hash"
  NoRecursion :: bool
  EnablePreimageRecording :: bool
  precompiles :: "address \<Rightarrow> precompile option"
  CreateAddress :: "address \<Rightarrow> u64 \<Rightarrow> address"
  sdbE :: sdb_env

text \<open>
  \<open>depth\<close> and \<open>callGasTemp\<close> are fields of \<^verbatim>\<open>EVM\<close>, \<open>readOnly\<close> and \<open>returnData\<close> of
  \<^verbatim>\<open>Interpreter\<close>; \<open>jumpdests\<close> is the map that the contracts of one call tree share.
\<close>

record vm =
  sdb :: stateDB
  depth :: nat
  readOnly :: bool
  returnData :: "byte list"
  jumpdests :: destinations
  callGasTemp :: u64

record frame =
  pc :: u64
  stk :: stack
  mem :: Memory
  ctr :: Contract

definition BigToAddress :: "int \<Rightarrow> address" where
  "BigToAddress x = word_of_int \<bar>x\<bar>"

definition BigToHash :: "int \<Rightarrow> hash" where
  "BigToHash x = word_of_int \<bar>x\<bar>"

section \<open>Value transfer\<close>

definition CanTransfer :: "stateDB \<Rightarrow> address \<Rightarrow> int \<Rightarrow> bool \<times> stateDB" where
  "CanTransfer s a amount = (case GetBalance a s of (b, s1) \<Rightarrow> (amount \<le> b, s1))"

definition Transfer :: "sdb_env \<Rightarrow> address \<Rightarrow> address \<Rightarrow> int \<Rightarrow> stateDB \<Rightarrow> stateDB option" where
  "Transfer E sender recipient amount s = do {
     s1 \<leftarrow> SubBalanceAndWeight E sender amount s;
     AddBalanceAndWeight E recipient amount s1
   }"

end
