(* ===== verification/Evm_Gas.thy ===== *)
theory Evm_Gas
  imports Evm_Machine
begin

text \<open>
  Memory sizes (\<^verbatim>\<open>src/core/vm/memory_table.go\<close>), stack validation
  (\<^verbatim>\<open>stack_table.go\<close>) and gas costs (\<^verbatim>\<open>gas.go\<close>, \<^verbatim>\<open>gas_table.go\<close>).

  A gas function returns the gas or an error, together with the memory (whose last cost
  it may update) and the machine (state reads, refunds, the gas handed to a call). Its
  only error is \<^term>\<open>errGasUintOverflow\<close>, written \<^term>\<open>None\<close> in the inner option; the
  outer option is a panic.
\<close>

section \<open>Memory sizes\<close>

definition mem_range :: "nat \<Rightarrow> nat \<Rightarrow> stack \<Rightarrow> int option" where
  "mem_range i j st = do { off \<leftarrow> Back st i; l \<leftarrow> Back st j; Some (calcMemSize off l) }"

definition mem_fixed :: "nat \<Rightarrow> int \<Rightarrow> stack \<Rightarrow> int option" where
  "mem_fixed i l st = do { off \<leftarrow> Back st i; Some (calcMemSize off l) }"

definition memorySha3 :: "stack \<Rightarrow> int option" where
  "memorySha3 = mem_range 0 1"

definition memoryCallDataCopy :: "stack \<Rightarrow> int option" where
  "memoryCallDataCopy = mem_range 0 2"

definition memoryReturnDataCopy :: "stack \<Rightarrow> int option" where
  "memoryReturnDataCopy = mem_range 0 2"

definition memoryCodeCopy :: "stack \<Rightarrow> int option" where
  "memoryCodeCopy = mem_range 0 2"

definition memoryExtCodeCopy :: "stack \<Rightarrow> int option" where
  "memoryExtCodeCopy = mem_range 1 3"

definition memoryMLoad :: "stack \<Rightarrow> int option" where
  "memoryMLoad = mem_fixed 0 32"

definition memoryMStore8 :: "stack \<Rightarrow> int option" where
  "memoryMStore8 = mem_fixed 0 1"

definition memoryMStore :: "stack \<Rightarrow> int option" where
  "memoryMStore = mem_fixed 0 32"

definition memoryCreate :: "stack \<Rightarrow> int option" where
  "memoryCreate = mem_range 1 2"

definition memoryCall :: "stack \<Rightarrow> int option" where
  "memoryCall st = do { x \<leftarrow> mem_range 5 6 st; y \<leftarrow> mem_range 3 4 st; Some (BigMax x y) }"

definition memoryDelegateCall :: "stack \<Rightarrow> int option" where
  "memoryDelegateCall st = do { x \<leftarrow> mem_range 4 5 st; y \<leftarrow> mem_range 2 3 st; Some (BigMax x y) }"

definition memoryStaticCall :: "stack \<Rightarrow> int option" where
  "memoryStaticCall st = do { x \<leftarrow> mem_range 4 5 st; y \<leftarrow> mem_range 2 3 st; Some (BigMax x y) }"

definition memoryReturn :: "stack \<Rightarrow> int option" where
  "memoryReturn = mem_range 0 1"

definition memoryRevert :: "stack \<Rightarrow> int option" where
  "memoryRevert = mem_range 0 1"

definition memoryLog :: "stack \<Rightarrow> int option" where
  "memoryLog = mem_range 0 1"

lemmas memory_sizes =
  memorySha3_def memoryCallDataCopy_def memoryReturnDataCopy_def memoryCodeCopy_def
  memoryExtCodeCopy_def memoryMLoad_def memoryMStore8_def memoryMStore_def
  memoryCreate_def memoryCall_def memoryDelegateCall_def memoryStaticCall_def
  memoryReturn_def memoryRevert_def memoryLog_def
  mem_range_def mem_fixed_def

section \<open>Stack validation\<close>

definition require :: "nat \<Rightarrow> stack \<Rightarrow> vmerr option" where
  "require n st = (if length st < n then Some (ErrStackUnderflow (length st) n) else None)"

definition makeStackFunc :: "nat \<Rightarrow> nat \<Rightarrow> stack \<Rightarrow> vmerr option" where
  "makeStackFunc pops pushes st = (case require pops st of
     Some err \<Rightarrow> Some err
   | None \<Rightarrow>
       if int (length st) + int pushes - int pops > int StackLimit then Some (ErrStackLimit (length st))
       else None)"

definition makeDupStackFunc :: "nat \<Rightarrow> stack \<Rightarrow> vmerr option" where
  "makeDupStackFunc n = makeStackFunc n (n + 1)"

definition makeSwapStackFunc :: "nat \<Rightarrow> stack \<Rightarrow> vmerr option" where
  "makeSwapStackFunc n = makeStackFunc n n"

section \<open>Gas\<close>

text \<open>Checked arithmetic: the overflow flag of the helper becomes \<^term>\<open>None\<close>.\<close>

definition checked :: "u64 \<times> bool \<Rightarrow> u64 option" where
  "checked r = (if snd r then None else Some (fst r))"

definition memoryGasCost :: "Memory \<Rightarrow> u64 \<Rightarrow> u64 option \<times> Memory" where
  "memoryGasCost m newMemSize =
     (if newMemSize = 0 then (Some 0, m)
      else if newMemSize > 0xffffffffe0 then (None, m)
      else (let newMemSizeWords = toWordSize newMemSize; newMemSize = newMemSizeWords * 32 in
        if newMemSize > of_nat (length (store m)) then
          (let square = newMemSizeWords * newMemSizeWords;
               linCoef = newMemSizeWords * MemoryGas;
               quadCoef = square div QuadCoeffDiv;
               newTotalFee = linCoef + quadCoef in
           (Some (newTotalFee - lastGasCost m), m\<lparr>lastGasCost := newTotalFee\<rparr>))
        else (Some 0, m)))"

definition callGas :: "GasTable \<Rightarrow> u64 \<Rightarrow> u64 \<Rightarrow> int \<Rightarrow> u64 option" where
  "callGas gt availableGas base callCost =
     (let rest = availableGas - base; gas = rest - rest div 64 in
      if CreateBySuicide gt > 0 \<and> (BitLen callCost > 64 \<or> gas < Uint64 callCost) then Some gas
      else if BitLen callCost > 64 then None
      else Some (Uint64 callCost))"

type_synonym gasFunc =
  "GasTable \<Rightarrow> vm_env \<Rightarrow> Contract \<Rightarrow> stack \<Rightarrow> Memory \<Rightarrow> u64 \<Rightarrow> vm \<Rightarrow>
     (u64 option \<times> Memory \<times> vm) option"

definition constGasFunc :: "u64 \<Rightarrow> gasFunc" where
  "constGasFunc gas gt env c st m memorySize v = Some (Some gas, m, v)"

text \<open>
  The copying instructions pay for the memory, a base price and each word they copy; the
  length is the operand at a fixed position of the stack.
\<close>

definition copy_cost :: "u64 \<Rightarrow> u64 \<Rightarrow> nat \<Rightarrow> gasFunc" where
  "copy_cost base perWord pos gt env c st m memorySize v = do {
     l \<leftarrow> Back st pos;
     let (fee, m1) = memoryGasCost m memorySize;
     Some (do {
       gas \<leftarrow> fee;
       gas \<leftarrow> checked (SafeAdd gas base);
       words \<leftarrow> checked (bigUint64 l);
       words \<leftarrow> checked (SafeMul (toWordSize words) perWord);
       checked (SafeAdd gas words)
     }, m1, v)
   }"

definition gasCallDataCopy :: gasFunc where
  "gasCallDataCopy = copy_cost GasFastestStep CopyGas 2"

definition gasReturnDataCopy :: gasFunc where
  "gasReturnDataCopy = copy_cost GasFastestStep CopyGas 2"

definition gasSha3 :: gasFunc where
  "gasSha3 = copy_cost Sha3Gas Sha3WordGas 1"

definition gasCodeCopy :: gasFunc where
  "gasCodeCopy = copy_cost GasFastestStep CopyGas 2"

definition gasExtCodeCopy :: gasFunc where
  "gasExtCodeCopy gt = copy_cost (ExtcodeCopy gt) CopyGas 3 gt"

definition gasSStore :: gasFunc where
  "gasSStore gt env c st m memorySize v = do {
     y \<leftarrow> Back st 1;
     x \<leftarrow> Back st 0;
     let (val, s1) = GetState (sdbE env) (cSelf c) (BigToHash x) (sdb v);
     Some (if val = 0 \<and> BigToHash y \<noteq> 0 then (Some SstoreSetGas, m, v\<lparr>sdb := s1\<rparr>)
           else if val \<noteq> 0 \<and> BigToHash y = 0
           then (Some SstoreClearGas, m, v\<lparr>sdb := AddRefund SstoreRefundGas s1\<rparr>)
           else (Some SstoreResetGas, m, v\<lparr>sdb := s1\<rparr>))
   }"

definition makeGasLog :: "u64 \<Rightarrow> gasFunc" where
  "makeGasLog n gt env c st m memorySize v = do {
     l \<leftarrow> Back st 1;
     Some (case checked (bigUint64 l) of
       None \<Rightarrow> (None, m, v)
     | Some requestedSize \<Rightarrow>
         (let (fee, m1) = memoryGasCost m memorySize in
          (do {
             gas \<leftarrow> fee;
             gas \<leftarrow> checked (SafeAdd gas LogGas);
             gas \<leftarrow> checked (SafeAdd gas (n * LogTopicGas));
             memorySizeGas \<leftarrow> checked (SafeMul requestedSize LogDataGas);
             checked (SafeAdd gas memorySizeGas)
           }, m1, v)))
   }"

definition memory_plus :: "u64 \<Rightarrow> gasFunc" where
  "memory_plus base gt env c st m memorySize v =
     (let (fee, m1) = memoryGasCost m memorySize in
      Some (do { gas \<leftarrow> fee; checked (SafeAdd gas base) }, m1, v))"

definition gasMLoad :: gasFunc where
  "gasMLoad = memory_plus GasFastestStep"

definition gasMStore8 :: gasFunc where
  "gasMStore8 = memory_plus GasFastestStep"

definition gasMStore :: gasFunc where
  "gasMStore = memory_plus GasFastestStep"

definition gasCreate :: gasFunc where
  "gasCreate = memory_plus CreateGas"

definition gasBalance :: gasFunc where
  "gasBalance gt env c st m memorySize v = Some (Some (BalanceGas gt), m, v)"

definition gasExtCodeSize :: gasFunc where
  "gasExtCodeSize gt env c st m memorySize v = Some (Some (ExtcodeSize gt), m, v)"

definition gasSLoad :: gasFunc where
  "gasSLoad gt env c st m memorySize v = Some (Some (SLoad gt), m, v)"

definition gasExp :: gasFunc where
  "gasExp gt env c st m memorySize v = do {
     y \<leftarrow> Back st 1;
     let expByteLen = of_nat ((BitLen y + 7) div 8);
     Some (checked (SafeAdd (expByteLen * ExpByte gt) GasSlowStep), m, v)
   }"

text \<open>
  The call instructions: after the base price and the memory, the gas for the callee is
  computed, left in \<^term>\<open>callGasTemp\<close> and charged.
\<close>

definition charge_call :: "GasTable \<Rightarrow> Contract \<Rightarrow> int \<Rightarrow> u64 option \<Rightarrow> vm \<Rightarrow> u64 option \<times> vm" where
  "charge_call gt c callCost base v = (case base of
     None \<Rightarrow> (None, v)
   | Some gas \<Rightarrow>
       (case callGas gt (cGas c) gas callCost of
          None \<Rightarrow> (None, v\<lparr>callGasTemp := 0\<rparr>)
        | Some g \<Rightarrow> (checked (SafeAdd gas g), v\<lparr>callGasTemp := g\<rparr>)))"

definition gasCall :: gasFunc where
  "gasCall gt env c st m memorySize v = do {
     val \<leftarrow> Back st 2;
     a \<leftarrow> Back st 1;
     cost \<leftarrow> Back st 0;
     let (isEmpty, s1) = (if val \<noteq> 0 then Empty (sdbE env) (BigToAddress a) (sdb v) else (False, sdb v));
     let gas = Calls gt + (if val \<noteq> 0 \<and> isEmpty then CallNewAccountGas else 0)
                        + (if val \<noteq> 0 then CallValueTransferGas else 0);
     let (fee, m1) = memoryGasCost m memorySize;
     let base = do { memoryGas \<leftarrow> fee; checked (SafeAdd gas memoryGas) };
     let (r, v1) = charge_call gt c cost base (v\<lparr>sdb := s1\<rparr>);
     Some (r, m1, v1)
   }"

definition gasCallCode :: gasFunc where
  "gasCallCode gt env c st m memorySize v = do {
     val \<leftarrow> Back st 2;
     cost \<leftarrow> Back st 0;
     let gas = Calls gt + (if val \<noteq> 0 then CallValueTransferGas else 0);
     let (fee, m1) = memoryGasCost m memorySize;
     let base = do { memoryGas \<leftarrow> fee; checked (SafeAdd gas memoryGas) };
     let (r, v1) = charge_call gt c cost base v;
     Some (r, m1, v1)
   }"

definition gasReturn :: gasFunc where
  "gasReturn gt env c st m memorySize v =
     (let (fee, m1) = memoryGasCost m memorySize in Some (fee, m1, v))"

definition gasRevert :: gasFunc where
  "gasRevert gt env c st m memorySize v =
     (let (fee, m1) = memoryGasCost m memorySize in Some (fee, m1, v))"

definition gasSuicide :: gasFunc where
  "gasSuicide gt env c st m memorySize v = do {
     a \<leftarrow> Back st 0;
     let (isEmpty, s1) = Empty (sdbE env) (BigToAddress a) (sdb v);
     let (bal, s2) = (if isEmpty then GetBalance (cSelf c) s1 else (0, s1));
     let gas = SuicideGas gt + (if isEmpty \<and> bal \<noteq> 0 then CreateBySuicide gt else 0);
     let (gone, s3) = HasSuicided (cSelf c) s2;
     Some (Some gas, m, v\<lparr>sdb := if gone then s3 else AddRefund SuicideRefundGas s3\<rparr>)
   }"

definition gasDelegateCall :: gasFunc where
  "gasDelegateCall gt env c st m memorySize v = do {
     cost \<leftarrow> Back st 0;
     let (fee, m1) = memoryGasCost m memorySize;
     let base = do { gas \<leftarrow> fee; checked (SafeAdd gas (Calls gt)) };
     let (r, v1) = charge_call gt c cost base v;
     Some (r, m1, v1)
   }"

definition gasStaticCall :: gasFunc where
  "gasStaticCall gt env c st m memorySize v = do {
     cost \<leftarrow> Back st 0;
     let (fee, m1) = memoryGasCost m memorySize;
     let base = do { gas \<leftarrow> fee; checked (SafeAdd gas (Calls gt)) };
     let (r, v1) = charge_call gt c cost base v;
     Some (r, m1, v1)
   }"

definition gasPush :: gasFunc where
  "gasPush gt env c st m memorySize v = Some (Some GasFastestStep, m, v)"

definition gasSwap :: gasFunc where
  "gasSwap gt env c st m memorySize v = Some (Some GasFastestStep, m, v)"

definition gasDup :: gasFunc where
  "gasDup gt env c st m memorySize v = Some (Some GasFastestStep, m, v)"

end
