(* ===== verification/Evm_Instr.thy ===== *)
theory Evm_Instr
  imports Evm_Gas
begin

text \<open>
  The instructions of \<^verbatim>\<open>src/core/vm/instructions.go\<close> that run in one frame: everything
  but calls and contract creation. An instruction returns its result bytes and error,
  the frame (program counter, stack, memory, contract) and the machine; \<^term>\<open>None\<close> is a
  panic.
\<close>

section \<open>Instructions without state\<close>

type_synonym op_result = "(byte list \<times> vmerr option) \<times> frame \<times> vm"
type_synonym executionFunc = "vm_env \<Rightarrow> frame \<Rightarrow> vm \<Rightarrow> op_result option"

definition ok :: "frame \<Rightarrow> vm \<Rightarrow> op_result" where
  "ok fr v = (([], None), fr, v)"

definition fail :: "vmerr \<Rightarrow> frame \<Rightarrow> vm \<Rightarrow> op_result" where
  "fail e fr v = (([], Some e), fr, v)"

definition push_result :: "int \<Rightarrow> frame \<Rightarrow> vm \<Rightarrow> op_result option" where
  "push_result x fr v = Some (ok (fr\<lparr>stk := push x (stk fr)\<rparr>) v)"

text \<open>The arithmetic instructions change only the stack.\<close>

definition stack_only :: "(stack \<Rightarrow> stack option) \<Rightarrow> executionFunc" where
  "stack_only f env fr v = do { st \<leftarrow> f (stk fr); Some (ok (fr\<lparr>stk := st\<rparr>) v) }"

definition opAddress :: executionFunc where
  "opAddress env fr v = push_result (uint (cSelf (ctr fr))) fr v"

definition opOrigin :: executionFunc where
  "opOrigin env fr v = push_result (uint (Origin env)) fr v"

definition opCaller :: executionFunc where
  "opCaller env fr v = push_result (uint (CallerAddress (ctr fr))) fr v"

definition opCallValue :: executionFunc where
  "opCallValue env fr v = push_result (cValue (ctr fr)) fr v"

definition opCallDataLoad :: executionFunc where
  "opCallDataLoad env fr v = do {
     (x, st) \<leftarrow> pop (stk fr);
     push_result (SetBytes (getDataBig (cInput (ctr fr)) x 32)) (fr\<lparr>stk := st\<rparr>) v
   }"

definition opCallDataSize :: executionFunc where
  "opCallDataSize env fr v = push_result (int (length (cInput (ctr fr)))) fr v"

text \<open>The instructions that copy bytes to memory share their shape.\<close>

definition copy_to_memory :: "byte list \<Rightarrow> frame \<Rightarrow> vm \<Rightarrow> op_result option" where
  "copy_to_memory src fr v = do {
     (memOffset, st) \<leftarrow> pop (stk fr);
     (dataOffset, st) \<leftarrow> pop st;
     (len, st) \<leftarrow> pop st;
     m \<leftarrow> Memory_Set (Uint64 memOffset) (Uint64 len) (getDataBig src dataOffset len) (mem fr);
     Some (ok (fr\<lparr>stk := st, mem := m\<rparr>) v)
   }"

definition opCallDataCopy :: executionFunc where
  "opCallDataCopy env fr v = copy_to_memory (cInput (ctr fr)) fr v"

definition opReturnDataSize :: executionFunc where
  "opReturnDataSize env fr v = push_result (uint (of_nat (length (returnData v)) :: u64)) fr v"

definition opReturnDataCopy :: executionFunc where
  "opReturnDataCopy env fr v = do {
     (memOffset, st) \<leftarrow> pop (stk fr);
     (dataOffset, st) \<leftarrow> pop st;
     (len, st) \<leftarrow> pop st;
     let fin = dataOffset + len;
     let fr = fr\<lparr>stk := st\<rparr>;
     if BitLen fin > 64 \<or> of_nat (length (returnData v)) < Uint64 fin
     then Some (fail errReturnDataOutOfBounds fr v)
     else if Uint64 fin < Uint64 dataOffset then None
     else do {
       m \<leftarrow> Memory_Set (Uint64 memOffset) (Uint64 len)
              (take (unat (Uint64 fin) - unat (Uint64 dataOffset))
                (drop (unat (Uint64 dataOffset)) (returnData v))) (mem fr);
       Some (ok (fr\<lparr>mem := m\<rparr>) v)
     }
   }"

definition opCodeSize :: executionFunc where
  "opCodeSize env fr v = push_result (int (length (cCode (ctr fr)))) fr v"

definition opCodeCopy :: executionFunc where
  "opCodeCopy env fr v = copy_to_memory (cCode (ctr fr)) fr v"

definition opGasprice :: executionFunc where
  "opGasprice env fr v = push_result (GasPrice env) fr v"

definition opBlockhash :: executionFunc where
  "opBlockhash env fr v = do {
     (num, st) \<leftarrow> pop (stk fr);
     push_result (if BlockNumber env - 257 < num \<and> num < BlockNumber env
                  then uint (GetHash env (Uint64 num)) else 0) (fr\<lparr>stk := st\<rparr>) v
   }"

definition opCoinbase :: executionFunc where
  "opCoinbase env fr v = push_result (uint (Coinbase env)) fr v"

definition opTimestamp :: executionFunc where
  "opTimestamp env fr v = push_result (U256 (Time env)) fr v"

definition opNumber :: executionFunc where
  "opNumber env fr v = push_result (U256 (BlockNumber env)) fr v"

definition opDifficulty :: executionFunc where
  "opDifficulty env fr v = Some (ok fr v)"

definition opGasLimit :: executionFunc where
  "opGasLimit env fr v = push_result (U256 (uint (GasLimit env))) fr v"

definition opPop :: executionFunc where
  "opPop env fr v = do { (x, st) \<leftarrow> pop (stk fr); Some (ok (fr\<lparr>stk := st\<rparr>) v) }"

definition opMload :: executionFunc where
  "opMload env fr v = do {
     (offset, st) \<leftarrow> pop (stk fr);
     bs \<leftarrow> Memory_Get (Int64 offset) 32 (mem fr);
     push_result (SetBytes bs) (fr\<lparr>stk := st\<rparr>) v
   }"

definition opMstore :: executionFunc where
  "opMstore env fr v = do {
     (mStart, st) \<leftarrow> pop (stk fr);
     (val, st) \<leftarrow> pop st;
     m \<leftarrow> Memory_Set (Uint64 mStart) 32 (PaddedBigBytes val 32) (mem fr);
     Some (ok (fr\<lparr>stk := st, mem := m\<rparr>) v)
   }"

definition opMstore8 :: executionFunc where
  "opMstore8 env fr v = do {
     (o1, st) \<leftarrow> pop (stk fr);
     (x, st) \<leftarrow> pop st;
     let off = Int64 o1;
     if 0 \<le> off \<and> nat off < length (store (mem fr))
     then Some (ok (fr\<lparr>stk := st,
            mem := (mem fr)\<lparr>store := (store (mem fr))[nat off := word_of_int (Int64 x)]\<rparr>\<rparr>) v)
     else None
   }"

text \<open>A jump that the analysis rejects is an error; the program counter moves otherwise.\<close>

definition jump_to :: "int \<Rightarrow> frame \<Rightarrow> vm \<Rightarrow> op_result option" where
  "jump_to pos fr v = do {
     (valid, d) \<leftarrow> has (jumpdests v) (cCodeHash (ctr fr)) (cCode (ctr fr)) pos;
     let v = v\<lparr>jumpdests := d\<rparr>;
     Some (if valid then ok (fr\<lparr>pc := Uint64 pos\<rparr>) v
           else fail (ErrInvalidJump (GetOp (ctr fr) (Uint64 pos)) pos) fr v)
   }"

definition opJump :: executionFunc where
  "opJump env fr v = do { (pos, st) \<leftarrow> pop (stk fr); jump_to pos (fr\<lparr>stk := st\<rparr>) v }"

definition opJumpi :: executionFunc where
  "opJumpi env fr v = do {
     (pos, st) \<leftarrow> pop (stk fr);
     (c, st) \<leftarrow> pop st;
     let fr = fr\<lparr>stk := st\<rparr>;
     if c \<noteq> 0 then jump_to pos fr v else Some (ok (fr\<lparr>pc := pc fr + 1\<rparr>) v)
   }"

definition opJumpdest :: executionFunc where
  "opJumpdest env fr v = Some (ok fr v)"

definition opPc :: executionFunc where
  "opPc env fr v = push_result (uint (pc fr)) fr v"

definition opMsize :: executionFunc where
  "opMsize env fr v = push_result (int (length (store (mem fr)))) fr v"

definition opGas :: executionFunc where
  "opGas env fr v = push_result (uint (cGas (ctr fr))) fr v"

definition opReturn :: executionFunc where
  "opReturn env fr v = do {
     (offset, st) \<leftarrow> pop (stk fr);
     (sz, st) \<leftarrow> pop st;
     ret \<leftarrow> GetPtr (Int64 offset) (Int64 sz) (mem fr);
     Some ((ret, None), fr\<lparr>stk := st\<rparr>, v)
   }"

definition opRevert :: executionFunc where
  "opRevert env fr v = do {
     (offset, st) \<leftarrow> pop (stk fr);
     (sz, st) \<leftarrow> pop st;
     ret \<leftarrow> GetPtr (Int64 offset) (Int64 sz) (mem fr);
     Some ((ret, None), fr\<lparr>stk := st\<rparr>, v)
   }"

definition opStop :: executionFunc where
  "opStop env fr v = Some (ok fr v)"

definition makePush :: "u64 \<Rightarrow> nat \<Rightarrow> executionFunc" where
  "makePush sz pushByteSize env fr v =
     (let codeLen = length (cCode (ctr fr));
          startMin = min (sint (pc fr + 1)) (int codeLen);
          endMin = min (startMin + int pushByteSize) (int codeLen);
          bs = take (nat (endMin - startMin)) (drop (nat startMin) (cCode (ctr fr))) in
      if startMin < 0 then None
      else push_result (SetBytes (RightPadBytes bs (int pushByteSize))) (fr\<lparr>pc := pc fr + sz\<rparr>) v)"

definition makeDup :: "nat \<Rightarrow> executionFunc" where
  "makeDup n = stack_only (stack_dup n)"

definition makeSwap :: "nat \<Rightarrow> executionFunc" where
  "makeSwap n = stack_only (stack_swap (n + 1))"

section \<open>Instructions on the state\<close>

definition opSha3 :: executionFunc where
  "opSha3 env fr v = do {
     (offset, st) \<leftarrow> pop (stk fr);
     (sz, st) \<leftarrow> pop st;
     bs \<leftarrow> Memory_Get (Int64 offset) (Int64 sz) (mem fr);
     let h = keccak256 (sdbE env) bs;
     let v = (if EnablePreimageRecording env then v\<lparr>sdb := AddPreimage h bs (sdb v)\<rparr> else v);
     push_result (uint h) (fr\<lparr>stk := st\<rparr>) v
   }"

definition opBalance :: executionFunc where
  "opBalance env fr v = do {
     x \<leftarrow> peek (stk fr);
     let (b, s1) = GetBalance (BigToAddress x) (sdb v);
     Some (ok (fr\<lparr>stk := set_top b (stk fr)\<rparr>) (v\<lparr>sdb := s1\<rparr>))
   }"

definition opExtCodeSize :: executionFunc where
  "opExtCodeSize env fr v = do {
     x \<leftarrow> peek (stk fr);
     let (n, s1) = GetCodeSize (sdbE env) (BigToAddress x) (sdb v);
     Some (ok (fr\<lparr>stk := set_top (uint (of_nat n :: u64)) (stk fr)\<rparr>) (v\<lparr>sdb := s1\<rparr>))
   }"

definition opExtCodeCopy :: executionFunc where
  "opExtCodeCopy env fr v = do {
     (a, st) \<leftarrow> pop (stk fr);
     let (c, s1) = GetCode (sdbE env) (BigToAddress a) (sdb v);
     copy_to_memory (case c of None \<Rightarrow> [] | Some bs \<Rightarrow> bs) (fr\<lparr>stk := st\<rparr>) (v\<lparr>sdb := s1\<rparr>)
   }"

definition opSload :: executionFunc where
  "opSload env fr v = do {
     (x, st) \<leftarrow> pop (stk fr);
     let (val, s1) = GetState (sdbE env) (cSelf (ctr fr)) (BigToHash x) (sdb v);
     push_result (uint val) (fr\<lparr>stk := st\<rparr>) (v\<lparr>sdb := s1\<rparr>)
   }"

definition opSstore :: executionFunc where
  "opSstore env fr v = do {
     (x, st) \<leftarrow> pop (stk fr);
     (val, st) \<leftarrow> pop st;
     let s1 = SetState (sdbE env) (cSelf (ctr fr)) (BigToHash x) (BigToHash val) (sdb v);
     Some (ok (fr\<lparr>stk := st\<rparr>) (v\<lparr>sdb := s1\<rparr>))
   }"

definition opSuicide :: executionFunc where
  "opSuicide env fr v = do {
     let (b, s1) = GetBalance (cSelf (ctr fr)) (sdb v);
     (x, st) \<leftarrow> pop (stk fr);
     let s2 = AddBalance (sdbE env) (BigToAddress x) b s1;
     Some (ok (fr\<lparr>stk := st\<rparr>) (v\<lparr>sdb := snd (Suicide (cSelf (ctr fr)) s2)\<rparr>))
   }"

fun pop_topics :: "nat \<Rightarrow> stack \<Rightarrow> (hash list \<times> stack) option" where
  "pop_topics 0 st = Some ([], st)"
| "pop_topics (Suc n) st = do {
     (x, st) \<leftarrow> pop st;
     (ts, st) \<leftarrow> pop_topics n st;
     Some (BigToHash x # ts, st)
   }"

definition makeLog :: "nat \<Rightarrow> executionFunc" where
  "makeLog n env fr v = do {
     (mStart, st) \<leftarrow> pop (stk fr);
     (mSize, st) \<leftarrow> pop st;
     (topics, st) \<leftarrow> pop_topics n st;
     d \<leftarrow> Memory_Get (Int64 mStart) (Int64 mSize) (mem fr);
     let l = \<lparr>logAddress = cSelf (ctr fr), Topics = topics, Data = d,
              logBlockNumber = Uint64 (BlockNumber env),
              TxHash = 0, BlockHash = 0, TxIndex = 0, Index = 0\<rparr>;
     Some (ok (fr\<lparr>stk := st\<rparr>) (v\<lparr>sdb := AddLog l (sdb v)\<rparr>))
   }"

end
