(* ===== verification/Evm_Call.thy ===== *)
theory Evm_Call
  imports Evm_Instr
begin

text \<open>
  Message calls and contract creation (\<^verbatim>\<open>src/core/vm/evm.go\<close>), the instructions that
  use them (\<^verbatim>\<open>instructions.go\<close>) and running a contract (\<^verbatim>\<open>interpreter.go\<close>,
  \<^verbatim>\<open>contracts.go\<close>).

  The main loop of the interpreter calls these functions and they call the loop. Here the
  loop is a parameter; the interpreter theory ties the knot with a bound on the number of
  nested steps. A result of type \<open>'a option option\<close> is \<^term>\<open>None\<close> when the bound is
  exhausted, \<^term>\<open>Some None\<close> for a panic and \<^term>\<open>Some (Some r)\<close> for a result.
\<close>

section \<open>Running a contract\<close>

type_synonym run_result = "(byte list \<times> vmerr option) \<times> Contract \<times> vm"
type_synonym loop = "frame \<Rightarrow> vm \<Rightarrow> run_result option option"

definition and_then :: "'a option option \<Rightarrow> ('a \<Rightarrow> 'b option option) \<Rightarrow> 'b option option" where
  "and_then x f = (case x of None \<Rightarrow> None | Some None \<Rightarrow> Some None | Some (Some y) \<Rightarrow> f y)"

lemma and_then_simps [simp]:
  "and_then None f = None" "and_then (Some None) f = Some None" "and_then (Some (Some y)) f = f y"
  by (simp_all add: and_then_def)

lemma and_then_eq_Some:
  "and_then x f = Some (Some r) \<longleftrightarrow> (\<exists>y. x = Some (Some y) \<and> f y = Some (Some r))"
  "and_then x f = None \<longleftrightarrow> x = None \<or> (\<exists>y. x = Some (Some y) \<and> f y = None)"
  by (auto simp: and_then_def split: option.splits)

definition Run :: "loop \<Rightarrow> Contract \<Rightarrow> byte list \<Rightarrow> vm \<Rightarrow> run_result option option" where
  "Run loop c input v =
     (let v1 = v\<lparr>depth := depth v + 1, returnData := []\<rparr> in
      if cCode c = [] then Some (Some (([], None), c, v1\<lparr>depth := depth v\<rparr>))
      else and_then (loop \<lparr>pc = 0, stk = [], mem = NewMemory, ctr = c\<lparr>cInput := input\<rparr>\<rparr> v1)
        (\<lambda>(r, c1, v2). Some (Some (r, c1, v2\<lparr>depth := depth v2 - 1\<rparr>))))"

definition RunPrecompiledContract ::
  "precompile \<Rightarrow> byte list \<Rightarrow> Contract \<Rightarrow> ((byte list \<times> vmerr option) \<times> Contract) option" where
  "RunPrecompiledContract p input c =
     (let (paid, c1) = UseGas (RequiredGas p input) c in
      if paid then do { r \<leftarrow> PRun p input; Some (r, c1) }
      else Some (([], Some ErrOutOfGas), c1))"

definition precompile_of :: "vm_env \<Rightarrow> Contract \<Rightarrow> precompile option" where
  "precompile_of env c = (case cCodeAddr c of None \<Rightarrow> None | Some a \<Rightarrow> precompiles env a)"

definition run :: "loop \<Rightarrow> vm_env \<Rightarrow> Contract \<Rightarrow> byte list \<Rightarrow> vm \<Rightarrow> run_result option option" where
  "run loop env c input v = (case precompile_of env c of
     Some p \<Rightarrow> Some (do { (r, c1) \<leftarrow> RunPrecompiledContract p input c; Some (r, c1, v) })
   | None \<Rightarrow> Run loop c input v)"

section \<open>Message calls\<close>

type_synonym call_result = "(byte list \<times> u64 \<times> vmerr option) \<times> vm"

definition early :: "u64 \<Rightarrow> vmerr option \<Rightarrow> vm \<Rightarrow> call_result option option" where
  "early gas err v = Some (Some (([], gas, err), v))"

definition share_jumpdests :: "ContractRef \<Rightarrow> vm \<Rightarrow> vm" where
  "share_jumpdests caller v = (case caller of
     ContractOf c \<Rightarrow> v | AccountRef a \<Rightarrow> v\<lparr>jumpdests := Map.empty\<rparr>)"

text \<open>Loading the code of the callee into the new contract.\<close>

definition load_code :: "vm_env \<Rightarrow> address \<Rightarrow> Contract \<Rightarrow> stateDB \<Rightarrow> Contract \<times> stateDB" where
  "load_code env a c s =
     (let (h, s1) = GetCodeHash a s; (bs, s2) = GetCode (sdbE env) a s1 in
      (SetCallCode a h (case bs of None \<Rightarrow> [] | Some x \<Rightarrow> x) c, s2))"

text \<open>
  After the run: an error reverts to the snapshot, and any error but
  \<^term>\<open>errExecutionReverted\<close> consumes the remaining gas.
\<close>

definition settle :: "int \<Rightarrow> run_result \<Rightarrow> call_result option" where
  "settle snapshot r = (case r of ((ret, err), c, v) \<Rightarrow> (case err of
     None \<Rightarrow> Some ((ret, cGas c, None), v)
   | Some e \<Rightarrow> do {
       s \<leftarrow> RevertToSnapshot snapshot (sdb v);
       let c1 = (if e \<noteq> errExecutionReverted then snd (UseGas (cGas c) c) else c);
       Some ((ret, cGas c1, Some e), v\<lparr>sdb := s\<rparr>)
     }))"

definition Call ::
  "loop \<Rightarrow> vm_env \<Rightarrow> ContractRef \<Rightarrow> address \<Rightarrow> byte list \<Rightarrow> u64 \<Rightarrow> int \<Rightarrow> vm \<Rightarrow>
     call_result option option" where
  "Call loop env caller addr input gas val v =
     (if NoRecursion env \<and> depth v > 0 then early gas None v
      else if depth v > CallCreateDepth then early gas (Some ErrDepth) v
      else (let (can, s1) = CanTransfer (sdb v) (ref_Address caller) val in
        if \<not> can then early gas (Some ErrInsufficientBalance) (v\<lparr>sdb := s1\<rparr>)
        else (let (snapshot, s2) = Snapshot s1; (ex, s3) = Exist addr s2 in
          if \<not> ex \<and> precompiles env addr = None \<and> val = 0 then early gas None (v\<lparr>sdb := s3\<rparr>)
          else (case do { s4 \<leftarrow> (if ex then Some s3 else CreateAccount (sdbE env) addr s3);
                          Transfer (sdbE env) (ref_Address caller) addr val s4 } of
              None \<Rightarrow> Some None
            | Some s5 \<Rightarrow>
                (let (c, s6) = load_code env addr (NewContract caller addr val gas) s5 in
                 and_then (run loop env c input (share_jumpdests caller (v\<lparr>sdb := s6\<rparr>)))
                   (\<lambda>r. Some (settle snapshot r)))))))"

definition CallCode ::
  "loop \<Rightarrow> vm_env \<Rightarrow> ContractRef \<Rightarrow> address \<Rightarrow> byte list \<Rightarrow> u64 \<Rightarrow> int \<Rightarrow> vm \<Rightarrow>
     call_result option option" where
  "CallCode loop env caller addr input gas val v =
     (if NoRecursion env \<and> depth v > 0 then early gas None v
      else if depth v > CallCreateDepth then early gas (Some ErrDepth) v
      else (let (can, s1) = CanTransfer (sdb v) (ref_Address caller) val in
        if \<not> can then early gas (Some ErrInsufficientBalance) (v\<lparr>sdb := s1\<rparr>)
        else (let (snapshot, s2) = Snapshot s1;
                  (c, s3) = load_code env addr (NewContract caller (ref_Address caller) val gas) s2 in
          and_then (run loop env c input (share_jumpdests caller (v\<lparr>sdb := s3\<rparr>)))
            (\<lambda>r. Some (settle snapshot r)))))"

definition DelegateCall ::
  "loop \<Rightarrow> vm_env \<Rightarrow> ContractRef \<Rightarrow> address \<Rightarrow> byte list \<Rightarrow> u64 \<Rightarrow> vm \<Rightarrow> call_result option option" where
  "DelegateCall loop env caller addr input gas v =
     (if NoRecursion env \<and> depth v > 0 then early gas None v
      else if depth v > CallCreateDepth then early gas (Some ErrDepth) v
      else (let (snapshot, s1) = Snapshot (sdb v) in
        (case AsDelegate caller (NewContract caller (ref_Address caller) 0 gas) of
           None \<Rightarrow> Some None
         | Some c0 \<Rightarrow>
             (let (c, s2) = load_code env addr c0 s1 in
              and_then (run loop env c input (share_jumpdests caller (v\<lparr>sdb := s2\<rparr>)))
                (\<lambda>r. Some (settle snapshot r))))))"

text \<open>The read-only flag is set for the call, and reset afterwards if it was not set before.\<close>

definition settle_static :: "bool \<Rightarrow> int \<Rightarrow> run_result \<Rightarrow> call_result option" where
  "settle_static was snapshot r = do {
     (res, v) \<leftarrow> settle snapshot r;
     Some (res, if was then v else v\<lparr>readOnly := False\<rparr>)
   }"

definition StaticCall ::
  "loop \<Rightarrow> vm_env \<Rightarrow> ContractRef \<Rightarrow> address \<Rightarrow> byte list \<Rightarrow> u64 \<Rightarrow> vm \<Rightarrow> call_result option option" where
  "StaticCall loop env caller addr input gas v =
     (if NoRecursion env \<and> depth v > 0 then early gas None v
      else if depth v > CallCreateDepth then early gas (Some ErrDepth) v
      else (let (snapshot, s1) = Snapshot (sdb v);
                (c, s2) = load_code env addr (NewContract caller addr 0 gas) s1;
                v1 = v\<lparr>readOnly := True, sdb := s2\<rparr> in
        and_then (run loop env c input (share_jumpdests caller v1))
          (\<lambda>r. Some (settle_static (readOnly v) snapshot r))))"

section \<open>Contract creation\<close>

type_synonym create_result = "(byte list \<times> address \<times> u64 \<times> vmerr option) \<times> vm"

text \<open>
  After the constructor: the code is stored if its size is allowed and paid for; a run
  that failed, or code that is too long, reverts to the snapshot.
\<close>

definition store_code ::
  "sdb_env \<Rightarrow> address \<Rightarrow> byte list \<Rightarrow> Contract \<Rightarrow> stateDB \<Rightarrow> vmerr option \<times> Contract \<times> stateDB" where
  "store_code E a ret c s =
     (let (paid, c1) = UseGas (of_nat (length ret) * CreateDataGas) c in
      if paid then (None, c1, SetCode E a (if ret = [] then None else Some ret) s)
      else (Some ErrCodeStoreOutOfGas, c1, s))"

definition finish_create :: "vm_env \<Rightarrow> int \<Rightarrow> address \<Rightarrow> run_result \<Rightarrow> create_result option" where
  "finish_create env snapshot a r = (case r of ((ret, err), c, v) \<Rightarrow>
     (let maxCodeSizeExceeded = length ret > MaxCodeSize;
          (err1, c1, s1) =
            (if err = None \<and> \<not> maxCodeSizeExceeded then store_code (sdbE env) a ret c (sdb v)
             else (err, c, sdb v)) in
      do {
        (c2, s2) \<leftarrow>
          (if maxCodeSizeExceeded \<or> (err1 \<noteq> None \<and> err1 \<noteq> Some ErrCodeStoreOutOfGas)
           then do {
             s \<leftarrow> RevertToSnapshot snapshot s1;
             Some (if err1 \<noteq> Some errExecutionReverted then snd (UseGas (cGas c1) c1) else c1, s)
           }
           else Some (c1, s1));
        let err2 = (if maxCodeSizeExceeded \<and> err1 = None then Some errMaxCodeSizeExceeded else err1);
        Some ((ret, a, cGas c2, err2), v\<lparr>sdb := snd (GetCodeHash a s2)\<rparr>)
      }))"

definition Create ::
  "loop \<Rightarrow> vm_env \<Rightarrow> ContractRef \<Rightarrow> byte list \<Rightarrow> u64 \<Rightarrow> int \<Rightarrow> vm \<Rightarrow> create_result option option" where
  "Create loop env caller cd gas val v =
     (if depth v > CallCreateDepth then Some (Some (([], 0, gas, Some ErrDepth), v))
      else (let (can, s1) = CanTransfer (sdb v) (ref_Address caller) val in
        if \<not> can then Some (Some (([], 0, gas, Some ErrInsufficientBalance), v\<lparr>sdb := s1\<rparr>))
        else (let (nonce, s2) = GetNonce (ref_Address caller) s1;
                  s3 = SetNonce (sdbE env) (ref_Address caller) (nonce + 1) s2;
                  a = CreateAddress env (ref_Address caller) nonce;
                  (h, s4) = GetCodeHash a s3;
                  (n, s5) = GetNonce a s4 in
          if n \<noteq> 0 \<or> (h \<noteq> 0 \<and> h \<noteq> emptyCodeHash (sdbE env))
          then Some (Some (([], 0, 0, Some ErrContractAddressCollision), v\<lparr>sdb := s5\<rparr>))
          else (let (snapshot, s6) = Snapshot s5 in
            (case do { s7 \<leftarrow> CreateAccount (sdbE env) a s6;
                       Transfer (sdbE env) (ref_Address caller) a val (SetNonce (sdbE env) a 1 s7) } of
               None \<Rightarrow> Some None
             | Some s8 \<Rightarrow>
                 (let c = SetCallCode a (keccak256 (sdbE env) cd) cd (NewContract caller a val gas) in
                  if NoRecursion env \<and> depth v > 0
                  then Some (Some (([], a, gas, None), v\<lparr>sdb := s8\<rparr>))
                  else and_then (run loop env c [] (share_jumpdests caller (v\<lparr>sdb := s8\<rparr>)))
                         (\<lambda>r. Some (finish_create env snapshot a r))))))))"

section \<open>Call instructions\<close>

type_synonym callFunc = "loop \<Rightarrow> vm_env \<Rightarrow> frame \<Rightarrow> vm \<Rightarrow> op_result option option"

definition opCreate :: callFunc where
  "opCreate loop env fr v = (case do {
       (val, st) \<leftarrow> pop (stk fr);
       (offset, st) \<leftarrow> pop st;
       (sz, st) \<leftarrow> pop st;
       input \<leftarrow> Memory_Get (Int64 offset) (Int64 sz) (mem fr);
       Some (val, input, st)
     } of
       None \<Rightarrow> Some None
     | Some (val, input, st) \<Rightarrow>
         (let gas = cGas (ctr fr) - cGas (ctr fr) div 64;
              (b, c) = UseGas gas (ctr fr) in
          and_then (Create loop env (ContractOf c) input gas val v)
            (\<lambda>((res, addr, returnGas, suberr), v1). Some (Some (
               (if suberr = Some errExecutionReverted then res else [], None),
               fr\<lparr>stk := push (if suberr = None then uint addr else 0) st,
                  ctr := c\<lparr>cGas := cGas c + returnGas\<rparr>\<rparr>,
               v1)))))"

text \<open>What the call instructions do with the result of a call.\<close>

definition after_call ::
  "frame \<Rightarrow> stack \<Rightarrow> int \<Rightarrow> int \<Rightarrow> call_result \<Rightarrow> op_result option" where
  "after_call fr st retOffset retSize r = (case r of ((ret, returnGas, err), v) \<Rightarrow> do {
     m \<leftarrow> (if err = None \<or> err = Some errExecutionReverted
           then Memory_Set (Uint64 retOffset) (Uint64 retSize) ret (mem fr) else Some (mem fr));
     Some ((ret, None),
           fr\<lparr>stk := push (if err = None then 1 else 0) st, mem := m,
              ctr := (ctr fr)\<lparr>cGas := cGas (ctr fr) + returnGas\<rparr>\<rparr>, v)
   })"

text \<open>The operands of \<^verbatim>\<open>CALL\<close> and \<^verbatim>\<open>CALLCODE\<close>, and of the two calls without a value.\<close>

definition pop_call ::
  "frame \<Rightarrow> (address \<times> int \<times> byte list \<times> int \<times> int \<times> stack) option" where
  "pop_call fr = do {
     (g, st) \<leftarrow> pop (stk fr);
     (addr, st) \<leftarrow> pop st;
     (val, st) \<leftarrow> pop st;
     (inOffset, st) \<leftarrow> pop st;
     (inSize, st) \<leftarrow> pop st;
     (retOffset, st) \<leftarrow> pop st;
     (retSize, st) \<leftarrow> pop st;
     args \<leftarrow> Memory_Get (Int64 inOffset) (Int64 inSize) (mem fr);
     Some (BigToAddress addr, U256 val, args, retOffset, retSize, st)
   }"

definition pop_call0 ::
  "frame \<Rightarrow> (address \<times> byte list \<times> int \<times> int \<times> stack) option" where
  "pop_call0 fr = do {
     (g, st) \<leftarrow> pop (stk fr);
     (addr, st) \<leftarrow> pop st;
     (inOffset, st) \<leftarrow> pop st;
     (inSize, st) \<leftarrow> pop st;
     (retOffset, st) \<leftarrow> pop st;
     (retSize, st) \<leftarrow> pop st;
     args \<leftarrow> Memory_Get (Int64 inOffset) (Int64 inSize) (mem fr);
     Some (BigToAddress addr, args, retOffset, retSize, st)
   }"

definition opCall :: callFunc where
  "opCall loop env fr v = (case pop_call fr of
     None \<Rightarrow> Some None
   | Some (toAddr, val, args, retOffset, retSize, st) \<Rightarrow>
       (let gas = callGasTemp v + (if val \<noteq> 0 then CallStipend else 0) in
        and_then (Call loop env (ContractOf (ctr fr)) toAddr args gas val v)
          (\<lambda>r. Some (after_call fr st retOffset retSize r))))"

definition opCallCode :: callFunc where
  "opCallCode loop env fr v = (case pop_call fr of
     None \<Rightarrow> Some None
   | Some (toAddr, val, args, retOffset, retSize, st) \<Rightarrow>
       (let gas = callGasTemp v + (if val \<noteq> 0 then CallStipend else 0) in
        and_then (CallCode loop env (ContractOf (ctr fr)) toAddr args gas val v)
          (\<lambda>r. Some (after_call fr st retOffset retSize r))))"

definition opDelegateCall :: callFunc where
  "opDelegateCall loop env fr v = (case pop_call0 fr of
     None \<Rightarrow> Some None
   | Some (toAddr, args, retOffset, retSize, st) \<Rightarrow>
       and_then (DelegateCall loop env (ContractOf (ctr fr)) toAddr args (callGasTemp v) v)
         (\<lambda>r. Some (after_call fr st retOffset retSize r)))"

definition opStaticCall :: callFunc where
  "opStaticCall loop env fr v = (case pop_call0 fr of
     None \<Rightarrow> Some None
   | Some (toAddr, args, retOffset, retSize, st) \<Rightarrow>
       and_then (StaticCall loop env (ContractOf (ctr fr)) toAddr args (callGasTemp v) v)
         (\<lambda>r. Some (after_call fr st retOffset retSize r)))"

end
