(* ===== verification/Evm_Interp.thy ===== *)
theory Evm_Interp
  imports Evm_Call
begin

text \<open>
  The instruction tables (\<^verbatim>\<open>src/core/vm/jump_table.go\<close>) and the main loop of the
  interpreter (\<^verbatim>\<open>interpreter.go\<close>). A table is a list of entries; an opcode without an
  entry is one whose \<^verbatim>\<open>valid\<close> flag is not set, and an entry that a later instruction
  set assigns comes first.
\<close>

section \<open>Instruction tables\<close>

record operation =
  execute :: callFunc
  gasCost :: gasFunc
  validateStack :: "stack \<Rightarrow> vmerr option"
  memorySize :: "(stack \<Rightarrow> int option) option"
  halts :: bool
  jumps :: bool
  writes :: bool
  reverts :: bool
  returns :: bool

definition plain :: "callFunc \<Rightarrow> gasFunc \<Rightarrow> (stack \<Rightarrow> vmerr option) \<Rightarrow> operation" where
  "plain ex gas val = \<lparr>execute = ex, gasCost = gas, validateStack = val, memorySize = None,
     halts = False, jumps = False, writes = False, reverts = False, returns = False\<rparr>"

lemma plain_simps [simp]:
  "execute (plain ex gas val) = ex" "gasCost (plain ex gas val) = gas"
  "validateStack (plain ex gas val) = val" "memorySize (plain ex gas val) = None"
  "\<not> halts (plain ex gas val)" "\<not> jumps (plain ex gas val)" "\<not> writes (plain ex gas val)"
  "\<not> reverts (plain ex gas val)" "\<not> returns (plain ex gas val)"
  by (simp_all add: plain_def)

text \<open>An instruction that runs in its frame does not use the loop.\<close>

definition local :: "executionFunc \<Rightarrow> callFunc" where
  "local f loop env fr v = Some (f env fr v)"

definition arith_table :: "(byte \<times> operation) list" where
  "arith_table = [
     (STOP, (plain (local opStop) (constGasFunc 0) (makeStackFunc 0 0))\<lparr>halts := True\<rparr>),
     (ADD, plain (local (stack_only opAdd)) (constGasFunc GasFastestStep) (makeStackFunc 2 1)),
     (MUL, plain (local (stack_only opMul)) (constGasFunc GasFastStep) (makeStackFunc 2 1)),
     (SUB, plain (local (stack_only opSub)) (constGasFunc GasFastestStep) (makeStackFunc 2 1)),
     (DIV, plain (local (stack_only opDiv)) (constGasFunc GasFastStep) (makeStackFunc 2 1)),
     (SDIV, plain (local (stack_only opSdiv)) (constGasFunc GasFastStep) (makeStackFunc 2 1)),
     (MOD, plain (local (stack_only opMod)) (constGasFunc GasFastStep) (makeStackFunc 2 1)),
     (SMOD, plain (local (stack_only opSmod)) (constGasFunc GasFastStep) (makeStackFunc 2 1)),
     (ADDMOD, plain (local (stack_only opAddmod)) (constGasFunc GasMidStep) (makeStackFunc 3 1)),
     (MULMOD, plain (local (stack_only opMulmod)) (constGasFunc GasMidStep) (makeStackFunc 3 1)),
     (EXP, plain (local (stack_only opExp)) gasExp (makeStackFunc 2 1)),
     (SIGNEXTEND, plain (local (stack_only opSignExtend)) (constGasFunc GasFastStep) (makeStackFunc 2 1)),
     (LT, plain (local (stack_only opLt)) (constGasFunc GasFastestStep) (makeStackFunc 2 1)),
     (GT, plain (local (stack_only opGt)) (constGasFunc GasFastestStep) (makeStackFunc 2 1)),
     (SLT, plain (local (stack_only opSlt)) (constGasFunc GasFastestStep) (makeStackFunc 2 1)),
     (SGT, plain (local (stack_only opSgt)) (constGasFunc GasFastestStep) (makeStackFunc 2 1)),
     (EQ, plain (local (stack_only opEq)) (constGasFunc GasFastestStep) (makeStackFunc 2 1)),
     (ISZERO, plain (local (stack_only opIszero)) (constGasFunc GasFastestStep) (makeStackFunc 1 1)),
     (AND_OP, plain (local (stack_only opAnd)) (constGasFunc GasFastestStep) (makeStackFunc 2 1)),
     (XOR_OP, plain (local (stack_only opXor)) (constGasFunc GasFastestStep) (makeStackFunc 2 1)),
     (OR_OP, plain (local (stack_only opOr)) (constGasFunc GasFastestStep) (makeStackFunc 2 1)),
     (NOT_OP, plain (local (stack_only opNot)) (constGasFunc GasFastestStep) (makeStackFunc 1 1)),
     (BYTE, (plain (local (stack_only opByte)) (constGasFunc GasFastestStep) (makeStackFunc 2 1)))]"

definition env_table :: "(byte \<times> operation) list" where
  "env_table = [
     (SHA3, (plain (local opSha3) gasSha3 (makeStackFunc 2 1))\<lparr>memorySize := Some memorySha3\<rparr>),
     (ADDRESS, plain (local opAddress) (constGasFunc GasQuickStep) (makeStackFunc 0 1)),
     (BALANCE, plain (local opBalance) gasBalance (makeStackFunc 1 1)),
     (ORIGIN, plain (local opOrigin) (constGasFunc GasQuickStep) (makeStackFunc 0 1)),
     (CALLER, plain (local opCaller) (constGasFunc GasQuickStep) (makeStackFunc 0 1)),
     (CALLVALUE, plain (local opCallValue) (constGasFunc GasQuickStep) (makeStackFunc 0 1)),
     (CALLDATALOAD, plain (local opCallDataLoad) (constGasFunc GasFastestStep) (makeStackFunc 1 1)),
     (CALLDATASIZE, plain (local opCallDataSize) (constGasFunc GasQuickStep) (makeStackFunc 0 1)),
     (CALLDATACOPY, (plain (local opCallDataCopy) gasCallDataCopy (makeStackFunc 3 0))\<lparr>memorySize := Some memoryCallDataCopy\<rparr>),
     (CODESIZE, plain (local opCodeSize) (constGasFunc GasQuickStep) (makeStackFunc 0 1)),
     (CODECOPY, (plain (local opCodeCopy) gasCodeCopy (makeStackFunc 3 0))\<lparr>memorySize := Some memoryCodeCopy\<rparr>),
     (GASPRICE, plain (local opGasprice) (constGasFunc GasQuickStep) (makeStackFunc 0 1)),
     (EXTCODESIZE, plain (local opExtCodeSize) gasExtCodeSize (makeStackFunc 1 1)),
     (EXTCODECOPY, (plain (local opExtCodeCopy) gasExtCodeCopy (makeStackFunc 4 0))\<lparr>memorySize := Some memoryExtCodeCopy\<rparr>),
     (BLOCKHASH, plain (local opBlockhash) (constGasFunc GasExtStep) (makeStackFunc 1 1)),
     (COINBASE, plain (local opCoinbase) (constGasFunc GasQuickStep) (makeStackFunc 0 1)),
     (TIMESTAMP, plain (local opTimestamp) (constGasFunc GasQuickStep) (makeStackFunc 0 1)),
     (NUMBER, plain (local opNumber) (constGasFunc GasQuickStep) (makeStackFunc 0 1)),
     (DIFFICULTY, plain (local opDifficulty) (constGasFunc GasQuickStep) (makeStackFunc 0 1)),
     (GASLIMIT, (plain (local opGasLimit) (constGasFunc GasQuickStep) (makeStackFunc 0 1)))]"

definition flow_table :: "(byte \<times> operation) list" where
  "flow_table = [
     (POP, plain (local opPop) (constGasFunc GasQuickStep) (makeStackFunc 1 0)),
     (MLOAD, (plain (local opMload) gasMLoad (makeStackFunc 1 1))\<lparr>memorySize := Some memoryMLoad\<rparr>),
     (MSTORE, (plain (local opMstore) gasMStore (makeStackFunc 2 0))\<lparr>memorySize := Some memoryMStore\<rparr>),
     (MSTORE8, (plain (local opMstore8) gasMStore8 (makeStackFunc 2 0))\<lparr>memorySize := Some memoryMStore8\<rparr>),
     (SLOAD, plain (local opSload) gasSLoad (makeStackFunc 1 1)),
     (SSTORE, (plain (local opSstore) gasSStore (makeStackFunc 2 0))\<lparr>writes := True\<rparr>),
     (JUMP, (plain (local opJump) (constGasFunc GasMidStep) (makeStackFunc 1 0))\<lparr>jumps := True\<rparr>),
     (JUMPI, (plain (local opJumpi) (constGasFunc GasSlowStep) (makeStackFunc 2 0))\<lparr>jumps := True\<rparr>),
     (PC, plain (local opPc) (constGasFunc GasQuickStep) (makeStackFunc 0 1)),
     (MSIZE, plain (local opMsize) (constGasFunc GasQuickStep) (makeStackFunc 0 1)),
     (GAS, plain (local opGas) (constGasFunc GasQuickStep) (makeStackFunc 0 1)),
     (JUMPDEST, (plain (local opJumpdest) (constGasFunc JumpdestGas) (makeStackFunc 0 0)))]"

text \<open>The entries of the pushes, duplications, swaps and logs, one per operand size.\<close>

definition push_table1 :: "(byte \<times> operation) list" where
  "push_table1 = map (\<lambda>n. (PUSH1 + of_nat (n - 1),
     plain (local (makePush (of_nat n) n)) gasPush (makeStackFunc 0 1))) [1..<17]"

definition push_table2 :: "(byte \<times> operation) list" where
  "push_table2 = map (\<lambda>n. (PUSH1 + of_nat (n - 1),
     plain (local (makePush (of_nat n) n)) gasPush (makeStackFunc 0 1))) [17..<33]"

definition dup_table :: "(byte \<times> operation) list" where
  "dup_table = map (\<lambda>n. (DUP1 + of_nat (n - 1),
     plain (local (makeDup n)) gasDup (makeDupStackFunc n))) [1..<17]"

definition swap_table :: "(byte \<times> operation) list" where
  "swap_table = map (\<lambda>n. (SWAP1 + of_nat (n - 1),
     plain (local (makeSwap n)) gasSwap (makeSwapStackFunc (n + 1)))) [1..<17]"

definition log_table :: "(byte \<times> operation) list" where
  "log_table = map (\<lambda>n. (LOG0 + of_nat n,
     (plain (local (makeLog n)) (makeGasLog (of_nat n)) (makeStackFunc (n + 2) 0))
       \<lparr>memorySize := Some memoryLog, writes := True\<rparr>)) [0..<5]"

definition call_table :: "(byte \<times> operation) list" where
  "call_table = [
     (CREATE, (plain opCreate gasCreate (makeStackFunc 3 1))\<lparr>memorySize := Some memoryCreate, writes := True, returns := True\<rparr>),
     (CALL, (plain opCall gasCall (makeStackFunc 7 1))\<lparr>memorySize := Some memoryCall, returns := True\<rparr>),
     (CALLCODE, (plain opCallCode gasCallCode (makeStackFunc 7 1))\<lparr>memorySize := Some memoryCall, returns := True\<rparr>),
     (RETURN, (plain (local opReturn) gasReturn (makeStackFunc 2 0))\<lparr>memorySize := Some memoryReturn, halts := True\<rparr>),
     (SELFDESTRUCT, (plain (local opSuicide) gasSuicide (makeStackFunc 1 0))\<lparr>halts := True, writes := True\<rparr>)]"

definition NewFrontierInstructionSet :: "(byte \<times> operation) list" where
  "NewFrontierInstructionSet = arith_table @ env_table @ flow_table @ push_table1 @ push_table2 @
     dup_table @ swap_table @ log_table @ call_table"

definition NewHomesteadInstructionSet :: "(byte \<times> operation) list" where
  "NewHomesteadInstructionSet = [
     (DELEGATECALL, (plain opDelegateCall gasDelegateCall (makeStackFunc 6 1))\<lparr>memorySize := Some memoryDelegateCall, returns := True\<rparr>)]
     @ NewFrontierInstructionSet"

definition NewByzantiumInstructionSet :: "(byte \<times> operation) list" where
  "NewByzantiumInstructionSet = [
     (STATICCALL, (plain opStaticCall gasStaticCall (makeStackFunc 6 1))\<lparr>memorySize := Some memoryStaticCall, returns := True\<rparr>),
     (RETURNDATASIZE, plain (local opReturnDataSize) (constGasFunc GasQuickStep) (makeStackFunc 0 1)),
     (RETURNDATACOPY, (plain (local opReturnDataCopy) gasReturnDataCopy (makeStackFunc 3 0))\<lparr>memorySize := Some memoryReturnDataCopy\<rparr>),
     (REVERT, (plain (local opRevert) gasRevert (makeStackFunc 2 0))\<lparr>memorySize := Some memoryRevert, reverts := True, returns := True\<rparr>)]
     @ NewHomesteadInstructionSet"

definition NewConstantinopleInstructionSet :: "(byte \<times> operation) list" where
  "NewConstantinopleInstructionSet = [
     (SHL, plain (local (stack_only opSHL)) (constGasFunc GasFastestStep) (makeStackFunc 2 1)),
     (SHR, plain (local (stack_only opSHR)) (constGasFunc GasFastestStep) (makeStackFunc 2 1)),
     (SAR, plain (local (stack_only opSAR)) (constGasFunc GasFastestStep) (makeStackFunc 2 1))]
     @ NewByzantiumInstructionSet"

section \<open>The interpreter\<close>

text \<open>\<^verbatim>\<open>NewInterpreter\<close> installs the Byzantium table and the gas table of the chain.\<close>

definition JumpTable :: "byte \<Rightarrow> operation option" where
  "JumpTable = map_of NewByzantiumInstructionSet"

definition enforceRestrictions :: "byte \<Rightarrow> operation \<Rightarrow> stack \<Rightarrow> vm \<Rightarrow> vmerr option option" where
  "enforceRestrictions op oper st v =
     (if \<not> readOnly v then Some None
      else if writes oper then Some (Some errWriteProtection)
      else if op = CALL then do {
        x \<leftarrow> Back st 2;
        Some (if BitLen x > 0 then Some errWriteProtection else None)
      }
      else Some None)"

text \<open>The memory an operation needs, in bytes rounded up to words; the inner option is the overflow.\<close>

definition required_memory :: "operation \<Rightarrow> stack \<Rightarrow> u64 option option" where
  "required_memory oper st = (case memorySize oper of
     None \<Rightarrow> Some (Some 0)
   | Some f \<Rightarrow> do {
       n \<leftarrow> f st;
       Some (do { memSize \<leftarrow> checked (bigUint64 n); checked (SafeMul (toWordSize memSize) 32) })
     })"

text \<open>Everything the loop does before it executes an operation; an error ends the run.\<close>

definition prepare :: "vm_env \<Rightarrow> frame \<Rightarrow> vm \<Rightarrow> (vmerr \<times> vm + operation \<times> frame \<times> vm) option" where
  "prepare env fr v =
     (let op = GetOp (ctr fr) (pc fr) in
      case JumpTable op of
        None \<Rightarrow> Some (Inl (ErrInvalidOpcode op, v))
      | Some oper \<Rightarrow> (case validateStack oper (stk fr) of
          Some e \<Rightarrow> Some (Inl (e, v))
        | None \<Rightarrow> do {
            restr \<leftarrow> enforceRestrictions op oper (stk fr) v;
            case restr of
              Some e \<Rightarrow> Some (Inl (e, v))
            | None \<Rightarrow> do {
                req \<leftarrow> required_memory oper (stk fr);
                case req of
                  None \<Rightarrow> Some (Inl (errGasUintOverflow, v))
                | Some need \<Rightarrow> do {
                    (cost, m, v1) \<leftarrow> gasCost oper GasTableHomestead env (ctr fr) (stk fr) (mem fr) need v;
                    case cost of
                      None \<Rightarrow> Some (Inl (ErrOutOfGas, v1))
                    | Some g \<Rightarrow>
                        (let (paid, c) = UseGas g (ctr fr) in
                         if \<not> paid then Some (Inl (ErrOutOfGas, v1))
                         else Some (Inr (oper,
                           fr\<lparr>ctr := c, mem := if need > 0 then Resize need m else m\<rparr>, v1)))
                  }
              }
          }))"

text \<open>What the loop does with the result of an operation: the run ends or goes on.\<close>

definition conclude :: "operation \<Rightarrow> op_result \<Rightarrow> run_result + frame \<times> vm" where
  "conclude oper r = (case r of ((res, err), fr, v) \<Rightarrow>
     (let v1 = (if returns oper then v\<lparr>returnData := res\<rparr> else v) in
      case err of
        Some e \<Rightarrow> Inl (([], Some e), ctr fr, v1)
      | None \<Rightarrow>
          if reverts oper then Inl ((res, Some errExecutionReverted), ctr fr, v1)
          else if halts oper then Inl ((res, None), ctr fr, v1)
          else if jumps oper then Inr (fr, v1)
          else Inr (fr\<lparr>pc := pc fr + 1\<rparr>, v1)))"

definition step :: "loop \<Rightarrow> vm_env \<Rightarrow> frame \<Rightarrow> vm \<Rightarrow> (run_result + frame \<times> vm) option option" where
  "step loop env fr v = (case prepare env fr v of
     None \<Rightarrow> Some None
   | Some (Inl (e, v1)) \<Rightarrow> Some (Some (Inl (([], Some e), ctr fr, v1)))
   | Some (Inr (oper, fr1, v1)) \<Rightarrow>
       and_then (execute oper loop env fr1 v1) (\<lambda>r. Some (Some (conclude oper r))))"

text \<open>
  The loop with a bound on the number of steps on every path of nested calls. A frame with
  \<open>g\<close> gas needs at most \<open>g + 1\<close>, see the gas theory.
\<close>

primrec interp :: "nat \<Rightarrow> vm_env \<Rightarrow> loop" where
  "interp 0 env fr v = None"
| "interp (Suc n) env fr v =
     and_then (step (interp n env) env fr v)
       (\<lambda>r. case r of Inl res \<Rightarrow> Some (Some res) | Inr (fr1, v1) \<Rightarrow> interp n env fr1 v1)"

end
