(* ===== verification/Evm_GasBound.thy ===== *)
theory Evm_GasBound
  imports Evm_Interp
begin

text \<open>
  Gas bounds every run: the interpreter ends after at most as many nested steps as it has
  gas, and no call, however deeply nested, hands back more gas than it was given.
\<close>

section \<open>Checked arithmetic\<close>

lemma checked_add:
  "checked (SafeAdd a b) = Some r \<Longrightarrow> unat r = unat a + unat b"
  using SafeAdd_ok [of a b] by (auto simp: checked_def split: if_splits)

lemma UseGas_paid: "UseGas g c = (True, c1) \<longleftrightarrow> g \<le> cGas c \<and> c1 = c\<lparr>cGas := cGas c - g\<rparr>"
  by (auto simp: UseGas_def not_less)

lemma UseGas_not_paid: "UseGas g c = (False, c1) \<longleftrightarrow> cGas c < g \<and> c1 = c"
  by (auto simp: UseGas_def)

lemma unat_minus: "g \<le> (a :: u64) \<Longrightarrow> unat (a - g) = unat a - unat g"
  by (rule unat_sub)

lemma UseGas_le: "UseGas g c = (b, c1) \<Longrightarrow> unat (cGas c1) \<le> unat (cGas c)"
  by (cases b) (simp_all add: UseGas_paid UseGas_not_paid unat_minus)

section \<open>Results that arrive\<close>

text \<open>
  The computation is not cut short by the bound, and its result satisfies \<open>P\<close> unless it
  panics.
\<close>

definition ends :: "('a \<Rightarrow> bool) \<Rightarrow> 'a option option \<Rightarrow> bool" where
  "ends P x = (case x of None \<Rightarrow> False | Some None \<Rightarrow> True | Some (Some r) \<Rightarrow> P r)"

lemma ends_simps [simp]:
  "\<not> ends P None" "ends P (Some None)" "ends P (Some (Some r)) = P r"
  by (simp_all add: ends_def)

lemma ends_Some: "ends P (Some x) \<longleftrightarrow> (\<forall>r. x = Some r \<longrightarrow> P r)"
  by (cases x) simp_all

lemma ends_mono: "ends P x \<Longrightarrow> (\<And>r. P r \<Longrightarrow> Q r) \<Longrightarrow> ends Q x"
  by (auto simp: ends_def split: option.splits)

lemma ends_and_then:
  "ends P x \<Longrightarrow> (\<And>y. P y \<Longrightarrow> ends Q (f y)) \<Longrightarrow> ends Q (and_then x f)"
  by (cases x rule: option.exhaust; cases "the x"; simp)

section \<open>Calls\<close>

text \<open>A loop that ends on every frame with less than \<open>n\<close> gas, without creating gas.\<close>

definition bounded :: "nat \<Rightarrow> loop \<Rightarrow> bool" where
  "bounded n L \<longleftrightarrow> (\<forall>fr v. unat (cGas (ctr fr)) < n \<longrightarrow>
     ends (\<lambda>(r, c, v1). unat (cGas c) \<le> unat (cGas (ctr fr))) (L fr v))"

abbreviation gas_left :: "u64 \<Rightarrow> call_result option option \<Rightarrow> bool" where
  "gas_left gas \<equiv> ends (\<lambda>r. unat (fst (snd (fst r))) \<le> unat gas)"

lemma run_bounded:
  assumes "bounded n L" "unat (cGas c) < n"
  shows "ends (\<lambda>(r, c1, v1). unat (cGas c1) \<le> unat (cGas c)) (run L env c input v)"
proof (cases "precompile_of env c")
  case None
  have "ends (\<lambda>(r, c1, v1). unat (cGas c1) \<le> unat (cGas c))
      (L \<lparr>pc = 0, stk = [], mem = NewMemory, ctr = c\<lparr>cInput := input\<rparr>\<rparr> w)" for w
    using assms(1) [unfolded bounded_def, rule_format,
        of "\<lparr>pc = 0, stk = [], mem = NewMemory, ctr = c\<lparr>cInput := input\<rparr>\<rparr>"] assms(2) by simp
  then show ?thesis
    by (auto simp: run_def Run_def None Let_def intro!: ends_and_then)
next
  case (Some p)
  then show ?thesis
    by (auto simp: run_def ends_Some RunPrecompiledContract_def bind_eq_Some_conv
        split: prod.splits if_splits dest: UseGas_le)
qed

lemma settle_gas:
  "settle i r = Some ((ret, g, err), v1) \<Longrightarrow> unat g \<le> unat (cGas (fst (snd r)))"
  by (auto simp: settle_def bind_eq_Some_conv UseGas_def split: option.splits if_splits prod.splits)

lemma settle_bounded:
  assumes "bounded n L" "unat gas < n" "cGas c = gas"
  shows "gas_left gas (and_then (run L env c input v) (\<lambda>r. Some (settle i r)))"
  by (rule ends_and_then [OF run_bounded [OF assms(1)]])
     (use assms in \<open>auto simp: ends_Some dest!: settle_gas\<close>)

lemma load_code_gas: "cGas (fst (load_code env a c s)) = cGas c"
  by (simp add: load_code_def SetCallCode_def Let_def split: prod.splits)

lemma NewContract_gas [simp]: "cGas (NewContract caller a val gas) = gas"
  by (simp add: NewContract_def)

lemma AsDelegate_gas: "AsDelegate caller c = Some c1 \<Longrightarrow> cGas c1 = cGas c"
  by (auto simp: AsDelegate_def split: ContractRef.splits)

lemma Call_bounded:
  assumes "bounded n L" "unat gas < n"
  shows "gas_left gas (Call L env caller a input gas val v)"
  using assms by (auto simp: Call_def early_def Let_def case_prod_unfold load_code_gas
      intro!: settle_bounded split: option.splits)

lemma CallCode_bounded:
  assumes "bounded n L" "unat gas < n"
  shows "gas_left gas (CallCode L env caller a input gas val v)"
  using assms by (auto simp: CallCode_def early_def Let_def case_prod_unfold load_code_gas
      intro!: settle_bounded)

lemma DelegateCall_bounded:
  assumes "bounded n L" "unat gas < n"
  shows "gas_left gas (DelegateCall L env caller a input gas v)"
  using assms by (auto simp: DelegateCall_def early_def Let_def case_prod_unfold load_code_gas
      AsDelegate_gas intro!: settle_bounded split: option.splits)

lemma settle_static_bounded:
  assumes "bounded n L" "unat gas < n" "cGas c = gas"
  shows "gas_left gas (and_then (run L env c input v) (\<lambda>r. Some (settle_static b i r)))"
  by (rule ends_and_then [OF run_bounded [OF assms(1)]])
     (use assms in \<open>auto simp: settle_static_def ends_Some bind_eq_Some_conv dest!: settle_gas\<close>)

lemma StaticCall_bounded:
  assumes "bounded n L" "unat gas < n"
  shows "gas_left gas (StaticCall L env caller a input gas v)"
  using assms by (auto simp: StaticCall_def early_def Let_def case_prod_unfold load_code_gas
      intro!: settle_static_bounded)

lemma store_code_gas: "store_code E a ret c s = (e, c1, s1) \<Longrightarrow> unat (cGas c1) \<le> unat (cGas c)"
  by (auto simp: store_code_def Let_def split: prod.splits if_splits dest: UseGas_le)

lemma finish_create_gas:
  assumes "finish_create env i a r = Some ((ret, b, g, err), v1)"
  shows "unat g \<le> unat (cGas (fst (snd r)))"
proof -
  obtain ret0 err0 c v where r: "r = ((ret0, err0), c, v)" by (cases r) auto
  obtain e1 c1 s1 where e: "(if err0 = None \<and> \<not> length ret0 > MaxCodeSize
      then store_code (sdbE env) a ret0 c (sdb v) else (err0, c, sdb v)) = (e1, c1, s1)"
    by (metis prod_cases3)
  then have "unat (cGas c1) \<le> unat (cGas c)" by (auto split: if_splits dest: store_code_gas)
  moreover have "g = cGas c1 \<or> g = 0"
    using assms unfolding finish_create_def r Let_def prod.case e
    by (auto simp: bind_eq_Some_conv UseGas_def split: if_splits)
  ultimately show ?thesis by (auto simp: r)
qed

abbreviation create_gas_left :: "u64 \<Rightarrow> create_result option option \<Rightarrow> bool" where
  "create_gas_left gas \<equiv> ends (\<lambda>r. unat (fst (snd (snd (fst r)))) \<le> unat gas)"

lemma finish_bounded:
  assumes "bounded n L" "unat gas < n" "cGas c = gas"
  shows "create_gas_left gas (and_then (run L env c input v) (\<lambda>r. Some (finish_create env i a r)))"
  by (rule ends_and_then [OF run_bounded [OF assms(1)]])
     (use assms in \<open>auto simp: ends_Some dest!: finish_create_gas\<close>)

lemma Create_bounded:
  assumes "bounded n L" "unat gas < n"
  shows "create_gas_left gas (Create L env caller cd gas val v)"
proof -
  have c: "cGas (SetCallCode a h cd (NewContract caller a val gas)) = gas" for a h
    by (simp add: SetCallCode_def)
  show ?thesis
    using assms by (auto simp: Create_def Let_def case_prod_unfold c intro!: finish_bounded
        split: option.splits)
qed

section \<open>Instructions that stay in their frame\<close>

text \<open>They leave the gas of the contract alone.\<close>

definition keeps_gas :: "executionFunc \<Rightarrow> bool" where
  "keeps_gas f \<longleftrightarrow> (\<forall>env fr v r fr1 v1. f env fr v = Some (r, fr1, v1) \<longrightarrow> cGas (ctr fr1) = cGas (ctr fr))"

named_theorems keeps_gas_rules \<open>instructions that leave the gas alone\<close>

lemma stack_only_keeps_gas [keeps_gas_rules]: "keeps_gas (stack_only f)"
  by (auto simp: keeps_gas_def stack_only_def ok_def bind_eq_Some_conv)

lemma push_keeps_gas [keeps_gas_rules]:
  "keeps_gas opAddress" "keeps_gas opOrigin" "keeps_gas opCaller" "keeps_gas opCallValue"
  "keeps_gas opCallDataLoad" "keeps_gas opCallDataSize" "keeps_gas opReturnDataSize"
  "keeps_gas opCodeSize" "keeps_gas opGasprice" "keeps_gas opBlockhash" "keeps_gas opCoinbase"
  "keeps_gas opTimestamp" "keeps_gas opNumber" "keeps_gas opDifficulty" "keeps_gas opGasLimit"
  "keeps_gas opPop" "keeps_gas opPc" "keeps_gas opMsize" "keeps_gas opGas" "keeps_gas opJumpdest"
  "keeps_gas opStop" "keeps_gas (makePush a n)"
  by (auto simp: keeps_gas_def push_result_def ok_def bind_eq_Some_conv Let_def
      opAddress_def opOrigin_def opCaller_def opCallValue_def opCallDataLoad_def opCallDataSize_def
      opReturnDataSize_def opCodeSize_def opGasprice_def opBlockhash_def opCoinbase_def
      opTimestamp_def opNumber_def opDifficulty_def opGasLimit_def opPop_def opPc_def opMsize_def
      opGas_def opJumpdest_def opStop_def makePush_def split: if_splits)

lemma copy_to_memory_gas:
  "copy_to_memory src fr v = Some (r, fr1, v1) \<Longrightarrow> cGas (ctr fr1) = cGas (ctr fr)"
  by (auto simp: copy_to_memory_def ok_def bind_eq_Some_conv)

lemma jump_to_gas: "jump_to pos fr v = Some (r, fr1, v1) \<Longrightarrow> cGas (ctr fr1) = cGas (ctr fr)"
  by (auto simp: jump_to_def ok_def fail_def bind_eq_Some_conv Let_def split: if_splits)

lemma memory_keeps_gas [keeps_gas_rules]:
  "keeps_gas opCallDataCopy" "keeps_gas opCodeCopy" "keeps_gas opReturnDataCopy" "keeps_gas opMload"
  "keeps_gas opMstore" "keeps_gas opMstore8" "keeps_gas opJump" "keeps_gas opJumpi"
  "keeps_gas opReturn" "keeps_gas opRevert" "keeps_gas (makeDup n)" "keeps_gas (makeSwap n)"
  by (auto simp: keeps_gas_def push_result_def ok_def fail_def bind_eq_Some_conv Let_def
      opCallDataCopy_def opCodeCopy_def opReturnDataCopy_def opMload_def opMstore_def opMstore8_def
      opJump_def opJumpi_def opReturn_def opRevert_def makeDup_def makeSwap_def stack_only_def
      dest!: copy_to_memory_gas jump_to_gas split: if_splits)

lemma state_keeps_gas [keeps_gas_rules]:
  "keeps_gas opSha3" "keeps_gas opBalance" "keeps_gas opExtCodeSize" "keeps_gas opExtCodeCopy"
  "keeps_gas opSload" "keeps_gas opSstore" "keeps_gas opSuicide" "keeps_gas (makeLog n)"
  by (auto simp: keeps_gas_def push_result_def ok_def bind_eq_Some_conv Let_def case_prod_unfold
      opSha3_def opBalance_def opExtCodeSize_def opExtCodeCopy_def opSload_def opSstore_def
      opSuicide_def makeLog_def dest!: copy_to_memory_gas)

section \<open>Costs\<close>

text \<open>A gas function that always charges something.\<close>

definition pays :: "gasFunc \<Rightarrow> bool" where
  "pays f \<longleftrightarrow> (\<forall>env c st m need v g m1 v1.
     f GasTableHomestead env c st m need v = Some (Some g, m1, v1) \<longrightarrow> 0 < unat g)"

named_theorems pays_rules \<open>gas functions that charge\<close>

lemma const_pays [pays_rules]: "g \<noteq> 0 \<Longrightarrow> pays (constGasFunc g)"
  by (simp add: pays_def constGasFunc_def unat_gt_0)

lemma fixed_pays [pays_rules]:
  "pays gasBalance" "pays gasExtCodeSize" "pays gasSLoad" "pays gasPush" "pays gasSwap" "pays gasDup"
  by (simp_all add: pays_def gasBalance_def gasExtCodeSize_def gasSLoad_def gasPush_def gasSwap_def gasDup_def)

lemma gasSStore_pays [pays_rules]: "pays gasSStore"
  by (auto simp: pays_def gasSStore_def bind_eq_Some_conv Let_def case_prod_unfold split: if_splits)

lemma gasExp_pays [pays_rules]: "pays gasExp"
  by (auto simp: pays_def gasExp_def bind_eq_Some_conv Let_def dest!: checked_add)

lemma copy_cost_ge:
  "copy_cost base perWord pos gt env c st m need v = Some (Some g, m1, v1) \<Longrightarrow> unat base \<le> unat g"
  by (auto simp: copy_cost_def bind_eq_Some_conv Let_def case_prod_unfold dest!: checked_add)

lemma copying_pays [pays_rules]:
  "pays gasCallDataCopy" "pays gasReturnDataCopy" "pays gasSha3" "pays gasCodeCopy"
  "pays gasExtCodeCopy"
  by (auto simp: pays_def gasCallDataCopy_def gasReturnDataCopy_def gasSha3_def gasCodeCopy_def
      gasExtCodeCopy_def dest: copy_cost_ge)

lemma memory_plus_ge:
  "memory_plus base gt env c st m need v = Some (Some g, m1, v1) \<Longrightarrow> unat base \<le> unat g \<and> v1 = v"
  by (auto simp: memory_plus_def bind_eq_Some_conv Let_def case_prod_unfold dest!: checked_add)

lemma memory_pays [pays_rules]:
  "pays gasMLoad" "pays gasMStore8" "pays gasMStore"
  by (auto simp: pays_def gasMLoad_def gasMStore8_def gasMStore_def dest!: memory_plus_ge)

lemma makeGasLog_pays [pays_rules]: "pays (makeGasLog n)"
  by (auto simp: pays_def makeGasLog_def bind_eq_Some_conv Let_def case_prod_unfold
      dest!: checked_add split: option.splits)

text \<open>A call instruction charges its base price and all the gas it hands to the callee.\<close>

lemma charge_call_cost:
  "fst (charge_call gt c cost base v) = Some r \<Longrightarrow>
     \<exists>gas. base = Some gas \<and> unat r = unat gas + unat (callGasTemp (snd (charge_call gt c cost base v)))"
  by (auto simp: charge_call_def split: option.splits dest!: checked_add)

lemma gasCall_cost:
  assumes "gasCall GasTableHomestead env c st m need v = Some (Some g, m1, v1)" "Back st 2 = Some val"
  shows "unat (callGasTemp v1) + 40 + (if val \<noteq> 0 then 9000 else 0) \<le> unat g"
  using assms
  by (auto simp: gasCall_def bind_eq_Some_conv Let_def case_prod_unfold split: if_splits
      dest!: charge_call_cost checked_add)

lemma gasCallCode_cost:
  assumes "gasCallCode GasTableHomestead env c st m need v = Some (Some g, m1, v1)" "Back st 2 = Some val"
  shows "unat (callGasTemp v1) + 40 + (if val \<noteq> 0 then 9000 else 0) \<le> unat g"
  using assms
  by (auto simp: gasCallCode_def bind_eq_Some_conv Let_def case_prod_unfold split: if_splits
      dest!: charge_call_cost checked_add)

lemma gasDelegateCall_cost:
  "gasDelegateCall GasTableHomestead env c st m need v = Some (Some g, m1, v1) \<Longrightarrow>
     unat (callGasTemp v1) + 40 \<le> unat g"
  by (auto simp: gasDelegateCall_def bind_eq_Some_conv Let_def case_prod_unfold
      dest!: charge_call_cost checked_add)

lemma gasStaticCall_cost:
  "gasStaticCall GasTableHomestead env c st m need v = Some (Some g, m1, v1) \<Longrightarrow>
     unat (callGasTemp v1) + 40 \<le> unat g"
  by (auto simp: gasStaticCall_def bind_eq_Some_conv Let_def case_prod_unfold
      dest!: charge_call_cost checked_add)

section \<open>Every operation is sound for gas\<close>

definition charged :: "u64 \<Rightarrow> Memory \<Rightarrow> frame \<Rightarrow> frame" where
  "charged g m fr = fr\<lparr>ctr := (ctr fr)\<lparr>cGas := cGas (ctr fr) - g\<rparr>, mem := m\<rparr>"

lemma charged_simps [simp]:
  "cGas (ctr (charged g m fr)) = cGas (ctr fr) - g" "stk (charged g m fr) = stk fr" "mem (charged g m fr) = m"
  by (simp_all add: charged_def)

text \<open>The gas after an operation: never more, and less unless the operation ends the run.\<close>

definition spent :: "operation \<Rightarrow> u64 \<Rightarrow> op_result \<Rightarrow> bool" where
  "spent oper gas r \<longleftrightarrow>
     (let g = unat (cGas (ctr (fst (snd r)))) in
      g \<le> unat gas \<and> (halts oper \<or> reverts oper \<or> g < unat gas))"

definition gas_sound :: "operation \<Rightarrow> bool" where
  "gas_sound oper \<longleftrightarrow> (\<forall>n L env fr v need g m v1 m1.
     bounded n L \<longrightarrow> unat (cGas (ctr fr)) \<le> n \<longrightarrow>
     gasCost oper GasTableHomestead env (ctr fr) (stk fr) (mem fr) need v = Some (Some g, m, v1) \<longrightarrow>
     g \<le> cGas (ctr fr) \<longrightarrow>
     ends (spent oper (cGas (ctr fr))) (execute oper L env (charged g m1 fr) v1))"

lemma gas_soundI:
  assumes "\<And>n L env fr v need g m v1 m1.
     bounded n L \<Longrightarrow> unat (cGas (ctr fr)) \<le> n \<Longrightarrow>
     gasCost oper GasTableHomestead env (ctr fr) (stk fr) (mem fr) need v = Some (Some g, m, v1) \<Longrightarrow>
     unat g \<le> unat (cGas (ctr fr)) \<Longrightarrow> unat (cGas (ctr fr) - g) = unat (cGas (ctr fr)) - unat g \<Longrightarrow>
     ends (spent oper (cGas (ctr fr))) (execute oper L env (charged g m1 fr) v1)"
  shows "gas_sound oper"
  unfolding gas_sound_def by (intro allI impI, rule assms, assumption+) (simp_all add: unat_minus word_le_nat_alt)

lemma local_gas_sound:
  assumes "execute oper = local f" "keeps_gas f" "halts oper \<or> reverts oper \<or> pays (gasCost oper)"
  shows "gas_sound oper"
proof (rule gas_soundI)
  fix n L env and fr :: frame and v :: vm and need g m v1 m1
  assume c: "gasCost oper GasTableHomestead env (ctr fr) (stk fr) (mem fr) need v = Some (Some g, m, v1)"
    and g: "unat g \<le> unat (cGas (ctr fr))" "unat (cGas (ctr fr) - g) = unat (cGas (ctr fr)) - unat g"
  have "halts oper \<or> reverts oper \<or> 0 < unat g" using assms(3) c unfolding pays_def by metis
  moreover have "cGas (ctr (fst (snd r))) = cGas (ctr fr) - g"
    if "f env (charged g m1 fr) v1 = Some r" for r
    using assms(2) that unfolding keeps_gas_def by (cases r) fastforce
  ultimately show "ends (spent oper (cGas (ctr fr))) (execute oper L env (charged g m1 fr) v1)"
    unfolding assms(1) local_def ends_Some spent_def Let_def using g by fastforce
qed

text \<open>The call instructions, given what the call returns.\<close>

lemma after_call_gas:
  "after_call fr st o1 n r = Some x \<Longrightarrow> cGas (ctr (fst (snd x))) = cGas (ctr fr) + fst (snd (fst r))"
  by (auto simp: after_call_def bind_eq_Some_conv split: prod.splits)

lemma call_spent:
  assumes "gas_left gas call" "unat (cGas (ctr fr1)) + unat gas < unat gas0"
  shows "ends (spent oper gas0) (and_then call (\<lambda>r. Some (after_call fr1 st o1 n r)))"
proof (rule ends_and_then [OF assms(1)])
  fix y :: call_result assume y: "unat (fst (snd (fst y))) \<le> unat gas"
  have "unat (cGas (ctr fr1) + fst (snd (fst y))) < unat gas0"
    using y assms(2) by (simp add: unat_word_ariths)
  then show "ends (spent oper gas0) (Some (after_call fr1 st o1 n y))"
    by (auto simp: ends_Some spent_def Let_def dest!: after_call_gas)
qed

lemma Back_pop:
  assumes "pop_call fr = Some (a, val, args, ro, rs, st)"
  shows "\<exists>x. Back (stk fr) 2 = Some x \<and> val = U256 x"
  using assms by (auto simp: pop_call_def bind_eq_Some_conv pop_def Back_def split: list.splits)

lemma stipend_bound:
  assumes "unat t + 40 + (if x \<noteq> 0 then 9000 else 0) \<le> unat g" "unat (g :: u64) \<le> k"
  shows "unat (t + (if U256 x \<noteq> 0 then CallStipend else 0)) + 40 \<le> unat g"
proof -
  have "x = 0 \<Longrightarrow> U256 x = 0" by (simp add: U256_def)
  moreover have "unat (t + 2300) \<le> unat t + 2300"
    by (simp add: unat_word_ariths mod_less_eq_dividend)
  ultimately show ?thesis using assms by (auto split: if_splits)
qed

lemma value_call_gas_sound:
  assumes ex: "\<And>L env fr v. execute oper L env fr v = (case pop_call fr of
       None \<Rightarrow> Some None
     | Some (a, val, args, ro, rs, st) \<Rightarrow>
         (let gas = callGasTemp v + (if val \<noteq> 0 then CallStipend else 0) in
          and_then (call L env (ContractOf (ctr fr)) a args gas val v)
            (\<lambda>r. Some (after_call fr st ro rs r))))"
    and cost: "\<And>env c st m need v g m1 v1 x.
       gasCost oper GasTableHomestead env c st m need v = Some (Some g, m1, v1) \<Longrightarrow> Back st 2 = Some x \<Longrightarrow>
       unat (callGasTemp v1) + 40 + (if x \<noteq> 0 then 9000 else 0) \<le> unat g"
    and call: "\<And>n L env caller a input gas val v.
       bounded n L \<Longrightarrow> unat gas < n \<Longrightarrow> gas_left gas (call L env caller a input gas val v)"
  shows "gas_sound oper"
proof (rule gas_soundI)
  fix n L env and fr :: frame and v :: vm and need g m v1 m1
  assume L: "bounded n L" and n: "unat (cGas (ctr fr)) \<le> n"
    and c: "gasCost oper GasTableHomestead env (ctr fr) (stk fr) (mem fr) need v = Some (Some g, m, v1)"
    and g: "unat g \<le> unat (cGas (ctr fr))" "unat (cGas (ctr fr) - g) = unat (cGas (ctr fr)) - unat g"
  let ?fr = "charged g m1 fr"
  show "ends (spent oper (cGas (ctr fr))) (execute oper L env ?fr v1)"
  proof (cases "pop_call ?fr")
    case (Some q)
    obtain a val args ro rs st where q: "q = (a, val, args, ro, rs, st)" by (cases q)
    let ?gas = "callGasTemp v1 + (if val \<noteq> 0 then CallStipend else 0)"
    obtain x where "Back (stk fr) 2 = Some x" "val = U256 x" using Back_pop [of ?fr] Some q by auto
    then have gas: "unat ?gas + 40 \<le> unat g" using stipend_bound [OF cost [OF c] order_refl] by simp
    then have "gas_left ?gas (call L env (ContractOf (ctr ?fr)) a args ?gas val v1)"
      using call [OF L] n g by simp
    then show ?thesis
      unfolding ex Some q option.case prod.case Let_def by (rule call_spent) (use gas g in simp)
  qed (simp add: ex)
qed

lemma plain_call_gas_sound:
  assumes ex: "\<And>L env fr v. execute oper L env fr v = (case pop_call0 fr of
       None \<Rightarrow> Some None
     | Some (a, args, ro, rs, st) \<Rightarrow>
         and_then (call L env (ContractOf (ctr fr)) a args (callGasTemp v) v)
           (\<lambda>r. Some (after_call fr st ro rs r)))"
    and cost: "\<And>env c st m need v g m1 v1.
       gasCost oper GasTableHomestead env c st m need v = Some (Some g, m1, v1) \<Longrightarrow>
       unat (callGasTemp v1) + 40 \<le> unat g"
    and call: "\<And>n L env caller a input gas v.
       bounded n L \<Longrightarrow> unat gas < n \<Longrightarrow> gas_left gas (call L env caller a input gas v)"
  shows "gas_sound oper"
proof (rule gas_soundI)
  fix n L env and fr :: frame and v :: vm and need g m v1 m1
  assume L: "bounded n L" and n: "unat (cGas (ctr fr)) \<le> n"
    and c: "gasCost oper GasTableHomestead env (ctr fr) (stk fr) (mem fr) need v = Some (Some g, m, v1)"
    and g: "unat g \<le> unat (cGas (ctr fr))" "unat (cGas (ctr fr) - g) = unat (cGas (ctr fr)) - unat g"
  let ?fr = "charged g m1 fr"
  show "ends (spent oper (cGas (ctr fr))) (execute oper L env ?fr v1)"
  proof (cases "pop_call0 ?fr")
    case (Some q)
    obtain a args ro rs st where q: "q = (a, args, ro, rs, st)" by (cases q)
    have "gas_left (callGasTemp v1) (call L env (ContractOf (ctr ?fr)) a args (callGasTemp v1) v1)"
      using call [OF L] n g cost [OF c] by simp
    then show ?thesis
      unfolding ex Some q option.case prod.case
      by (rule call_spent) (use cost [OF c] g in simp)
  qed (simp add: ex)
qed

lemma create_gas_sound:
  assumes "execute oper = opCreate" "gasCost oper = gasCreate"
  shows "gas_sound oper"
proof (rule gas_soundI)
  fix n L env and fr :: frame and v :: vm and need g m v1 m1
  assume L: "bounded n L" and n: "unat (cGas (ctr fr)) \<le> n"
    and c: "gasCost oper GasTableHomestead env (ctr fr) (stk fr) (mem fr) need v = Some (Some g, m, v1)"
    and g: "unat g \<le> unat (cGas (ctr fr))" "unat (cGas (ctr fr) - g) = unat (cGas (ctr fr)) - unat g"
  define h where "h = cGas (ctr fr) - g"
  have g0: "32000 \<le> unat g" using c memory_plus_ge by (fastforce simp: assms gasCreate_def)
  have q: "unat (h - h div 64) = unat h - unat h div 64" "h - (h - h div 64) = h div 64"
    by (simp_all add: unat_minus word_le_nat_alt unat_div)
  have u: "UseGas (h - h div 64) (ctr (charged g m1 fr)) = (True, (ctr (charged g m1 fr))\<lparr>cGas := h div 64\<rparr>)"
    using q by (simp add: UseGas_def h_def [symmetric] word_less_nat_alt not_less)
  have b: "create_gas_left (h - h div 64) (Create L env (ContractOf ct) input (h - h div 64) val v1)" for ct input val
    by (rule Create_bounded [OF L]) (use n g g0 q in \<open>simp add: h_def\<close>)
  have s: "unat (h div 64 + r) < unat (cGas (ctr fr))" if "unat r \<le> unat (h - h div 64)" for r
  proof -
    have "unat (h div 64) + unat r \<le> unat h" using that q(1) by (simp add: unat_div)
    moreover have "unat h < unat (cGas (ctr fr))" using g g0 by (simp add: h_def)
    moreover have "unat (h div 64 + r) \<le> unat (h div 64) + unat r"
      by (simp add: unat_word_ariths mod_less_eq_dividend)
    ultimately show ?thesis by linarith
  qed
  show "ends (spent oper (cGas (ctr fr))) (execute oper L env (charged g m1 fr) v1)"
    unfolding assms opCreate_def
    by (auto simp: Let_def u h_def [symmetric] spent_def s less_imp_le [OF s] split: option.splits
        intro!: ends_and_then [OF b])
qed

section \<open>The instruction set\<close>

lemma gas_sound_update [simp]:
  "gas_sound (oper\<lparr>memorySize := x\<rparr>) = gas_sound oper" "gas_sound (oper\<lparr>writes := b\<rparr>) = gas_sound oper"
  "gas_sound (oper\<lparr>returns := b\<rparr>) = gas_sound oper" "gas_sound (oper\<lparr>jumps := b\<rparr>) = gas_sound oper"
  by (simp_all add: gas_sound_def spent_def [abs_def])

lemma gas_sound_plain:
  "keeps_gas f \<Longrightarrow> pays gas \<Longrightarrow> gas_sound (plain (local f) gas val)"
  "keeps_gas f \<Longrightarrow> gas_sound ((plain (local f) gas val)\<lparr>halts := True\<rparr>)"
  "keeps_gas f \<Longrightarrow> gas_sound ((plain (local f) gas val)\<lparr>memorySize := x, halts := True\<rparr>)"
  "keeps_gas f \<Longrightarrow> gas_sound ((plain (local f) gas val)\<lparr>memorySize := x, reverts := True\<rparr>)"
  by (rule local_gas_sound; simp)+

lemma gas_sound_calls:
  "gas_sound (plain opCreate gasCreate val)" "gas_sound (plain opCall gasCall val)"
  "gas_sound (plain opCallCode gasCallCode val)" "gas_sound (plain opDelegateCall gasDelegateCall val)"
  "gas_sound (plain opStaticCall gasStaticCall val)"
proof -
  show "gas_sound (plain opCreate gasCreate val)" by (rule create_gas_sound) simp_all
  show "gas_sound (plain opCall gasCall val)"
    by (rule value_call_gas_sound [where call = Call])
       (simp_all add: opCall_def gasCall_cost Call_bounded)
  show "gas_sound (plain opCallCode gasCallCode val)"
    by (rule value_call_gas_sound [where call = CallCode])
       (simp_all add: opCallCode_def gasCallCode_cost CallCode_bounded)
  show "gas_sound (plain opDelegateCall gasDelegateCall val)"
    by (rule plain_call_gas_sound [where call = DelegateCall])
       (simp_all add: opDelegateCall_def gasDelegateCall_cost DelegateCall_bounded)
  show "gas_sound (plain opStaticCall gasStaticCall val)"
    by (rule plain_call_gas_sound [where call = StaticCall])
       (simp_all add: opStaticCall_def gasStaticCall_cost StaticCall_bounded)
qed

lemma table_gas_sound:
  "\<forall>e \<in> set arith_table. gas_sound (snd e)" "\<forall>e \<in> set env_table. gas_sound (snd e)"
  "\<forall>e \<in> set flow_table. gas_sound (snd e)" "\<forall>e \<in> set call_table. gas_sound (snd e)"
  "\<forall>e \<in> set (push_table1 @ push_table2 @ dup_table @ swap_table @ log_table). gas_sound (snd e)"
  by (simp_all add: arith_table_def env_table_def flow_table_def call_table_def push_table1_def
      push_table2_def dup_table_def swap_table_def log_table_def gas_sound_plain gas_sound_calls
      ball_Un keeps_gas_rules pays_rules)

lemma JumpTable_gas_sound: "JumpTable op = Some oper \<Longrightarrow> gas_sound oper"
proof -
  have "\<forall>e \<in> set NewByzantiumInstructionSet. gas_sound (snd e)"
    using table_gas_sound
    by (simp add: NewByzantiumInstructionSet_def NewHomesteadInstructionSet_def
        NewFrontierInstructionSet_def ball_Un gas_sound_plain gas_sound_calls keeps_gas_rules pays_rules)
  then show "JumpTable op = Some oper \<Longrightarrow> gas_sound oper"
    by (auto simp: JumpTable_def dest!: map_of_SomeD)
qed

section \<open>The main loop\<close>

lemma prepare_Inr:
  assumes "prepare env fr v = Some (Inr (oper, fr1, v1))"
  shows "\<exists>need g m m1. JumpTable (GetOp (ctr fr) (pc fr)) = Some oper \<and>
    gasCost oper GasTableHomestead env (ctr fr) (stk fr) (mem fr) need v = Some (Some g, m, v1) \<and>
    g \<le> cGas (ctr fr) \<and> fr1 = charged g m1 fr"
  using assms
  by (auto simp: prepare_def Let_def bind_eq_Some_conv charged_def UseGas_def not_less
      split: option.splits if_splits)

lemma conclude_gas:
  "spent oper gas r \<Longrightarrow> case conclude oper r of
     Inl (res, c, v) \<Rightarrow> unat (cGas c) \<le> unat gas
   | Inr (fr, v) \<Rightarrow> unat (cGas (ctr fr)) < unat gas"
  by (auto simp: spent_def conclude_def Let_def split: prod.splits option.splits)

lemma step_gas:
  assumes "bounded n L" "unat (cGas (ctr fr)) \<le> n"
  shows "ends (\<lambda>r. case r of
      Inl (res, c, v) \<Rightarrow> unat (cGas c) \<le> unat (cGas (ctr fr))
    | Inr (fr1, v) \<Rightarrow> unat (cGas (ctr fr1)) < unat (cGas (ctr fr))) (step L env fr v)"
proof (cases "prepare env fr v")
  case (Some r)
  show ?thesis
  proof (cases r)
    case (Inr q)
    obtain oper fr1 v1 where q: "q = (oper, fr1, v1)" by (cases q)
    obtain need g m m1 where "JumpTable (GetOp (ctr fr) (pc fr)) = Some oper"
      "gasCost oper GasTableHomestead env (ctr fr) (stk fr) (mem fr) need v = Some (Some g, m, v1)"
      "g \<le> cGas (ctr fr)" "fr1 = charged g m1 fr"
      using prepare_Inr Some Inr q by blast
    then have "ends (spent oper (cGas (ctr fr))) (execute oper L env fr1 v1)"
      using JumpTable_gas_sound assms unfolding gas_sound_def by blast
    then show ?thesis
      by (simp add: step_def Some Inr q) (auto elim!: ends_and_then dest: conclude_gas)
  qed (auto simp: step_def Some)
qed (simp add: step_def)

lemma interp_bounded: "bounded n (interp n env)"
proof (induction n)
  case (Suc n)
  show ?case
    unfolding bounded_def
  proof (intro allI impI)
    fix fr :: frame and v assume g: "unat (cGas (ctr fr)) < Suc n"
    show "ends (\<lambda>(r, c, v1). unat (cGas c) \<le> unat (cGas (ctr fr))) (interp (Suc n) env fr v)"
      unfolding interp.simps
    proof (rule ends_and_then [OF step_gas [OF Suc]])
      fix r :: "run_result + frame \<times> vm" assume r: "case r of Inl (res, c, v) \<Rightarrow> unat (cGas c) \<le> unat (cGas (ctr fr))
        | Inr (fr1, v) \<Rightarrow> unat (cGas (ctr fr1)) < unat (cGas (ctr fr))"
      show "ends (\<lambda>(r, c, v1). unat (cGas c) \<le> unat (cGas (ctr fr)))
        (case r of Inl res \<Rightarrow> Some (Some res) | Inr (fr1, v1) \<Rightarrow> interp n env fr1 v1)"
      proof (cases r)
        case (Inr q)
        obtain fr1 v1 where q: "q = (fr1, v1)" by (cases q)
        with Inr r g have "unat (cGas (ctr fr1)) < n" "unat (cGas (ctr fr1)) \<le> unat (cGas (ctr fr))" by auto
        with Suc have "ends (\<lambda>(r, c, v1). unat (cGas c) \<le> unat (cGas (ctr fr1))) (interp n env fr1 v1)"
          unfolding bounded_def by blast
        then have "ends (\<lambda>(r, c, v1). unat (cGas c) \<le> unat (cGas (ctr fr))) (interp n env fr1 v1)"
          by (rule ends_mono) (use r Inr q in auto)
        then show ?thesis by (simp add: Inr q)
      qed (use r in auto)
    qed (use g in simp)
  qed
qed (simp add: bounded_def)

section \<open>The bound does not matter\<close>

text \<open>A computation that agrees with another one wherever it arrives at a result.\<close>

definition upto :: "'a option option \<Rightarrow> 'a option option \<Rightarrow> bool" where
  "upto x y \<longleftrightarrow> x = None \<or> x = y"

lemma upto_refl [simp, intro!]: "upto x x"
  by (simp add: upto_def)

lemma upto_and_then: "upto x y \<Longrightarrow> (\<And>a. upto (f a) (g a)) \<Longrightarrow> upto (and_then x f) (and_then y g)"
  by (auto simp: upto_def and_then_def split: option.splits)

definition loop_upto :: "loop \<Rightarrow> loop \<Rightarrow> bool" where
  "loop_upto L K \<longleftrightarrow> (\<forall>fr v. upto (L fr v) (K fr v))"

lemma run_upto: "loop_upto L K \<Longrightarrow> upto (run L env c input v) (run K env c input v)"
  by (auto simp: loop_upto_def run_def Run_def Let_def intro!: upto_and_then split: option.split)

lemma calls_upto:
  assumes "loop_upto L K"
  shows "upto (Call L env caller a input gas val v) (Call K env caller a input gas val v)"
    and "upto (CallCode L env caller a input gas val v) (CallCode K env caller a input gas val v)"
    and "upto (DelegateCall L env caller a input gas v) (DelegateCall K env caller a input gas v)"
    and "upto (StaticCall L env caller a input gas v) (StaticCall K env caller a input gas v)"
    and "upto (Create L env caller cd gas val v) (Create K env caller cd gas val v)"
  by (auto simp: Call_def CallCode_def DelegateCall_def StaticCall_def Create_def Let_def case_prod_unfold
      intro!: upto_and_then run_upto assms split: option.split)

definition upto_sound :: "operation \<Rightarrow> bool" where
  "upto_sound oper \<longleftrightarrow> (\<forall>L K env fr v. loop_upto L K \<longrightarrow>
     upto (execute oper L env fr v) (execute oper K env fr v))"

lemma upto_sound_update [simp]:
  "upto_sound (oper\<lparr>memorySize := x\<rparr>) = upto_sound oper" "upto_sound (oper\<lparr>writes := b\<rparr>) = upto_sound oper"
  "upto_sound (oper\<lparr>returns := b\<rparr>) = upto_sound oper" "upto_sound (oper\<lparr>jumps := b\<rparr>) = upto_sound oper"
  "upto_sound (oper\<lparr>halts := b\<rparr>) = upto_sound oper" "upto_sound (oper\<lparr>reverts := b\<rparr>) = upto_sound oper"
  by (simp_all add: upto_sound_def)

lemma upto_sound_plain [simp]: "upto_sound (plain (local f) gas val)"
  by (simp add: upto_sound_def local_def)

lemma upto_sound_calls [simp]:
  "upto_sound (plain opCreate gas val)" "upto_sound (plain opCall gas val)"
  "upto_sound (plain opCallCode gas val)" "upto_sound (plain opDelegateCall gas val)"
  "upto_sound (plain opStaticCall gas val)"
  by (auto simp: upto_sound_def opCreate_def opCall_def opCallCode_def opDelegateCall_def opStaticCall_def
      Let_def case_prod_unfold intro!: upto_and_then calls_upto split: option.split)

lemma JumpTable_upto: "JumpTable op = Some oper \<Longrightarrow> upto_sound oper"
proof -
  have "\<forall>e \<in> set NewByzantiumInstructionSet. upto_sound (snd e)"
    by (simp add: NewByzantiumInstructionSet_def NewHomesteadInstructionSet_def ball_Un
        NewFrontierInstructionSet_def arith_table_def env_table_def flow_table_def call_table_def
        push_table1_def push_table2_def dup_table_def swap_table_def log_table_def)
  then show "JumpTable op = Some oper \<Longrightarrow> upto_sound oper"
    by (auto simp: JumpTable_def dest!: map_of_SomeD)
qed

lemma step_upto: "loop_upto L K \<Longrightarrow> upto (step L env fr v) (step K env fr v)"
  using JumpTable_upto prepare_Inr unfolding step_def
  by (fastforce simp: upto_sound_def intro!: upto_and_then split: option.split sum.split)

lemma interp_upto: "n \<le> m \<Longrightarrow> loop_upto (interp n env) (interp m env)"
proof (induction n arbitrary: m)
  case 0
  then show ?case by (simp add: loop_upto_def upto_def)
next
  case (Suc n)
  then obtain k where m: "m = Suc k" "n \<le> k" by (cases m) auto
  then show ?case
    using step_upto [OF Suc.IH] Suc.IH [of k]
    by (auto simp: loop_upto_def intro!: upto_and_then split: sum.split)
qed

section \<open>Calls end\<close>

lemma fixed_result:
  assumes "ends P (f n)" and "\<And>m. n \<le> m \<Longrightarrow> upto (f n) (f m)"
  shows "\<exists>r. (\<forall>m \<ge> n. f m = Some r) \<and> (case r of None \<Rightarrow> True | Some x \<Rightarrow> P x)"
proof -
  obtain r where r: "f n = Some r" using assms(1) by (cases "f n") auto
  moreover have "f m = Some r" if "n \<le> m" for m using assms(2) [OF that] r by (simp add: upto_def)
  moreover have "case r of None \<Rightarrow> True | Some x \<Rightarrow> P x" using assms(1) r by (cases r) auto
  ultimately show ?thesis by blast
qed

text \<open>
  C12. Every message call and every contract creation ends: with \<open>gas\<close> units of gas, more
  than \<open>gas\<close> steps on no path of nested calls, whatever code the contracts run, and the
  result is the same for every larger bound on the steps. Unless the node panics, the
  gas handed back is at most the gas given, although gas is added back after every
  nested call with unchecked 64-bit additions.
\<close>

theorem calls_end_within_gas:
  "(\<exists>r. (\<forall>n > unat gas. Call (interp n env) env caller a input gas val v = Some r) \<and>
     (case r of None \<Rightarrow> True | Some ((ret, g, err), v1) \<Rightarrow> unat g \<le> unat gas)) \<and>
   (\<exists>r. (\<forall>n > unat gas. CallCode (interp n env) env caller a input gas val v = Some r) \<and>
     (case r of None \<Rightarrow> True | Some ((ret, g, err), v1) \<Rightarrow> unat g \<le> unat gas)) \<and>
   (\<exists>r. (\<forall>n > unat gas. DelegateCall (interp n env) env caller a input gas v = Some r) \<and>
     (case r of None \<Rightarrow> True | Some ((ret, g, err), v1) \<Rightarrow> unat g \<le> unat gas)) \<and>
   (\<exists>r. (\<forall>n > unat gas. StaticCall (interp n env) env caller a input gas v = Some r) \<and>
     (case r of None \<Rightarrow> True | Some ((ret, g, err), v1) \<Rightarrow> unat g \<le> unat gas)) \<and>
   (\<exists>r. (\<forall>n > unat gas. Create (interp n env) env caller input gas val v = Some r) \<and>
     (case r of None \<Rightarrow> True | Some ((ret, b, g, err), v1) \<Rightarrow> unat g \<le> unat gas))"
proof -
  let ?n = "Suc (unat gas)"
  note b = interp_bounded [of ?n env] and u = interp_upto [of ?n _ env]
  note fix_call = fixed_result [where n = ?n and P = "\<lambda>r. unat (fst (snd (fst r))) \<le> unat gas"]
  note fix_create = fixed_result [where n = ?n and P = "\<lambda>r. unat (fst (snd (snd (fst r)))) \<le> unat gas"]
  show ?thesis
    using fix_call [where f = "\<lambda>n. Call (interp n env) env caller a input gas val v",
        OF Call_bounded [OF b] calls_upto(1) [OF u]]
      fix_call [where f = "\<lambda>n. CallCode (interp n env) env caller a input gas val v",
        OF CallCode_bounded [OF b] calls_upto(2) [OF u]]
      fix_call [where f = "\<lambda>n. DelegateCall (interp n env) env caller a input gas v",
        OF DelegateCall_bounded [OF b] calls_upto(3) [OF u]]
      fix_call [where f = "\<lambda>n. StaticCall (interp n env) env caller a input gas v",
        OF StaticCall_bounded [OF b] calls_upto(4) [OF u]]
      fix_create [where f = "\<lambda>n. Create (interp n env) env caller input gas val v",
        OF Create_bounded [OF b] calls_upto(5) [OF u]]
    by (simp only: Suc_le_eq case_prod_unfold lessI simp_thms)
qed

definition demo_vm_env :: vm_env where
  "demo_vm_env = \<lparr>Origin = 7, GasPrice = 1, Coinbase = 9, GasLimit = 1000000, BlockNumber = 5, Time = 100,
     GetHash = (\<lambda>_. 0), NoRecursion = False, EnablePreimageRecording = False,
     precompiles = (\<lambda>_. None), CreateAddress = (\<lambda>a n. a + ucast n + 1), sdbE = demo_env\<rparr>"

definition demo_vm :: "stateDB \<Rightarrow> vm" where
  "demo_vm s = \<lparr>sdb = s, depth = 0, readOnly = False, returnData = [], jumpdests = Map.empty,
     callGasTemp = 0\<rparr>"

theorem calls_end_within_gas_witness:
  "\<exists>r. (\<forall>n > unat (50000 :: u64). Create (interp n demo_vm_env) demo_vm_env (AccountRef 7) [0x60, 1, 0x60, 2, 1, 0] 50000 0
         (demo_vm (New empty_trie)) = Some r) \<and>
     (case r of None \<Rightarrow> True | Some ((ret, b, g, err), v1) \<Rightarrow> unat g \<le> unat (50000 :: u64))"
  using calls_end_within_gas [of 50000 demo_vm_env "AccountRef 7" 0 "[0x60, 1, 0x60, 2, 1, 0]" 0
      "demo_vm (New empty_trie)"] by (elim conjE)

end
