(* ===== verification/State_Runs.thy ===== *)
theory State_Runs
  imports State_Revert
begin

text \<open>
  Runs of the database that a client performs between two of its own snapshots, and the
  coarser comparison of two databases by their read methods, in which an account without
  content and a missing account are alike.
\<close>

section \<open>Runs\<close>

text \<open>
  The database \<^term>\<open>t\<close> is reached from \<^term>\<open>s\<close> by operations that revert only to snapshots
  taken on the way.
\<close>

definition runs :: "sdb_env \<Rightarrow> stateDB \<Rightarrow> stateDB \<Rightarrow> bool" where
  "runs E s t \<longleftrightarrow> (\<exists>ops. exec_ops E ops s = Some t \<and> (\<forall>q. RevertOp q \<in> set ops \<longrightarrow> nextRevisionId s \<le> q))"

lemma exec_ops_append:
  "exec_ops E (xs @ ys) s = do { t \<leftarrow> exec_ops E xs s; exec_ops E ys t }"
  by (induction xs arbitrary: s) (auto split: bind_splits)

lemma exec_op_nextRevisionId:
  assumes "exec_op E x s = Some t" "sdb_inv s"
  shows "nextRevisionId s \<le> nextRevisionId t"
proof (cases "writes_only x")
  case True
  have "extends E s t"
    by (rule extends_exec_op [OF _ True assms(1)])
       (use assms(2) in \<open>simp add: sdb_inv_def wf_cache_def\<close>)
  then show ?thesis by (simp add: extends_def)
next
  case False
  then consider "x = SnapshotOp" | q where "x = RevertOp q" by (cases x) auto
  then show ?thesis
  proof cases
    case 1
    with assms(1) show ?thesis by (auto simp: Snapshot_def)
  next
    case 2
    with assms(1) have rev: "RevertToSnapshot q s = Some t" by simp
    obtain pre n post u where "undo_all (drop n (journal s)) s = Some u"
      "t = u\<lparr>journal := take n (journal s), validRevisions := pre\<rparr>"
      using rev assms(2) by (rule RevertToSnapshot_cases)
    with undo_all_frame show ?thesis by fastforce
  qed
qed

lemma exec_ops_nextRevisionId:
  "exec_ops E xs s = Some t \<Longrightarrow> sdb_inv s \<Longrightarrow> nextRevisionId s \<le> nextRevisionId t"
proof (induction xs arbitrary: s)
  case (Cons x xs)
  then obtain s1 where s1: "exec_op E x s = Some s1" "exec_ops E xs s1 = Some t"
    by (auto simp: bind_eq_Some_conv)
  with exec_op_nextRevisionId [OF s1(1) Cons.prems(2)] exec_op_inv(1) [OF s1(1) Cons.prems(2)] Cons.IH
  show ?case by fastforce
qed simp

lemma runs_refl [simp, intro!]: "runs E s s"
  unfolding runs_def by (rule exI [of _ "[]"]) simp

lemma runs_inv: "runs E s t \<Longrightarrow> sdb_inv s \<Longrightarrow> sdb_inv t"
  using exec_ops_inv(1) by (auto simp: runs_def)

lemma runs_trans:
  assumes "runs E s t" "sdb_inv s" "runs E t u"
  shows "runs E s u"
proof -
  obtain xs where xs: "exec_ops E xs s = Some t" "\<forall>q. RevertOp q \<in> set xs \<longrightarrow> nextRevisionId s \<le> q"
    using assms(1) by (auto simp: runs_def)
  obtain ys where ys: "exec_ops E ys t = Some u" "\<forall>q. RevertOp q \<in> set ys \<longrightarrow> nextRevisionId t \<le> q"
    using assms(3) by (auto simp: runs_def)
  have "nextRevisionId s \<le> nextRevisionId t" by (rule exec_ops_nextRevisionId [OF xs(1) assms(2)])
  with xs ys show ?thesis
    unfolding runs_def by (intro exI [of _ "xs @ ys"]) (auto simp: exec_ops_append)
qed

lemma runs_op:
  "exec_op E x s = Some t \<Longrightarrow> writes_only x \<Longrightarrow> runs E s t"
  unfolding runs_def by (rule exI [of _ "[x]"]) auto

lemma runs_Snapshot: "runs E s (snd (Snapshot s))"
  unfolding runs_def by (rule exI [of _ "[SnapshotOp]"]) simp

text \<open>Reverting to the own snapshot after a run: it succeeds and restores the view.\<close>

lemma runs_revert:
  assumes "sdb_inv s" "runs E (snd (Snapshot s)) t"
  shows "\<exists>u. RevertToSnapshot (fst (Snapshot s)) t = Some u \<and> runs E s u \<and> observe E u = observe E s \<and>
    journal u = journal s \<and> validRevisions u = validRevisions s"
proof -
  obtain xs where xs: "exec_ops E xs (snd (Snapshot s)) = Some t"
    "\<forall>q. RevertOp q \<in> set xs \<longrightarrow> nextRevisionId s < q"
    using assms(2) by (auto simp: runs_def Snapshot_def add1_zle_eq)
  then have "nested_in (fst (Snapshot s)) xs" by (auto simp: nested_in_def Snapshot_def)
  from revert_own_snapshot [OF assms(1) xs(1) this] obtain u where
    u: "RevertToSnapshot (fst (Snapshot s)) t = Some u" "observe E u = observe E s"
      "journal u = journal s" "validRevisions u = validRevisions s" by blast
  have "runs E s u"
    unfolding runs_def
    by (rule exI [of _ "SnapshotOp # xs @ [RevertOp (fst (Snapshot s))]"])
       (use xs u(1) in \<open>auto simp: exec_ops_append Snapshot_def\<close>)
  with u show ?thesis by blast
qed

section \<open>Databases that read alike\<close>

definition alike :: "sdb_env \<Rightarrow> stateDB \<Rightarrow> stateDB \<Rightarrow> bool" where
  "alike E s t \<longleftrightarrow>
     (\<forall>a. fst (GetNonce a s) = fst (GetNonce a t) \<and> fst (GetBalance a s) = fst (GetBalance a t) \<and>
          fst (GetCode E a s) = fst (GetCode E a t) \<and> fst (HasSuicided a s) = fst (HasSuicided a t) \<and>
          (\<forall>k. fst (GetState E a k s) = fst (GetState E a k t))) \<and>
     refund s = refund t \<and> (\<forall>h. GetLogs h s = GetLogs h t)"

lemma alike_refl [simp, intro!]: "alike E s s"
  by (simp add: alike_def)

lemma alike_trans: "alike E s t \<Longrightarrow> alike E t u \<Longrightarrow> alike E s u"
  by (simp add: alike_def)

lemma observe_alike: "observe E s = observe E t \<Longrightarrow> alike E s t"
  unfolding alike_def reads_return_view [where E = E]
  by (auto simp: observe_def)

lemma sim_alike: "sim E t s \<Longrightarrow> alike E s t"
  by (rule observe_alike) (simp add: sim_def)

lemma createObject_alike:
  assumes "lookup a s = None"
  shows "alike E s (snd (createObject E a s))"
proof -
  let ?t = "snd (createObject E a s)"
  have v: "vAccounts (observe E ?t) b =
      (if b = a then Some (view E (newObject a (zeroAccount E) False)) else vAccounts (observe E s) b)" for b
    by (simp add: observe_def createObject_eq lookup_setStateObject)
  have n: "vAccounts (observe E s) a = None" using assms by (simp add: observe_def)
  have z: "vNonce (view E (newObject a (zeroAccount E) False)) = 0"
    "vBalance (view E (newObject a (zeroAccount E) False)) = 0"
    "vCode (view E (newObject a (zeroAccount E) False)) = None"
    "\<not> vSuicided (view E (newObject a (zeroAccount E) False))"
    "vStorage (view E (newObject a (zeroAccount E) False)) k = 0" for k
    by (simp_all add: view_eq newObject_def zeroAccount_def code_view_def storage_view_def
        storage_trie_of_def getTrie_def OpenStorageTrie_def read_slot_def empty_trie_def)
  have "refund ?t = refund s" "logs ?t = logs s" by (simp_all add: createObject_eq)
  then show ?thesis
    unfolding alike_def reads_return_view [where E = E] v using n z by auto
qed

lemma GetOrNew_alike:
  assumes "wf_objs s" "GetOrNewStateObject E a s = (x, t)"
  shows "alike E s t"
proof (cases "lookup a s")
  case None
  have "alike E (snd (getStateObject a s)) (snd (createObject E a (snd (getStateObject a s))))"
    by (rule createObject_alike) (simp add: None)
  moreover have "t = snd (createObject E a (snd (getStateObject a s)))"
    using assms(2) None by (auto simp: GetOrNewStateObject_def split: prod.splits)
  ultimately show ?thesis using sim_alike [OF sim_getStateObject] alike_trans by blast
next
  case (Some y)
  with assms lookup_live [OF assms(1) Some] show ?thesis
    by (auto simp: GetOrNewStateObject_def intro: sim_alike)
qed

lemma setWeight_sim:
  assumes "wf_objs s" "lookup a s = Some x" "setWeight x w h s = Some t"
  shows "sim E t s"
proof -
  have x: "address x = a" "\<not> deleted x" using lookup_live [OF assms(1,2)] by auto
  from assms(3) obtain i where t: "t = fire (x\<lparr>data := (data x)\<lparr>WeightAtLastUpdatedHeight := w,
      LastUpdatedHeight := i\<rparr>\<rparr>) s"
    by (cases h) (auto simp: setWeight_def)
  show ?thesis unfolding t
    by (rule sim_fire_same [where y = x]) (use x assms(2) in simp_all)
qed

text \<open>A transfer of nothing reads as no transfer.\<close>

lemma zero_balance_ops_alike:
  assumes "wf_objs s"
  shows "SubBalanceAndWeight E a 0 s = Some t \<Longrightarrow> alike E s t"
    and "AddBalanceAndWeight E a 0 s = Some t \<Longrightarrow> alike E s t"
proof -
  obtain x u where g: "GetOrNewStateObject E a s = (x, u)" by fastforce
  note u = extends_GetOrNew [OF assms g] and al = GetOrNew_alike [OF assms g]
  note wu = extends_wf [OF u(1)]
  have w: "wf_objs s1 \<and> alike E s s1" if "setWeight x q h u = Some s1" for q h s1
    using setWeight_sim [OF wu u(2) that] extends_wf [OF extends_setWeight [OF wu u(2) that]]
      al alike_trans sim_alike by blast
  show "alike E s t" if "SubBalanceAndWeight E a 0 s = Some t"
  proof -
    from that obtain s1 q where s1: "setWeight x q (bheight u) u = Some s1" "t = SubBalance E a 0 s1"
      by (auto simp: SubBalanceAndWeight_def subWeight_def obj_SubWeight_def g bind_eq_Some_conv Let_def)
    obtain y r where y: "GetOrNewStateObject E a s1 = (y, r)" by fastforce
    from s1(2) y have "t = r" by (simp add: SubBalance_def obj_SubBalance_def)
    with GetOrNew_alike [OF _ y] w [OF s1(1)] show ?thesis by (auto intro: alike_trans)
  qed
  show "alike E s t" if "AddBalanceAndWeight E a 0 s = Some t"
  proof -
    from that obtain s1 q where s1: "setWeight x q (bheight u) u = Some s1" "t = AddBalance E a 0 s1"
      by (auto simp: AddBalanceAndWeight_def addWeight_def obj_AddWeight_def g bind_eq_Some_conv Let_def)
    obtain y r where y: "GetOrNewStateObject E a s1 = (y, r)" by fastforce
    note r = extends_GetOrNew [OF conjunct1 [OF w [OF s1(1)]] y]
    have live: "address y = a" "\<not> deleted y" using lookup_live [OF extends_wf [OF r(1)] r(2)] by auto
    have "sim E (touch y r) r"
      unfolding touch_def
      by (rule sim_trans [OF sim_fire_same [where y = y] sim_append_journal]) (use live r(2) in simp_all)
    then have "alike E r t"
      using s1(2) y by (auto simp: AddBalance_def obj_AddBalance_def intro: sim_alike)
    with GetOrNew_alike [OF _ y] w [OF s1(1)] show ?thesis by (auto intro: alike_trans)
  qed
qed

end
