(* ===== verification/State_Supply.thy ===== *)
theory State_Supply
  imports State_Runs
begin

text \<open>
  The coins of a database: the balance of each account, their sum over all addresses, and
  what each operation does to them.
\<close>

section \<open>Balances\<close>

definition balance :: "address \<Rightarrow> stateDB \<Rightarrow> int" where
  "balance a s = fst (GetBalance a s)"

definition coins :: "stateDB \<Rightarrow> int" where
  "coins s = (\<Sum>a \<in> UNIV. balance a s)"

definition solvent :: "stateDB \<Rightarrow> bool" where
  "solvent s \<longleftrightarrow> (\<forall>a. 0 \<le> balance a s)"

lemma balance_lookup: "balance a s = (case lookup a s of None \<Rightarrow> 0 | Some x \<Rightarrow> Balance (data x))"
  by (simp add: balance_def GetBalance_def split: option.splits)

lemma balance_observe: "observe E t = observe E s \<Longrightarrow> balance a t = balance a s"
  unfolding balance_def reads_return_view(2) [where E = E] by simp

lemma balance_alike: "alike E s t \<Longrightarrow> balance a t = balance a s"
  by (simp add: alike_def balance_def)

lemma coins_cong: "(\<And>a. balance a t = balance a s) \<Longrightarrow> coins t = coins s"
  by (simp add: coins_def)

lemma solvent_cong: "(\<And>a. balance a t = balance a s) \<Longrightarrow> solvent t = solvent s"
  by (simp add: solvent_def)

lemma coins_add:
  "(\<And>b. balance b t = balance b s + (if b = a then x else 0)) \<Longrightarrow> coins t = coins s + x"
  by (simp add: coins_def sum.distrib)

section \<open>What operations do to balances\<close>

lemma balance_GetOrNew:
  assumes "wf_objs s" "GetOrNewStateObject E a s = (x, t)"
  shows "balance b t = balance b s" "lookup a t = Some x" "wf_objs t" "Balance (data x) = balance a s"
proof -
  note e = extends_GetOrNew [OF assms]
  show b: "balance b t = balance b s" for b by (rule balance_alike [OF GetOrNew_alike [OF assms]])
  show "lookup a t = Some x" by (rule e(2))
  show "wf_objs t" by (rule extends_wf [OF e(1)])
  show "Balance (data x) = balance a s" using b [of a] e(2) by (simp add: balance_lookup)
qed

lemma balance_fire:
  "\<not> deleted x \<Longrightarrow> balance b (fire x s) = (if b = address x then Balance (data x) else balance b s)"
  by (simp add: balance_lookup lookup_fire)

lemma balance_append_journal [simp]: "balance b (append_journal e s) = balance b s"
  by (simp add: balance_lookup)

lemma balance_obj_SetBalance:
  "\<not> deleted x \<Longrightarrow> balance b (obj_SetBalance x v s) = (if b = address x then v else balance b s)"
  by (simp add: obj_SetBalance_def setBalance_def balance_fire)

lemma balance_AddBalance:
  assumes "wf_objs s"
  shows "balance b (AddBalance E a v s) = balance b s + (if b = a then v else 0)"
proof -
  obtain x t where g: "GetOrNewStateObject E a s = (x, t)" by fastforce
  note t = balance_GetOrNew [OF assms g]
  have x: "address x = a" "\<not> deleted x" using lookup_live [OF t(3,2)] by auto
  show ?thesis
    using x t(1) t(4) by (auto simp: AddBalance_def g obj_AddBalance_def balance_obj_SetBalance touch_def balance_fire)
qed

lemma balance_SubBalance:
  assumes "wf_objs s"
  shows "balance b (SubBalance E a v s) = balance b s - (if b = a then v else 0)"
proof -
  obtain x t where g: "GetOrNewStateObject E a s = (x, t)" by fastforce
  note t = balance_GetOrNew [OF assms g]
  have x: "address x = a" "\<not> deleted x" using lookup_live [OF t(3,2)] by auto
  show ?thesis
    using x t(1) t(4) by (auto simp: SubBalance_def g obj_SubBalance_def balance_obj_SetBalance)
qed

lemma setWeight_balance:
  assumes "wf_objs s" "lookup a s = Some x" "setWeight x w h s = Some t"
  shows "balance b t = balance b s" "wf_objs t"
  using balance_alike [OF sim_alike [OF setWeight_sim [OF assms]]] extends_wf [OF extends_setWeight [OF assms]]
  by auto

lemma balance_AddBalanceAndWeight:
  assumes "wf_objs s" "AddBalanceAndWeight E a v s = Some t"
  shows "balance b t = balance b s + (if b = a then v else 0)"
proof -
  obtain x u where g: "GetOrNewStateObject E a s = (x, u)" by fastforce
  note u = balance_GetOrNew [OF assms(1) g]
  from assms(2) obtain s1 q h where s1: "setWeight x q h u = Some s1" "t = AddBalance E a v s1"
    by (auto simp: AddBalanceAndWeight_def addWeight_def obj_AddWeight_def g bind_eq_Some_conv Let_def)
  from setWeight_balance [OF u(3,2) s1(1)] balance_AddBalance [of s1] s1(2) u(1) show ?thesis by simp
qed

lemma balance_SubBalanceAndWeight:
  assumes "wf_objs s" "SubBalanceAndWeight E a v s = Some t"
  shows "balance b t = balance b s - (if b = a then v else 0)"
proof -
  obtain x u where g: "GetOrNewStateObject E a s = (x, u)" by fastforce
  note u = balance_GetOrNew [OF assms(1) g]
  from assms(2) obtain s1 q h where s1: "setWeight x q h u = Some s1" "t = SubBalance E a v s1"
    by (auto simp: SubBalanceAndWeight_def subWeight_def obj_SubWeight_def g bind_eq_Some_conv Let_def)
  from setWeight_balance [OF u(3,2) s1(1)] balance_SubBalance [of s1] s1(2) u(1) show ?thesis by simp
qed

lemma balance_sets:
  assumes "wf_objs s"
  shows "balance b (SetNonce E a n s) = balance b s" "balance b (SetCode E a c s) = balance b s"
    "balance b (SetState E a k v s) = balance b s"
proof -
  obtain x t where g: "GetOrNewStateObject E a s = (x, t)" by fastforce
  note t = balance_GetOrNew [OF assms g]
  have x: "address x = a" "\<not> deleted x" using lookup_live [OF t(3,2)] by auto
  show "balance b (SetNonce E a n s) = balance b s" "balance b (SetCode E a c s) = balance b s"
    "balance b (SetState E a k v s) = balance b s"
    using x t(1) t(4) by (auto simp: SetNonce_def SetCode_def SetState_def g obj_SetNonce_def obj_SetCode_def
        obj_SetState_def setNonce_def setCode_def setState_def balance_fire case_prod_unfold Let_def)
qed

lemma balance_records [simp]:
  "balance b (AddLog l s) = balance b s" "balance b (AddRefund g s) = balance b s"
  "balance b (AddPreimage h p s) = balance b s" "balance b (Prepare th bh n i s) = balance b s"
  "balance b (snd (Snapshot s)) = balance b s" "balance b (snd (getStateObject a s)) = balance b s"
  by (simp_all add: balance_lookup AddLog_def AddRefund_def AddPreimage_def Prepare_def Snapshot_def Let_def
      split: option.splits)

lemma balance_setError [simp]: "balance b (setError e s) = balance b s"
proof -
  have "lookup b (setError e s) = lookup b s" by (rule lookup_cong) (simp_all add: setError_def)
  then show ?thesis by (simp add: balance_lookup)
qed

lemma balance_Suicide:
  assumes "wf_objs s"
  shows "balance b (snd (Suicide a s)) = (if b = a then 0 else balance b s)"
proof (cases "lookup a s")
  case None
  then show ?thesis by (auto simp: Suicide_def balance_lookup split: prod.splits)
next
  case (Some x)
  with lookup_live [OF assms Some] show ?thesis
    by (auto simp: Suicide_def markSuicided_def balance_fire Let_def split: prod.splits)
qed

lemma balance_CreateAccount:
  assumes "wf_objs s" "CreateAccount E a s = Some t"
  shows "balance b t = balance b s"
proof (cases "lookup a s")
  case None
  with assms(2) have "t = snd (createObject E a s)" by (simp add: CreateAccount_def createObject_eq)
  then show ?thesis using balance_alike [OF createObject_alike [OF None]] by simp
next
  case (Some x)
  let ?n = "newObject a (zeroAccount E) False"
  define s1 where "s1 = snd (createObject E a s)"
  have b1: "balance b s1 = balance b s" if "b \<noteq> a"
    using that by (simp add: s1_def createObject_eq balance_lookup lookup_setStateObject)
  have "setWeight ?n 0 (bheight s1) s1 \<bind> (\<lambda>s2. stateObjects s2 a \<bind>
      (\<lambda>y. Some (setBalance y (Balance (data x)) s2))) = Some t"
    using assms(2) Some by (simp add: CreateAccount_def createObject_eq s1_def)
  then obtain h y where "t = setBalance y (Balance (data x)) (fire (?n\<lparr>data := (data ?n)\<lparr>
      WeightAtLastUpdatedHeight := 0, LastUpdatedHeight := h\<rparr>\<rparr>) s1)" "address y = a" "\<not> deleted y"
    by (auto simp: setWeight_def bind_eq_Some_conv)
  with b1 Some show ?thesis by (simp add: setBalance_def balance_fire) (simp add: balance_lookup)
qed

definition thrift :: "stateDB \<Rightarrow> stateDB \<Rightarrow> bool" where
  "thrift s t \<longleftrightarrow> (solvent s \<longrightarrow> solvent t \<and> coins t \<le> coins s)"

lemma thrift_refl [simp, intro!]: "thrift s s"
  by (simp add: thrift_def)

lemma thrift_trans: "thrift s t \<Longrightarrow> thrift t u \<Longrightarrow> thrift s u"
  by (auto simp: thrift_def)

lemma thrift_same: "(\<And>b. balance b t = balance b s) \<Longrightarrow> thrift s t"
  using coins_cong [of t s] solvent_cong [of t s] by (simp add: thrift_def)

end
