(* ===== verification/Evm_Effects.thy ===== *)
theory Evm_Effects
  imports Evm_GasBound State_Supply
begin

text \<open>
  What running code does to the state database: every instruction, call and creation is a
  run of database operations that reverts only to snapshots taken on the way. Hence a
  failed call leaves no trace, and under a static call the accounts read the same.
\<close>

section \<open>Steps of the machine\<close>

text \<open>
  The machine \<^term>\<open>w\<close> after some code of the machine \<^term>\<open>v\<close>: the database has performed
  a run, depth and mode are those of before, and in read-only mode all accounts read alike.
  The flag \<^term>\<open>h\<close> adds that no coins have appeared.
\<close>

definition steps :: "bool \<Rightarrow> vm_env \<Rightarrow> vm \<Rightarrow> vm \<Rightarrow> bool" where
  "steps h env v w \<longleftrightarrow> depth w = depth v \<and> readOnly w = readOnly v \<and>
     (sdb_inv (sdb v) \<longrightarrow> runs (sdbE env) (sdb v) (sdb w) \<and>
        (readOnly v \<longrightarrow> alike (sdbE env) (sdb v) (sdb w)) \<and> (h \<longrightarrow> thrift (sdb v) (sdb w)))"

text \<open>What the account of coins needs to know of the machine.\<close>

definition funded :: "bool \<Rightarrow> vm_env \<Rightarrow> vm \<Rightarrow> bool" where
  "funded h env v \<longleftrightarrow> (h \<longrightarrow> 0 \<le> GasPrice env \<and> solvent (sdb v) \<and> sdb_inv (sdb v))"

lemma steps_refl [simp, intro!]: "steps h env v v"
  by (simp add: steps_def)

lemma steps_trans: "steps h env v w \<Longrightarrow> steps h env w u \<Longrightarrow> steps h env v u"
  using runs_inv by (auto simp: steps_def intro: runs_trans alike_trans thrift_trans)

lemma steps_funded: "steps h env v w \<Longrightarrow> funded h env v \<Longrightarrow> funded h env w"
  using runs_inv by (auto simp: steps_def funded_def thrift_def)

lemma steps_update [simp]:
  "steps h env v (w\<lparr>returnData := x\<rparr>) = steps h env v w" "steps h env v (w\<lparr>jumpdests := d\<rparr>) = steps h env v w"
  "steps h env v (w\<lparr>callGasTemp := g\<rparr>) = steps h env v w"
  by (simp_all add: steps_def)

text \<open>Operations on the database inside an instruction.\<close>

lemma steps_quiet:
  assumes "exec_op (sdbE env) x (sdb v) = Some s" "writes_only x" "wf_objs (sdb v) \<Longrightarrow> alike (sdbE env) (sdb v) s"
  shows "steps h env v (v\<lparr>sdb := s\<rparr>)"
  using assms runs_op [OF assms(1,2)] thrift_same [OF balance_alike]
  by (auto simp: steps_def sdb_inv_def wf_cache_def)

text \<open>Operations that move no coins.\<close>

fun neutral :: "sdb_op \<Rightarrow> bool" where
  "neutral (AddBalanceOp a v) = False" | "neutral (SubBalanceOp a v) = False"
| "neutral (SetBalanceOp a v) = False" | "neutral (AddBalanceAndWeightOp a v) = False"
| "neutral (SubBalanceAndWeightOp a v) = False" | "neutral (ClearWeightOp a) = False"
| "neutral (SuicideOp a) = False" | "neutral (RevertOp i) = False" | "neutral SnapshotOp = False"
| "neutral x = True"

lemma neutral_writes: "neutral x \<Longrightarrow> writes_only x"
  by (cases x) auto

lemma neutral_balance:
  assumes "exec_op E x s = Some t" "neutral x" "wf_objs s"
  shows "balance b t = balance b s"
proof -
  have 1: "balance b (snd (GetCode E a s)) = balance b s" "balance b (snd (GetState E a k s)) = balance b s" for a k
    using reads_keep_view(7,8) [OF assms(3)] by (blast intro: balance_alike sim_alike)+
  have 2: "balance b (snd (GetCodeSize E a s)) = balance b s" for a
  proof -
    obtain e where "snd (GetCodeSize E a s) = setError e (snd (getStateObject a s))" by (rule GetCodeSize_state)
    then show ?thesis by simp
  qed
  from assms show ?thesis by (cases x) (auto simp: balance_sets balance_CreateAccount 1 2)
qed

lemma neutral_thrift:
  assumes "exec_ops E xs s = Some t" "\<forall>x \<in> set xs. neutral x" "wf_objs s"
  shows "thrift s t"
  using assms
proof (induction xs arbitrary: s)
  case (Cons x xs)
  then obtain u where u: "exec_op E x s = Some u" "exec_ops E xs u = Some t" by (auto simp: bind_eq_Some_conv)
  have "wf_objs u" using extends_wf [OF extends_exec_op [OF Cons.prems(3) _ u(1)]] neutral_writes Cons.prems(2) by simp
  then have "thrift u t" using Cons u(2) by simp
  moreover have "thrift s u" by (rule thrift_same, rule neutral_balance [OF u(1)]) (use Cons.prems in simp_all)
  ultimately show ?case by (rule thrift_trans [rotated])
qed simp

lemma steps_write:
  assumes "exec_op (sdbE env) x (sdb v) = Some s" "neutral x" "\<not> readOnly v"
  shows "steps h env v (v\<lparr>sdb := s\<rparr>)"
  using assms runs_op [OF assms(1) neutral_writes [OF assms(2)]] thrift_same [OF neutral_balance [OF assms(1,2)]]
  by (auto simp: steps_def sdb_inv_def wf_cache_def)

lemma snd_reads:
  "snd (GetBalance a s) = snd (getStateObject a s)" "snd (GetNonce a s) = snd (getStateObject a s)"
  "snd (GetCodeHash a s) = snd (getStateObject a s)" "snd (HasSuicided a s) = snd (getStateObject a s)"
  "snd (Empty E a s) = snd (getStateObject a s)" "snd (Exist a s) = snd (getStateObject a s)"
  by (simp_all add: GetBalance_def GetNonce_def GetCodeHash_def HasSuicided_def Empty_def Exist_def
      split: option.splits)

lemma steps_get: "steps h env v (v\<lparr>sdb := snd (getStateObject a (sdb v))\<rparr>)"
  by (rule steps_quiet [where x = "ReadOp a"]) (auto intro: sim_alike)

lemma steps_GetCode: "steps h env v (v\<lparr>sdb := snd (GetCode (sdbE env) a (sdb v))\<rparr>)"
  by (rule steps_quiet [where x = "GetCodeOp a"]) (auto intro: sim_alike reads_keep_view)

lemma steps_GetState: "steps h env v (v\<lparr>sdb := snd (GetState (sdbE env) a k (sdb v))\<rparr>)"
  by (rule steps_quiet [where x = "GetStateOp a k"]) (auto intro: sim_alike reads_keep_view)

lemma steps_GetCodeSize: "steps h env v (v\<lparr>sdb := snd (GetCodeSize (sdbE env) a (sdb v))\<rparr>)"
proof (rule steps_quiet [where x = "GetCodeSizeOp a"])
  show "alike (sdbE env) (sdb v) (snd (GetCodeSize (sdbE env) a (sdb v)))"
    by (rule GetCodeSize_state [of "sdbE env" a "sdb v"]) (auto intro: sim_alike)
qed auto

lemma steps_AddPreimage: "steps h env v (v\<lparr>sdb := AddPreimage q bs (sdb v)\<rparr>)"
proof (rule steps_quiet [where x = "AddPreimageOp q bs"])
  have "alike E s (AddPreimage q bs s)" for E s
    by (auto simp: alike_def AddPreimage_def GetNonce_def GetBalance_def GetCode_def HasSuicided_def
        GetState_def case_prod_beta split: option.splits)
  then show "alike (sdbE env) (sdb v) (AddPreimage q bs (sdb v))" .
qed auto

lemma steps_ops:
  assumes "\<not> readOnly v" "\<forall>x \<in> set ops. writes_only x" "exec_ops (sdbE env) ops (sdb v) = Some s"
    and "wf_objs (sdb v) \<Longrightarrow> h \<Longrightarrow> thrift (sdb v) s"
  shows "steps h env v (v\<lparr>sdb := s\<rparr>)"
proof -
  have "\<forall>q. RevertOp q \<notin> set ops" using assms(2) by fastforce
  then show ?thesis
    using assms by (auto simp: steps_def runs_def sdb_inv_def wf_cache_def)
qed

lemma steps_writes:
  assumes "\<not> readOnly v" "\<forall>x \<in> set ops. neutral x" "exec_ops (sdbE env) ops (sdb v) = Some s"
  shows "steps h env v (v\<lparr>sdb := s\<rparr>)"
  by (rule steps_ops [OF assms(1) _ assms(3)])
     (use assms(2) neutral_writes neutral_thrift [OF assms(3,2)] in auto)

section \<open>Gas functions and local instructions\<close>

definition gas_steps :: "bool \<Rightarrow> gasFunc \<Rightarrow> bool" where
  "gas_steps wr f \<longleftrightarrow> (\<forall>h env c st m need v r m1 v1. (readOnly v \<longrightarrow> \<not> wr) \<longrightarrow>
     f GasTableHomestead env c st m need v = Some (r, m1, v1) \<longrightarrow> steps h env v v1)"

definition local_steps :: "bool \<Rightarrow> executionFunc \<Rightarrow> bool" where
  "local_steps wr f \<longleftrightarrow> (\<forall>h env fr v r fr1 v1. (readOnly v \<longrightarrow> \<not> wr) \<longrightarrow>
     f env fr v = Some (r, fr1, v1) \<longrightarrow> steps h env v v1)"

named_theorems effect_rules \<open>effects of gas functions and local instructions\<close>

lemma pure_gas_steps [effect_rules]:
  "gas_steps b (constGasFunc g)" "gas_steps b gasBalance" "gas_steps b gasExtCodeSize" "gas_steps b gasSLoad"
  "gas_steps b gasPush" "gas_steps b gasSwap" "gas_steps b gasDup" "gas_steps b gasExp"
  "gas_steps b gasReturn" "gas_steps b gasRevert"
  by (auto simp: gas_steps_def constGasFunc_def gasBalance_def gasExtCodeSize_def gasSLoad_def gasPush_def
      gasSwap_def gasDup_def gasExp_def gasReturn_def gasRevert_def bind_eq_Some_conv case_prod_unfold Let_def)

lemma copy_cost_same: "copy_cost base w i gt env c st m need v = Some (r, m1, v1) \<Longrightarrow> v1 = v"
  by (auto simp: copy_cost_def bind_eq_Some_conv Let_def case_prod_unfold)

lemma memory_plus_same: "memory_plus base gt env c st m need v = Some (r, m1, v1) \<Longrightarrow> v1 = v"
  by (auto simp: memory_plus_def Let_def case_prod_unfold)

lemma memory_gas_steps [effect_rules]:
  "gas_steps b gasCallDataCopy" "gas_steps b gasReturnDataCopy" "gas_steps b gasSha3" "gas_steps b gasCodeCopy"
  "gas_steps b gasExtCodeCopy" "gas_steps b gasMLoad" "gas_steps b gasMStore8" "gas_steps b gasMStore"
  "gas_steps b gasCreate" "gas_steps b (makeGasLog n)"
  by (auto simp: gas_steps_def gasCallDataCopy_def gasReturnDataCopy_def gasSha3_def gasCodeCopy_def
      gasExtCodeCopy_def gasMLoad_def gasMStore8_def gasMStore_def gasCreate_def makeGasLog_def
      bind_eq_Some_conv Let_def case_prod_unfold dest!: copy_cost_same memory_plus_same split: option.splits)

lemma charge_call_steps: "steps h env v w \<Longrightarrow> steps h env v (snd (charge_call gt c cost base w))"
  by (auto simp: charge_call_def split: option.splits)

lemma call_gas_steps [effect_rules]:
  "gas_steps b gasCall" "gas_steps b gasCallCode" "gas_steps b gasDelegateCall" "gas_steps b gasStaticCall"
  by (auto simp: gas_steps_def gasCall_def gasCallCode_def gasDelegateCall_def gasStaticCall_def
      bind_eq_Some_conv Let_def case_prod_unfold snd_reads steps_get intro!: charge_call_steps)

lemma gasSStore_steps [effect_rules]: "gas_steps True gasSStore"
proof -
  have "steps h env v (v\<lparr>sdb := AddRefund g (snd (GetState (sdbE env) a k (sdb v)))\<rparr>)"
    if "\<not> readOnly v" for h env v a k g
    by (rule steps_writes [where ops = "[GetStateOp a k, AddRefundOp g]"]) (use that in simp_all)
  then show ?thesis
    by (auto simp: gas_steps_def gasSStore_def bind_eq_Some_conv Let_def case_prod_unfold steps_GetState
        split: if_splits)
qed

lemma gasSuicide_steps [effect_rules]: "gas_steps True gasSuicide"
proof -
  let ?get = "\<lambda>a s. snd (getStateObject a s)"
  have 1: "steps h env v (v\<lparr>sdb := ?get b (?get a (sdb v))\<rparr>)" if "\<not> readOnly v" for h env v a b
    by (rule steps_writes [where ops = "[ReadOp a, ReadOp b]"]) (use that in simp_all)
  have 2: "steps h env v (v\<lparr>sdb := ?get b (?get b (?get a (sdb v)))\<rparr>)" if "\<not> readOnly v" for h env v a b
    by (rule steps_writes [where ops = "[ReadOp a, ReadOp b, ReadOp b]"]) (use that in simp_all)
  have 3: "steps h env v (v\<lparr>sdb := AddRefund g (?get b (?get a (sdb v)))\<rparr>)"
    if "\<not> readOnly v" for h env v a b g
    by (rule steps_writes [where ops = "[ReadOp a, ReadOp b, AddRefundOp g]"]) (use that in simp_all)
  have 4: "steps h env v (v\<lparr>sdb := AddRefund g (?get b (?get b (?get a (sdb v))))\<rparr>)"
    if "\<not> readOnly v" for h env v a b g
    by (rule steps_writes [where ops = "[ReadOp a, ReadOp b, ReadOp b, AddRefundOp g]"]) (use that in simp_all)
  show ?thesis
    unfolding gas_steps_def gasSuicide_def
    by (clarsimp simp: bind_eq_Some_conv Let_def case_prod_unfold snd_reads split del: if_split)
       (auto simp: 1 2 3 4 snd_reads split: if_split)
qed

lemma pure_local_steps [effect_rules]:
  "local_steps b (stack_only f)" "local_steps b opAddress" "local_steps b opOrigin" "local_steps b opCaller"
  "local_steps b opCallValue" "local_steps b opCallDataLoad" "local_steps b opCallDataSize"
  "local_steps b opReturnDataSize" "local_steps b opCodeSize" "local_steps b opGasprice"
  "local_steps b opBlockhash" "local_steps b opCoinbase" "local_steps b opTimestamp" "local_steps b opNumber"
  "local_steps b opDifficulty" "local_steps b opGasLimit" "local_steps b opPop" "local_steps b opPc"
  "local_steps b opMsize" "local_steps b opGas" "local_steps b opJumpdest" "local_steps b opStop"
  "local_steps b (makePush g n)" "local_steps b (makeDup n)" "local_steps b (makeSwap n)"
  by (auto simp: local_steps_def push_result_def ok_def bind_eq_Some_conv Let_def stack_only_def
      opAddress_def opOrigin_def opCaller_def opCallValue_def opCallDataLoad_def opCallDataSize_def
      opReturnDataSize_def opCodeSize_def opGasprice_def opBlockhash_def opCoinbase_def
      opTimestamp_def opNumber_def opDifficulty_def opGasLimit_def opPop_def opPc_def opMsize_def
      opGas_def opJumpdest_def opStop_def makePush_def makeDup_def makeSwap_def split: if_splits)

lemma copy_to_memory_same: "copy_to_memory src fr v = Some (r, fr1, v1) \<Longrightarrow> v1 = v"
  by (auto simp: copy_to_memory_def ok_def bind_eq_Some_conv)

lemma jump_to_steps: "jump_to pos fr v = Some (r, fr1, v1) \<Longrightarrow> steps h env v v1"
  by (auto simp: jump_to_def ok_def fail_def bind_eq_Some_conv Let_def split: if_splits)

lemma memory_local_steps [effect_rules]:
  "local_steps b opCallDataCopy" "local_steps b opCodeCopy" "local_steps b opReturnDataCopy"
  "local_steps b opMload" "local_steps b opMstore" "local_steps b opMstore8" "local_steps b opJump"
  "local_steps b opJumpi" "local_steps b opReturn" "local_steps b opRevert"
  by (auto simp: local_steps_def push_result_def ok_def fail_def bind_eq_Some_conv Let_def
      opCallDataCopy_def opCodeCopy_def opReturnDataCopy_def opMload_def opMstore_def opMstore8_def
      opJump_def opJumpi_def opReturn_def opRevert_def
      dest!: copy_to_memory_same dest: jump_to_steps split: if_splits)

lemma state_local_steps [effect_rules]:
  "local_steps b opSha3" "local_steps b opBalance" "local_steps b opExtCodeSize" "local_steps b opExtCodeCopy"
  "local_steps b opSload"
  by (auto simp: local_steps_def push_result_def ok_def bind_eq_Some_conv Let_def case_prod_unfold
      opSha3_def opBalance_def opExtCodeSize_def opExtCodeCopy_def opSload_def
      snd_reads steps_get steps_GetCode steps_GetCodeSize steps_GetState steps_AddPreimage
      dest!: copy_to_memory_same)

lemma Suicide_thrift:
  assumes "wf_objs s"
  shows "thrift s (snd (Suicide a (AddBalance E b (balance a s) (snd (getStateObject a s)))))"
proof -
  let ?s = "snd (getStateObject a s)"
  let ?u = "AddBalance E b (balance a s) ?s" and ?t = "snd (Suicide a (AddBalance E b (balance a s) ?s))"
  have wf: "wf_objs ?s" using assms by simp
  have u: "balance c ?u = balance c s + (if c = b then balance a s else 0)" for c
    by (simp add: balance_AddBalance [OF wf])
  have "wf_objs ?u" using extends_wf [OF extends_exec_op [OF wf, of "AddBalanceOp b (balance a s)"]] by simp
  then have t: "balance c ?t = (if c = a then 0 else balance c s + (if c = b then balance a s else 0))" for c
    by (simp add: balance_Suicide u)
  have "balance c ?t = balance c s + ((if c = a then - balance a s else 0) +
      (if c = b then (if a = b then 0 else balance a s) else 0))" for c
    using t by auto
  then have "coins ?t = coins s - balance a s + (if a = b then 0 else balance a s)"
    by (simp add: coins_def sum.distrib)
  with t show ?thesis by (auto simp: thrift_def solvent_def)
qed

lemma write_local_steps [effect_rules]:
  "local_steps True opSstore" "local_steps True opSuicide" "local_steps True (makeLog n)"
proof -
  show "local_steps True opSstore"
    by (auto simp: local_steps_def opSstore_def ok_def bind_eq_Some_conv Let_def
        intro!: steps_write [where x = "SetStateOp a k v" for a k v])
  show "local_steps True (makeLog n)"
    by (auto simp: local_steps_def makeLog_def ok_def bind_eq_Some_conv Let_def
        intro!: steps_write [where x = "AddLogOp l" for l])
  have "steps h env v (v\<lparr>sdb := snd (Suicide a (AddBalance (sdbE env) b (balance a (sdb v)) (snd (getStateObject a (sdb v)))))\<rparr>)"
    if "\<not> readOnly v" for h env v a b
    by (rule steps_ops [where ops = "[ReadOp a, AddBalanceOp b (balance a (sdb v)), SuicideOp a]"])
       (use that Suicide_thrift in simp_all)
  then show "local_steps True opSuicide"
    by (auto simp: local_steps_def opSuicide_def ok_def bind_eq_Some_conv Let_def case_prod_unfold snd_reads
        simp flip: balance_def)
qed

section \<open>Calls\<close>

definition nonneg :: "stack \<Rightarrow> bool" where
  "nonneg st \<longleftrightarrow> (\<forall>x \<in> set st. 0 \<le> x)"

definition fit :: "bool \<Rightarrow> vm_env \<Rightarrow> frame \<Rightarrow> vm \<Rightarrow> bool" where
  "fit h env fr v \<longleftrightarrow> funded h env v \<and> (h \<longrightarrow> nonneg (stk fr) \<and> 0 \<le> cValue (ctr fr))"

definition loop_steps :: "bool \<Rightarrow> vm_env \<Rightarrow> loop \<Rightarrow> bool" where
  "loop_steps h env L \<longleftrightarrow> (\<forall>fr v r c v1. fit h env fr v \<longrightarrow> L fr v = Some (Some (r, c, v1)) \<longrightarrow> steps h env v v1)"

lemma run_steps:
  assumes "loop_steps h env L" "funded h env v" "h \<longrightarrow> 0 \<le> cValue c"
    and "run L env c input v = Some (Some (r, c1, v1))"
  shows "steps h env v v1"
proof (cases "precompile_of env c")
  case None
  show ?thesis
  proof (cases "cCode c = []")
    case True
    with assms(4) None show ?thesis by (auto simp: run_def Run_def Let_def steps_def)
  next
    case False
    let ?fr = "\<lparr>pc = 0, stk = [], mem = NewMemory, ctr = c\<lparr>cInput := input\<rparr>\<rparr>"
    let ?v = "v\<lparr>depth := depth v + 1, returnData := []\<rparr>"
    from False assms(4) None obtain v2 where v2: "L ?fr ?v = Some (Some (r, c1, v2))"
      "v1 = v2\<lparr>depth := depth v2 - 1\<rparr>"
      by (auto simp: run_def Run_def Let_def and_then_eq_Some)
    have "fit h env ?fr ?v" using assms(2,3) by (simp add: fit_def funded_def nonneg_def)
    with v2(1) assms(1) have "steps h env ?v v2" unfolding loop_steps_def by blast
    then show ?thesis by (simp add: v2(2) steps_def)
  qed
next
  case (Some p)
  with assms(4) show ?thesis by (auto simp: run_def bind_eq_Some_conv)
qed

lemma share_jumpdests_steps [simp]:
  "steps h env v (share_jumpdests caller w) = steps h env v w"
  "steps h env (share_jumpdests caller v) w = steps h env v w"
  "funded h env (share_jumpdests caller w) = funded h env w"
  by (simp_all add: share_jumpdests_def funded_def steps_def split: ContractRef.splits)

lemma load_code_steps: "steps h env v (v\<lparr>sdb := snd (load_code env a c (sdb v))\<rparr>)"
proof -
  let ?s = "snd (getStateObject a (sdb v))"
  have "steps h env (v\<lparr>sdb := ?s\<rparr>) (v\<lparr>sdb := ?s\<rparr>\<lparr>sdb := snd (GetCode (sdbE env) a ?s)\<rparr>)"
    using steps_GetCode [of h env "v\<lparr>sdb := ?s\<rparr>" a] by simp
  with steps_get [of h env v a] show ?thesis
    by (simp add: load_code_def Let_def case_prod_unfold snd_reads) (rule steps_trans)
qed

lemma steps_Snapshot: "steps h env v (v\<lparr>sdb := snd (Snapshot (sdb v))\<rparr>)"
proof -
  have "alike E s (snd (Snapshot s))" for E s
  proof -
    have "lookup a (snd (Snapshot s)) = lookup a s" for a
      by (rule lookup_cong) (simp_all add: Snapshot_def)
    then have "observe E s = observe E (snd (Snapshot s))" by (simp add: observe_def Snapshot_def)
    then show ?thesis by (rule observe_alike)
  qed
  then show ?thesis by (simp add: steps_def runs_Snapshot thrift_same)
qed

text \<open>
  After the run of the callee: the machine has made a step, and with an error it observes
  what it observed at the snapshot.
\<close>

lemma revert_steps:
  assumes "steps h env (v\<lparr>sdb := snd (Snapshot (sdb v))\<rparr>) w"
    "RevertToSnapshot (fst (Snapshot (sdb v))) (sdb w) = Some s"
  shows "steps h env v (w\<lparr>sdb := s\<rparr>)"
    and "sdb_inv (sdb v) \<Longrightarrow> observe (sdbE env) s = observe (sdbE env) (sdb v)"
proof -
  have r: "runs (sdbE env) (sdb v) s \<and> observe (sdbE env) s = observe (sdbE env) (sdb v)"
    if inv: "sdb_inv (sdb v)"
    using runs_revert [OF inv] assms Snapshot_sdb_inv [OF inv] by (fastforce simp: steps_def)
  then show "sdb_inv (sdb v) \<Longrightarrow> observe (sdbE env) s = observe (sdbE env) (sdb v)" by blast
  show "steps h env v (w\<lparr>sdb := s\<rparr>)"
    using r assms(1) observe_alike thrift_same [OF balance_observe] by (fastforce simp: steps_def)
qed

lemma settle_steps:
  assumes "steps h env (v\<lparr>sdb := snd (Snapshot (sdb v))\<rparr>) w"
    and "settle (fst (Snapshot (sdb v))) (r, c, w) = Some ((ret, g, err), u)"
  shows "steps h env v u"
    and "err \<noteq> None \<Longrightarrow> sdb_inv (sdb v) \<Longrightarrow> observe (sdbE env) (sdb u) = observe (sdbE env) (sdb v)"
  using assms(2) revert_steps [OF assms(1)] steps_trans [OF steps_Snapshot assms(1)]
  by (auto simp: settle_def bind_eq_Some_conv split: prod.splits option.splits)

lemma Transfer_thrift:
  assumes "SubBalanceAndWeight E a val s = Some s1" "AddBalanceAndWeight E b val s1 = Some t" "wf_objs s"
    and "0 \<le> val" "val \<le> balance a s"
  shows "thrift s t"
proof -
  have "wf_objs s1" using extends_wf [OF extends_exec_op [OF assms(3), of "SubBalanceAndWeightOp a val"]] assms(1) by simp
  then have t: "balance c t = balance c s - (if c = a then val else 0) + (if c = b then val else 0)" for c
    by (simp add: balance_AddBalanceAndWeight [OF _ assms(2)] balance_SubBalanceAndWeight [OF assms(3,1)])
  then have "coins t = coins s" by (simp add: coins_def sum.distrib sum_subtractf)
  moreover have "solvent t" if "solvent s" using that assms(4,5) t by (auto simp: solvent_def)
  ultimately show ?thesis by (simp add: thrift_def)
qed

lemma Transfer_steps:
  assumes "Transfer (sdbE env) a b val (sdb v) = Some s" "readOnly v \<longrightarrow> val = 0"
    and "h \<longrightarrow> 0 \<le> val \<and> val \<le> balance a (sdb v)"
  shows "steps h env v (v\<lparr>sdb := s\<rparr>)"
proof -
  obtain s1 where s1: "SubBalanceAndWeight (sdbE env) a val (sdb v) = Some s1"
    "AddBalanceAndWeight (sdbE env) b val s1 = Some s"
    using assms(1) by (auto simp: Transfer_def bind_eq_Some_conv)
  show ?thesis
  proof (cases "readOnly v")
    case True
    with assms(2) s1 have z: "SubBalanceAndWeight (sdbE env) a 0 (sdb v) = Some s1"
      "AddBalanceAndWeight (sdbE env) b 0 s1 = Some s" by simp_all
    have "steps h env v (v\<lparr>sdb := s1\<rparr>)"
      by (rule steps_quiet [where x = "SubBalanceAndWeightOp a 0"]) (use z in \<open>auto intro: zero_balance_ops_alike\<close>)
    moreover have "steps h env (v\<lparr>sdb := s1\<rparr>) (v\<lparr>sdb := s1\<rparr>\<lparr>sdb := s\<rparr>)"
      by (rule steps_quiet [where x = "AddBalanceAndWeightOp b 0"]) (use z in \<open>auto intro: zero_balance_ops_alike\<close>)
    ultimately show ?thesis by (auto intro: steps_trans)
  next
    case False
    show ?thesis
      by (rule steps_ops [where ops = "[SubBalanceAndWeightOp a val, AddBalanceAndWeightOp b val]"])
         (use False s1 assms(3) Transfer_thrift [OF s1] in auto)
  qed
qed

lemma CreateAccount_steps:
  assumes "CreateAccount (sdbE env) a (sdb v) = Some s" "lookup a (sdb v) = None"
  shows "steps h env v (v\<lparr>sdb := s\<rparr>)"
proof (rule steps_quiet [where x = "CreateAccountOp a"])
  have "s = snd (createObject (sdbE env) a (sdb v))"
    using assms by (simp add: CreateAccount_def createObject_eq)
  then show "alike (sdbE env) (sdb v) s" using createObject_alike [OF assms(2)] by simp
qed (use assms in simp_all)

lemma CanTransfer_state: "snd (CanTransfer s a x) = snd (getStateObject a s)"
  by (simp add: CanTransfer_def case_prod_unfold snd_reads)

text \<open>The run of a callee between snapshot and settlement.\<close>

lemma callee_steps:
  assumes L: "loop_steps h env L" "funded h env v" "h \<longrightarrow> 0 \<le> cValue c"
    and pre: "steps h env (v\<lparr>sdb := snd (Snapshot (sdb v))\<rparr>) w"
    and run: "and_then (run L env c input (share_jumpdests caller w))
        (\<lambda>r. Some (settle (fst (Snapshot (sdb v))) r)) = Some (Some ((ret, g, err), u))"
  shows "steps h env v u"
    and "err \<noteq> None \<Longrightarrow> sdb_inv (sdb v) \<Longrightarrow> observe (sdbE env) (sdb u) = observe (sdbE env) (sdb v)"
proof -
  obtain r c1 w1 where r: "run L env c input (share_jumpdests caller w) = Some (Some (r, c1, w1))"
    "settle (fst (Snapshot (sdb v))) (r, c1, w1) = Some ((ret, g, err), u)"
    using run by (auto simp: and_then_eq_Some)
  have "funded h env (share_jumpdests caller w)"
    using steps_funded [OF steps_trans [OF steps_Snapshot pre] L(2)] by simp
  then have "steps h env (share_jumpdests caller w) w1" by (rule run_steps [OF L(1) _ L(3) r(1)])
  with pre have "steps h env (v\<lparr>sdb := snd (Snapshot (sdb v))\<rparr>) w1"
    using share_jumpdests_steps steps_trans by blast
  from settle_steps [OF this r(2)] show "steps h env v u"
    and "err \<noteq> None \<Longrightarrow> sdb_inv (sdb v) \<Longrightarrow> observe (sdbE env) (sdb u) = observe (sdbE env) (sdb v)"
    by auto
qed

lemma get_observe: "observe E (snd (getStateObject a s)) = observe E s"
  using sim_getStateObject by (simp add: sim_def)

lemma wf_SetNonce: "wf_objs s \<Longrightarrow> wf_objs (SetNonce E a n s)"
  using extends_wf [OF extends_exec_op [of s "SetNonceOp a n"]] by simp

lemma wf_CreateAccount: "wf_objs s \<Longrightarrow> CreateAccount E a s = Some t \<Longrightarrow> wf_objs t"
  using extends_wf [OF extends_exec_op [of s "CreateAccountOp a"]] by simp

lemma wf_Snapshot: "wf_objs (snd (Snapshot s)) = wf_objs s"
  by (simp add: Snapshot_def)

lemma load_code_value [simp]: "cValue (fst (load_code env a c s)) = cValue c"
  by (simp add: load_code_def Let_def case_prod_unfold SetCallCode_def)

lemma NewContract_value [simp]: "cValue (NewContract caller a val gas) = val" "cValue (SetCallCode a hh cd c) = cValue c"
  by (simp_all add: NewContract_def SetCallCode_def)

lemma Call_steps:
  assumes "loop_steps h env L" "readOnly v \<longrightarrow> val = 0"
    and "Call L env caller a input gas val v = Some (Some ((ret, g, err), u))"
    and f: "funded h env v" "h \<longrightarrow> 0 \<le> val"
  shows "steps h env v u"
    and "err \<noteq> None \<Longrightarrow> sdb_inv (sdb v) \<Longrightarrow> observe (sdbE env) (sdb u) = observe (sdbE env) (sdb v)"
proof -
  let ?E = "sdbE env" and ?x = "ref_Address caller"
  define s1 where "s1 = snd (getStateObject ?x (sdb v))"
  define v1 where "v1 = v\<lparr>sdb := s1\<rparr>"
  define s2 where "s2 = snd (Snapshot s1)"
  define s3 where "s3 = snd (getStateObject a s2)"
  have 1: "steps h env v v1" unfolding v1_def s1_def by (rule steps_get)
  have o1: "observe ?E (sdb v1) = observe ?E (sdb v)" by (simp add: v1_def s1_def get_observe)
  have inv1: "sdb_inv (sdb v1)" if "sdb_inv (sdb v)"
    using 1 that runs_inv by (auto simp: steps_def)
  have 3: "steps h env (v1\<lparr>sdb := s2\<rparr>) (v1\<lparr>sdb := s3\<rparr>)"
    using steps_get [of h env "v1\<lparr>sdb := s2\<rparr>" a] by (simp add: s3_def)
  have "steps h env v u \<and> (err \<noteq> None \<and> sdb_inv (sdb v) \<longrightarrow> observe ?E (sdb u) = observe ?E (sdb v))"
  proof (cases "(NoRecursion env \<and> depth v > 0) \<or> depth v > CallCreateDepth \<or> \<not> fst (CanTransfer (sdb v) ?x val)")
    case True
    with assms(3) 1 o1 show ?thesis
      by (auto simp: Call_def early_def Let_def case_prod_unfold CanTransfer_state v1_def s1_def split: if_splits)
  next
    case c: False
    then have can: "val \<le> balance ?x (sdb v)" by (simp add: CanTransfer_def case_prod_unfold balance_def)
    show ?thesis
    proof (cases "\<not> fst (Exist a s2) \<and> precompiles env a = None \<and> val = 0")
      case True
      with assms(3) c have u: "u = v1\<lparr>sdb := s3\<rparr>" "err = None"
        by (auto simp: Call_def early_def Let_def case_prod_unfold CanTransfer_state snd_reads
            v1_def s1_def s2_def s3_def)
      have "steps h env v1 (v1\<lparr>sdb := s2\<rparr>)"
        using steps_Snapshot [of h env v1] by (simp add: v1_def s2_def)
      with 1 3 u show ?thesis by (blast intro: steps_trans)
    next
      case False
      let ?pre = "(if fst (Exist a s2) then Some s3 else CreateAccount ?E a s3) \<bind>
        Transfer ?E ?x a val"
      from assms(3) [unfolded Call_def Let_def case_prod_unfold CanTransfer_state snd_reads,
          folded s1_def, folded s2_def, folded s3_def] c False have eq: "(case ?pre of None \<Rightarrow> Some None | Some s5 \<Rightarrow>
          and_then (run L env (fst (load_code env a (NewContract caller a val gas) s5)) input
            (share_jumpdests caller (v\<lparr>sdb := snd (load_code env a (NewContract caller a val gas) s5)\<rparr>)))
            (\<lambda>r. Some (settle (fst (Snapshot s1)) r))) = Some (Some ((ret, g, err), u))"
        by auto
      then obtain s5 where "?pre = Some s5" by (cases ?pre) simp_all
      with eq obtain s4 where s45:
        "(if fst (Exist a s2) then Some s3 else CreateAccount ?E a s3) = Some s4"
        "Transfer ?E ?x a val s4 = Some s5"
        and run: "and_then (run L env (fst (load_code env a (NewContract caller a val gas) s5)) input
            (share_jumpdests caller (v\<lparr>sdb := snd (load_code env a (NewContract caller a val gas) s5)\<rparr>)))
            (\<lambda>r. Some (settle (fst (Snapshot s1)) r)) = Some (Some ((ret, g, err), u))"
        by (auto simp: bind_eq_Some_conv)
      have "lookup a s3 = None" if "\<not> fst (Exist a s2)"
        using that by (simp add: s3_def Exist_def)
      with s45(1) have 4: "steps h env (v1\<lparr>sdb := s3\<rparr>) (v1\<lparr>sdb := s4\<rparr>)"
        using CreateAccount_steps [of env a "v1\<lparr>sdb := s3\<rparr>" s4] by (auto split: if_splits)
      have b4: "balance ?x s4 = balance ?x (sdb v)" if h
        using that f(1) s45(1) balance_CreateAccount [of s3 ?E a s4 ?x]
        by (auto simp: funded_def sdb_inv_def wf_cache_def s3_def s2_def s1_def wf_Snapshot split: if_splits)
      have 5: "steps h env (v1\<lparr>sdb := s4\<rparr>) (v1\<lparr>sdb := s5\<rparr>)"
        using Transfer_steps [of env ?x a val "v1\<lparr>sdb := s4\<rparr>" s5 h] s45(2) assms(2) f can b4 by (simp add: v1_def)
      have 6: "steps h env (v1\<lparr>sdb := s5\<rparr>) (v1\<lparr>sdb := snd (load_code env a (NewContract caller a val gas) s5)\<rparr>)"
        using load_code_steps [of h env "v1\<lparr>sdb := s5\<rparr>"] by simp
      have pre: "steps h env (v1\<lparr>sdb := snd (Snapshot (sdb v1))\<rparr>)
          (v1\<lparr>sdb := snd (load_code env a (NewContract caller a val gas) s5)\<rparr>)"
        using steps_trans [OF 3 steps_trans [OF 4 steps_trans [OF 5 6]]] by (simp add: v1_def s2_def)
      have cv: "h \<longrightarrow> 0 \<le> cValue (fst (load_code env a (NewContract caller a val gas) s5))" using f(2) by simp
      show ?thesis
        using callee_steps [OF assms(1) steps_funded [OF 1 f(1)] cv pre, of input caller ret g err u] run 1 o1 inv1
          steps_trans [OF 1] by (simp add: v1_def)
    qed
  qed
  then show "steps h env v u"
    and "err \<noteq> None \<Longrightarrow> sdb_inv (sdb v) \<Longrightarrow> observe (sdbE env) (sdb u) = observe (sdbE env) (sdb v)"
    by auto
qed

lemma CallCode_steps:
  assumes "loop_steps h env L" and "CallCode L env caller a input gas val v = Some (Some ((ret, g, err), u))"
    and f: "funded h env v" "h \<longrightarrow> 0 \<le> val"
  shows "steps h env v u"
    and "err \<noteq> None \<Longrightarrow> sdb_inv (sdb v) \<Longrightarrow> observe (sdbE env) (sdb u) = observe (sdbE env) (sdb v)"
proof -
  let ?E = "sdbE env" and ?x = "ref_Address caller"
  let ?c = "NewContract caller ?x val gas"
  define s1 where "s1 = snd (getStateObject ?x (sdb v))"
  define v1 where "v1 = v\<lparr>sdb := s1\<rparr>"
  have 1: "steps h env v v1" unfolding v1_def s1_def by (rule steps_get)
  have o1: "observe ?E (sdb v1) = observe ?E (sdb v)" by (simp add: v1_def s1_def get_observe)
  have inv1: "sdb_inv (sdb v1)" if "sdb_inv (sdb v)"
    using 1 that runs_inv by (auto simp: steps_def)
  have "steps h env v u \<and> (err \<noteq> None \<and> sdb_inv (sdb v) \<longrightarrow> observe ?E (sdb u) = observe ?E (sdb v))"
  proof (cases "(NoRecursion env \<and> depth v > 0) \<or> depth v > CallCreateDepth \<or> \<not> fst (CanTransfer (sdb v) ?x val)")
    case True
    with assms(2) 1 o1 show ?thesis
      by (auto simp: CallCode_def early_def Let_def case_prod_unfold CanTransfer_state v1_def s1_def split: if_splits)
  next
    case False
    from assms(2) [unfolded CallCode_def Let_def case_prod_unfold CanTransfer_state, folded s1_def] False
    have run: "and_then (run L env (fst (load_code env a ?c (snd (Snapshot s1)))) input
        (share_jumpdests caller (v\<lparr>sdb := snd (load_code env a ?c (snd (Snapshot s1)))\<rparr>)))
        (\<lambda>r. Some (settle (fst (Snapshot s1)) r)) = Some (Some ((ret, g, err), u))" by auto
    have pre: "steps h env (v1\<lparr>sdb := snd (Snapshot (sdb v1))\<rparr>)
        (v1\<lparr>sdb := snd (load_code env a ?c (snd (Snapshot s1)))\<rparr>)"
      using load_code_steps [of h env "v1\<lparr>sdb := snd (Snapshot s1)\<rparr>"] by (simp add: v1_def)
    have cv: "h \<longrightarrow> 0 \<le> cValue (fst (load_code env a ?c (snd (Snapshot s1))))" using f(2) by simp
    show ?thesis
      using callee_steps [OF assms(1) steps_funded [OF 1 f(1)] cv pre, of input caller ret g err u] run 1 o1 inv1
        steps_trans [OF 1] by (simp add: v1_def)
  qed
  then show "steps h env v u"
    and "err \<noteq> None \<Longrightarrow> sdb_inv (sdb v) \<Longrightarrow> observe (sdbE env) (sdb u) = observe (sdbE env) (sdb v)"
    by auto
qed

lemma DelegateCall_steps:
  assumes "loop_steps h env L" and "DelegateCall L env caller a input gas v = Some (Some ((ret, g, err), u))"
    and f: "funded h env v" "h \<longrightarrow> (\<forall>p. caller = ContractOf p \<longrightarrow> 0 \<le> cValue p)"
  shows "steps h env v u"
    and "err \<noteq> None \<Longrightarrow> sdb_inv (sdb v) \<Longrightarrow> observe (sdbE env) (sdb u) = observe (sdbE env) (sdb v)"
proof -
  let ?E = "sdbE env" and ?x = "ref_Address caller"
  define s2 where "s2 = snd (Snapshot (sdb v))"
  have "steps h env v u \<and> (err \<noteq> None \<and> sdb_inv (sdb v) \<longrightarrow> observe ?E (sdb u) = observe ?E (sdb v))"
  proof (cases "(NoRecursion env \<and> depth v > 0) \<or> depth v > CallCreateDepth")
    case True
    with assms(2) show ?thesis by (auto simp: DelegateCall_def early_def split: if_splits)
  next
    case False
    from assms(2) [unfolded DelegateCall_def Let_def case_prod_unfold, folded s2_def] False
    obtain c where c: "AsDelegate caller (NewContract caller ?x 0 gas) = Some c" and run: "and_then (run L env (fst (load_code env a c s2)) input
        (share_jumpdests caller (v\<lparr>sdb := snd (load_code env a c s2)\<rparr>)))
        (\<lambda>r. Some (settle (fst (Snapshot (sdb v))) r)) = Some (Some ((ret, g, err), u))"
      by (auto split: option.splits)
    have pre: "steps h env (v\<lparr>sdb := snd (Snapshot (sdb v))\<rparr>) (v\<lparr>sdb := snd (load_code env a c s2)\<rparr>)"
      using load_code_steps [of h env "v\<lparr>sdb := s2\<rparr>"] by (simp add: s2_def)
    have cv: "h \<longrightarrow> 0 \<le> cValue (fst (load_code env a c s2))"
      using f(2) c by (auto simp: AsDelegate_def split: ContractRef.splits)
    show ?thesis using callee_steps [OF assms(1) f(1) cv pre run] by blast
  qed
  then show "steps h env v u"
    and "err \<noteq> None \<Longrightarrow> sdb_inv (sdb v) \<Longrightarrow> observe (sdbE env) (sdb u) = observe (sdbE env) (sdb v)"
    by auto
qed

text \<open>A static call runs in read-only mode, whatever the mode of its caller.\<close>

lemma StaticCall_steps:
  assumes "loop_steps h env L" and "StaticCall L env caller a input gas v = Some (Some ((ret, g, err), u))"
    and f: "funded h env v"
  shows "steps h env v u"
    and "err \<noteq> None \<Longrightarrow> sdb_inv (sdb v) \<Longrightarrow> observe (sdbE env) (sdb u) = observe (sdbE env) (sdb v)"
    and "sdb_inv (sdb v) \<Longrightarrow> alike (sdbE env) (sdb v) (sdb u)"
proof -
  let ?E = "sdbE env" and ?c = "NewContract caller a 0 gas"
  define w where "w = v\<lparr>readOnly := True\<rparr>"
  define s2 where "s2 = snd (Snapshot (sdb v))"
  have "steps h env v u \<and> (sdb_inv (sdb v) \<longrightarrow> alike ?E (sdb v) (sdb u) \<and>
      (err \<noteq> None \<longrightarrow> observe ?E (sdb u) = observe ?E (sdb v)))"
  proof (cases "(NoRecursion env \<and> depth v > 0) \<or> depth v > CallCreateDepth")
    case True
    with assms(2) show ?thesis by (auto simp: StaticCall_def early_def split: if_splits)
  next
    case False
    from assms(2) [unfolded StaticCall_def Let_def case_prod_unfold, folded s2_def] False
    have "and_then (run L env (fst (load_code env a ?c s2)) input
        (share_jumpdests caller (w\<lparr>sdb := snd (load_code env a ?c s2)\<rparr>)))
        (\<lambda>r. Some (settle_static (readOnly v) (fst (Snapshot (sdb v))) r)) = Some (Some ((ret, g, err), u))"
      by (auto simp: w_def)
    then obtain u1 where run: "and_then (run L env (fst (load_code env a ?c s2)) input
        (share_jumpdests caller (w\<lparr>sdb := snd (load_code env a ?c s2)\<rparr>)))
        (\<lambda>r. Some (settle (fst (Snapshot (sdb w))) r)) = Some (Some ((ret, g, err), u1))"
      and u: "u = (if readOnly v then u1 else u1\<lparr>readOnly := False\<rparr>)"
      by (auto simp: and_then_eq_Some settle_static_def bind_eq_Some_conv w_def)
    have pre: "steps h env (w\<lparr>sdb := snd (Snapshot (sdb w))\<rparr>) (w\<lparr>sdb := snd (load_code env a ?c s2)\<rparr>)"
      using load_code_steps [of h env "w\<lparr>sdb := s2\<rparr>"] by (simp add: s2_def w_def)
    have "funded h env w" using f by (simp add: funded_def w_def)
    moreover have "h \<longrightarrow> 0 \<le> cValue (fst (load_code env a ?c s2))" by simp
    ultimately show ?thesis using callee_steps [OF assms(1) _ _ pre run] u by (auto simp: steps_def w_def)
  qed
  then show "steps h env v u"
    and "err \<noteq> None \<Longrightarrow> sdb_inv (sdb v) \<Longrightarrow> observe (sdbE env) (sdb u) = observe (sdbE env) (sdb v)"
    and "sdb_inv (sdb v) \<Longrightarrow> alike (sdbE env) (sdb v) (sdb u)"
    by auto
qed

lemma finish_create_steps:
  assumes "steps h env (v\<lparr>sdb := snd (Snapshot (sdb v))\<rparr>) w" "\<not> readOnly v"
    and "finish_create env (fst (Snapshot (sdb v))) a ((ret, err), c, w) = Some (r, u)"
  shows "steps h env v u"
proof -
  define w1 where "w1 = w\<lparr>sdb := (if err = None \<and> length ret \<le> MaxCodeSize
    then snd (snd (store_code (sdbE env) a ret c (sdb w))) else sdb w)\<rparr>"
  have ro: "\<not> readOnly w" using assms(1,2) by (simp add: steps_def)
  have "steps h env w (w\<lparr>sdb := SetCode (sdbE env) a x (sdb w)\<rparr>)" for x
    by (rule steps_write [where x = "SetCodeOp a x"]) (use ro in simp_all)
  then have "steps h env w w1"
    by (auto simp: w1_def store_code_def Let_def case_prod_unfold)
  with assms(1) have w1: "steps h env (v\<lparr>sdb := snd (Snapshot (sdb v))\<rparr>) w1" by (rule steps_trans)
  have "\<exists>s. u = w1\<lparr>sdb := snd (getStateObject a s)\<rparr> \<and>
      (s = sdb w1 \<or> RevertToSnapshot (fst (Snapshot (sdb v))) (sdb w1) = Some s)"
    using assms(3) unfolding finish_create_def Let_def
    by (auto simp: bind_eq_Some_conv case_prod_unfold w1_def snd_reads not_less split: if_splits)
  then obtain s where u: "u = w1\<lparr>sdb := snd (getStateObject a s)\<rparr>"
    and s: "s = sdb w1 \<or> RevertToSnapshot (fst (Snapshot (sdb v))) (sdb w1) = Some s" by blast
  have "steps h env v (w1\<lparr>sdb := s\<rparr>)"
    using s revert_steps(1) [OF w1] steps_trans [OF steps_Snapshot w1] by auto
  moreover have "steps h env (w1\<lparr>sdb := s\<rparr>) u"
    using steps_get [of h env "w1\<lparr>sdb := s\<rparr>" a] by (simp add: u)
  ultimately show ?thesis by (rule steps_trans)
qed

lemma steps_SetNonce: "\<not> readOnly v \<Longrightarrow> steps h env v (v\<lparr>sdb := SetNonce (sdbE env) a n (sdb v)\<rparr>)"
  by (rule steps_write [where x = "SetNonceOp a n"]) simp_all

lemma Create_steps:
  assumes "loop_steps h env L" "\<not> readOnly v" and "Create L env caller cd gas val v = Some (Some (r, u))"
    and f: "funded h env v" "h \<longrightarrow> 0 \<le> val"
  shows "steps h env v u"
proof -
  let ?E = "sdbE env" and ?x = "ref_Address caller"
  define s1 where "s1 = snd (getStateObject ?x (sdb v))"
  define s2 where "s2 = snd (getStateObject ?x s1)"
  define n where "n = fst (GetNonce ?x s1)"
  define a where "a = CreateAddress env ?x n"
  define s3 where "s3 = SetNonce ?E ?x (n + 1) s2"
  define s4 where "s4 = snd (getStateObject a s3)"
  define s5 where "s5 = snd (getStateObject a s4)"
  define s6 where "s6 = snd (Snapshot s5)"
  have 1: "steps h env v (v\<lparr>sdb := s1\<rparr>)" unfolding s1_def by (rule steps_get)
  have "steps h env (v\<lparr>sdb := s1\<rparr>) (v\<lparr>sdb := s2\<rparr>)"
    using steps_get [of h env "v\<lparr>sdb := s1\<rparr>" ?x] by (simp add: s2_def)
  moreover have "steps h env (v\<lparr>sdb := s2\<rparr>) (v\<lparr>sdb := s3\<rparr>)"
    using steps_SetNonce [of "v\<lparr>sdb := s2\<rparr>" h env ?x "n + 1"] assms(2) by (simp add: s3_def)
  moreover have "steps h env (v\<lparr>sdb := s3\<rparr>) (v\<lparr>sdb := s4\<rparr>)"
    using steps_get [of h env "v\<lparr>sdb := s3\<rparr>" a] by (simp add: s4_def)
  moreover have "steps h env (v\<lparr>sdb := s4\<rparr>) (v\<lparr>sdb := s5\<rparr>)"
    using steps_get [of h env "v\<lparr>sdb := s4\<rparr>" a] by (simp add: s5_def)
  ultimately have 5: "steps h env v (v\<lparr>sdb := s5\<rparr>)" using 1 steps_trans by blast
  note Create = assms(3) [unfolded Create_def Let_def case_prod_unfold CanTransfer_state snd_reads,
      folded s1_def, folded s2_def n_def, folded a_def s3_def, folded s4_def, folded s5_def,
      folded s6_def]
  show ?thesis
  proof (cases "depth v > CallCreateDepth \<or> \<not> fst (CanTransfer (sdb v) ?x val) \<or> fst (GetNonce a s4) \<noteq> 0 \<or>
      fst (GetCodeHash a s3) \<noteq> 0 \<and> fst (GetCodeHash a s3) \<noteq> emptyCodeHash ?E")
    case True
    with Create 1 5 show ?thesis by (auto split: if_splits)
  next
    case False
    let ?pre = "CreateAccount ?E a s6 \<bind> (\<lambda>s7. Transfer ?E ?x a val (SetNonce ?E a 1 s7))"
    let ?c = "SetCallCode a (keccak256 ?E cd) cd (NewContract caller a val gas)"
    have eq: "(case ?pre of None \<Rightarrow> Some None | Some s8 \<Rightarrow>
        if NoRecursion env \<and> depth v > 0 then Some (Some (([], a, gas, None), v\<lparr>sdb := s8\<rparr>))
        else and_then (run L env ?c [] (share_jumpdests caller (v\<lparr>sdb := s8\<rparr>)))
          (\<lambda>r. Some (finish_create env (fst (Snapshot s5)) a r))) = Some (Some (r, u))"
      using False Create by auto
    then obtain s8 where "?pre = Some s8" by (cases ?pre) simp_all
    then obtain s7 where s7: "CreateAccount ?E a s6 = Some s7"
      "Transfer ?E ?x a val (SetNonce ?E a 1 s7) = Some s8" by (auto simp: bind_eq_Some_conv)
    have can: "val \<le> balance ?x (sdb v)" using False by (simp add: CanTransfer_def case_prod_unfold balance_def)
    have b7: "balance ?x (SetNonce ?E a 1 s7) = balance ?x (sdb v)" if h
    proof -
      have "wf_objs s2" using f(1) that by (simp add: funded_def sdb_inv_def wf_cache_def s2_def s1_def)
      then have "wf_objs s3" "balance ?x s3 = balance ?x s2" by (simp_all add: s3_def wf_SetNonce balance_sets)
      then have "wf_objs s6" "balance ?x s6 = balance ?x (sdb v)"
        by (simp_all add: s6_def s5_def s4_def s2_def s1_def wf_Snapshot)
      then show ?thesis
        using wf_CreateAccount [OF _ s7(1)] balance_CreateAccount [OF _ s7(1)] by (simp add: balance_sets)
    qed
    have "steps h env (v\<lparr>sdb := s6\<rparr>) (v\<lparr>sdb := s7\<rparr>)"
      using steps_write [of env "CreateAccountOp a" "v\<lparr>sdb := s6\<rparr>" s7 h] s7(1) assms(2) by simp
    moreover have "steps h env (v\<lparr>sdb := s7\<rparr>) (v\<lparr>sdb := SetNonce ?E a 1 s7\<rparr>)"
      using steps_SetNonce [of "v\<lparr>sdb := s7\<rparr>" h env a 1] assms(2) by simp
    moreover have "steps h env (v\<lparr>sdb := SetNonce ?E a 1 s7\<rparr>) (v\<lparr>sdb := s8\<rparr>)"
      using Transfer_steps [of env ?x a val "v\<lparr>sdb := SetNonce ?E a 1 s7\<rparr>" s8 h] s7(2) assms(2) f can b7 by simp
    ultimately have 8: "steps h env (v\<lparr>sdb := s6\<rparr>) (v\<lparr>sdb := s8\<rparr>)" using steps_trans by blast
    have 6: "steps h env (v\<lparr>sdb := s5\<rparr>) (v\<lparr>sdb := s6\<rparr>)"
      using steps_Snapshot [of h env "v\<lparr>sdb := s5\<rparr>"] by (simp add: s6_def)
    show ?thesis
    proof (cases "NoRecursion env \<and> depth v > 0")
      case True
      with eq \<open>?pre = Some s8\<close> have "u = v\<lparr>sdb := s8\<rparr>" by simp
      with steps_trans [OF 5 steps_trans [OF 6 8]] show ?thesis by simp
    next
      case nr: False
      with eq \<open>?pre = Some s8\<close> obtain ret err c w where
        w: "run L env ?c [] (share_jumpdests caller (v\<lparr>sdb := s8\<rparr>)) = Some (Some ((ret, err), c, w))"
          "finish_create env (fst (Snapshot s5)) a ((ret, err), c, w) = Some (r, u)"
        by (auto simp: and_then_eq_Some)
      have fs: "funded h env (share_jumpdests caller (v\<lparr>sdb := s8\<rparr>))"
        using steps_funded [OF steps_trans [OF 5 steps_trans [OF 6 8]] f(1)] by simp
      have "steps h env (v\<lparr>sdb := s6\<rparr>) w"
        using steps_trans [OF 8] run_steps [OF assms(1) fs _ w(1)] f(2) by simp
      then have "steps h env (v\<lparr>sdb := s5\<rparr>) u"
        using finish_create_steps [of h env "v\<lparr>sdb := s5\<rparr>" w a ret err c r u] w(2) assms(2)
        by (simp add: s6_def)
      with 5 show ?thesis by (rule steps_trans)
    qed
  qed
qed

end
