(* ===== verification/Evm_Sign.thy ===== *)
theory Evm_Sign
  imports Evm_Effects
begin

text \<open>
  No instruction puts a negative number on the stack, so that every value that a call or a
  creation moves is one that its sender has.
\<close>

unbundle bit_operations_syntax

lemma nonneg_simps [simp]: "nonneg []" "nonneg (x # st) \<longleftrightarrow> 0 \<le> x \<and> nonneg st"
  by (simp_all add: nonneg_def)

definition keeps_sign :: "executionFunc \<Rightarrow> bool" where
  "keeps_sign f \<longleftrightarrow> (\<forall>env fr v r fr1 v1. 0 \<le> GasPrice env \<longrightarrow> solvent (sdb v) \<longrightarrow> nonneg (stk fr) \<longrightarrow>
     0 \<le> cValue (ctr fr) \<longrightarrow> f env fr v = Some (r, fr1, v1) \<longrightarrow>
     nonneg (stk fr1) \<and> cValue (ctr fr1) = cValue (ctr fr))"

named_theorems sign_rules \<open>instructions that leave a stack of natural numbers\<close>

lemma pop_sign: "pop st = Some (x, st1) \<Longrightarrow> nonneg st \<Longrightarrow> 0 \<le> x \<and> nonneg st1"
  by (cases st) auto

lemma pop_Some: "pop st = Some (x, st1) \<longleftrightarrow> st = x # st1"
  by (cases st) auto

lemma peek_Some: "peek st = Some x \<longleftrightarrow> (\<exists>st1. st = x # st1)"
  by (cases st) (auto simp: peek_def)

lemma stack_only_sign: "(\<And>st st1. nonneg st \<Longrightarrow> f st = Some st1 \<Longrightarrow> nonneg st1) \<Longrightarrow> keeps_sign (stack_only f)"
  by (auto simp: keeps_sign_def stack_only_def ok_def bind_eq_Some_conv)

lemma arith_sign [sign_rules]:
  "keeps_sign (stack_only opAdd)" "keeps_sign (stack_only opMul)" "keeps_sign (stack_only opSub)"
  "keeps_sign (stack_only opDiv)" "keeps_sign (stack_only opSdiv)" "keeps_sign (stack_only opMod)"
  "keeps_sign (stack_only opSmod)" "keeps_sign (stack_only opAddmod)" "keeps_sign (stack_only opMulmod)"
  "keeps_sign (stack_only opSignExtend)" "keeps_sign (stack_only opLt)" "keeps_sign (stack_only opGt)"
  "keeps_sign (stack_only opSlt)" "keeps_sign (stack_only opSgt)" "keeps_sign (stack_only opEq)"
  "keeps_sign (stack_only opIszero)" "keeps_sign (stack_only opAnd)" "keeps_sign (stack_only opXor)"
  "keeps_sign (stack_only opOr)" "keeps_sign (stack_only opNot)" "keeps_sign (stack_only opByte)"
  by (rule stack_only_sign; auto simp: opAdd_def opMul_def opSub_def opDiv_def opSdiv_def opMod_def
      opSmod_def opAddmod_def opMulmod_def opSignExtend_def opLt_def opGt_def opSlt_def opSgt_def opEq_def
      opIszero_def opAnd_def opXor_def opOr_def opNot_def opByte_def bind_eq_Some_conv pop_Some peek_Some
      Let_def split: if_splits)+

lemma exp_sign [sign_rules]: "keeps_sign (stack_only opExp)"
proof (rule stack_only_sign)
  fix st st1 assume "nonneg st" "opExp st = Some st1"
  then obtain x y rest where "st = x # y # rest" "st1 = Exp x y # rest" "0 \<le> y" "nonneg rest"
    by (auto simp: opExp_def bind_eq_Some_conv pop_Some)
  then show "nonneg st1" by (simp add: Exp_eq)
qed

lemma SetBytes_nonneg: "0 \<le> SetBytes bs"
  by (induction bs) (simp_all add: SetBytes_Cons, simp add: SetBytes_def)

lemma push_sign [sign_rules]:
  "keeps_sign opAddress" "keeps_sign opOrigin" "keeps_sign opCaller" "keeps_sign opCallValue"
  "keeps_sign opCallDataLoad" "keeps_sign opCallDataSize" "keeps_sign opReturnDataSize" "keeps_sign opCodeSize"
  "keeps_sign opGasprice" "keeps_sign opBlockhash" "keeps_sign opCoinbase" "keeps_sign opTimestamp"
  "keeps_sign opNumber" "keeps_sign opDifficulty" "keeps_sign opGasLimit" "keeps_sign opPop" "keeps_sign opPc"
  "keeps_sign opMsize" "keeps_sign opGas" "keeps_sign opJumpdest" "keeps_sign opStop" "keeps_sign (makePush g n)"
  by (auto simp: keeps_sign_def push_result_def ok_def bind_eq_Some_conv Let_def pop_Some SetBytes_nonneg
      opAddress_def opOrigin_def opCaller_def opCallValue_def opCallDataLoad_def opCallDataSize_def
      opReturnDataSize_def opCodeSize_def opGasprice_def opBlockhash_def opCoinbase_def
      opTimestamp_def opNumber_def opDifficulty_def opGasLimit_def opPop_def opPc_def opMsize_def
      opGas_def opJumpdest_def opStop_def makePush_def split: if_splits)

lemma nonneg_nth: "nonneg st \<Longrightarrow> i < length st \<Longrightarrow> 0 \<le> st ! i"
  by (simp add: nonneg_def)

lemma nonneg_update: "nonneg st \<Longrightarrow> 0 \<le> x \<Longrightarrow> nonneg (st[i := x])"
  by (auto simp: nonneg_def dest: set_update_subset_insert [THEN subsetD])

lemma dup_swap_sign [sign_rules]: "keeps_sign (makeDup n)" "keeps_sign (makeSwap n)"
  unfolding makeDup_def makeSwap_def
  by (rule stack_only_sign; auto simp: stack_dup_def stack_swap_def intro!: nonneg_nth nonneg_update split: if_splits)+

lemma copy_to_memory_sign:
  "copy_to_memory src fr v = Some (r, fr1, v1) \<Longrightarrow> nonneg (stk fr) \<Longrightarrow> nonneg (stk fr1) \<and> ctr fr1 = ctr fr"
  by (auto simp: copy_to_memory_def ok_def bind_eq_Some_conv pop_Some)

lemma jump_to_sign:
  "jump_to pos fr v = Some (r, fr1, v1) \<Longrightarrow> stk fr1 = stk fr \<and> ctr fr1 = ctr fr"
  by (auto simp: jump_to_def ok_def fail_def bind_eq_Some_conv Let_def split: if_splits)

lemma memory_sign [sign_rules]:
  "keeps_sign opCallDataCopy" "keeps_sign opCodeCopy" "keeps_sign opReturnDataCopy"
  "keeps_sign opMload" "keeps_sign opMstore" "keeps_sign opMstore8" "keeps_sign opJump"
  "keeps_sign opJumpi" "keeps_sign opReturn" "keeps_sign opRevert"
  by (auto simp: keeps_sign_def push_result_def ok_def fail_def bind_eq_Some_conv Let_def pop_Some SetBytes_nonneg
      opCallDataCopy_def opCodeCopy_def opReturnDataCopy_def opMload_def opMstore_def opMstore8_def
      opJump_def opJumpi_def opReturn_def opRevert_def
      dest: copy_to_memory_sign jump_to_sign split: if_splits)

lemma pop_topics_sign: "pop_topics n st = Some (ts, st1) \<Longrightarrow> nonneg st \<Longrightarrow> nonneg st1"
  by (induction n arbitrary: st ts) (auto simp: bind_eq_Some_conv pop_Some)

lemma state_sign [sign_rules]:
  "keeps_sign opSha3" "keeps_sign opBalance" "keeps_sign opExtCodeSize" "keeps_sign opExtCodeCopy"
  "keeps_sign opSload" "keeps_sign opSstore" "keeps_sign opSuicide" "keeps_sign (makeLog n)"
  by (auto simp: keeps_sign_def push_result_def ok_def bind_eq_Some_conv Let_def case_prod_unfold pop_Some peek_Some
      opSha3_def opBalance_def opExtCodeSize_def opExtCodeCopy_def opSload_def opSstore_def opSuicide_def makeLog_def
      solvent_def balance_def dest: copy_to_memory_sign pop_topics_sign)

end
