(* ===== verification/Evm_Rollback.thy ===== *)
theory Evm_Rollback
  imports Evm_Sign
begin

text \<open>
  The effects of the instruction table and of the main loop, and their consequences: a
  failed call leaves no trace in the database, and under a static call all accounts read
  the same.
\<close>

section \<open>The instruction table and the loop\<close>

text \<open>
  An instruction under a guard on the stack that holds whenever the mode is read-only.
\<close>

definition exec_steps :: "(stack \<Rightarrow> bool) \<Rightarrow> callFunc \<Rightarrow> bool" where
  "exec_steps grd ex \<longleftrightarrow> (\<forall>h L env fr v r fr1 v1. loop_steps h env L \<longrightarrow> (readOnly v \<longrightarrow> grd (stk fr)) \<longrightarrow>
     fit h env fr v \<longrightarrow> ex L env fr v = Some (Some (r, fr1, v1)) \<longrightarrow> steps h env v v1 \<and> fit h env fr1 v1)"

definition no_value :: "stack \<Rightarrow> bool" where
  "no_value st \<longleftrightarrow> (case Back st 2 of None \<Rightarrow> False | Some x \<Rightarrow> BitLen x = 0)"

lemma exec_steps_mono: "exec_steps g ex \<Longrightarrow> (\<And>st. h st \<Longrightarrow> g st) \<Longrightarrow> exec_steps h ex"
  unfolding exec_steps_def by blast

lemma fit_after:
  "fit h env fr v \<Longrightarrow> steps h env v v1 \<Longrightarrow> (h \<Longrightarrow> nonneg (stk fr1) \<and> 0 \<le> cValue (ctr fr1)) \<Longrightarrow> fit h env fr1 v1"
  using steps_funded by (auto simp: fit_def)

lemma exec_steps_local:
  assumes "local_steps wr f" "keeps_sign f"
  shows "exec_steps (\<lambda>_. \<not> wr) (local f)"
  unfolding exec_steps_def
proof (intro allI impI)
  fix h L env fr v r fr1 v1
  assume a: "readOnly v \<longrightarrow> \<not> wr" "fit h env fr v" "local f L env fr v = Some (Some (r, fr1, v1))"
  then have s: "steps h env v v1" using assms(1) unfolding local_steps_def local_def by blast
  moreover have "h \<Longrightarrow> nonneg (stk fr1) \<and> 0 \<le> cValue (ctr fr1)"
    using a(2,3) assms(2) unfolding keeps_sign_def local_def fit_def funded_def option.inject by metis
  ultimately show "steps h env v v1 \<and> fit h env fr1 v1" using fit_after [OF a(2)] by blast
qed

lemma after_call_same:
  "after_call fr st a b (x, v) = Some (r, fr1, v1) \<Longrightarrow> v1 = v \<and> (nonneg st \<longrightarrow> nonneg (stk fr1)) \<and>
     cValue (ctr fr1) = cValue (ctr fr)"
  by (auto simp: after_call_def bind_eq_Some_conv split: prod.splits)

lemma BitLen_0: "BitLen x = 0 \<longleftrightarrow> x = 0"
  using BitLen_le [of "\<bar>x\<bar>" 0] by (auto simp: BitLen_def)

lemma pop_call_value:
  assumes "pop_call fr = Some (a, val, args, ro, rs, st)"
  shows "no_value (stk fr) \<Longrightarrow> val = 0" "0 \<le> val" "nonneg (stk fr) \<Longrightarrow> nonneg st"
  using assms
  by (auto simp: pop_call_def no_value_def Back_def pop_Some bind_eq_Some_conv BitLen_0 U256_mod)

lemma pop_call0_sign: "pop_call0 fr = Some (a, args, ro, rs, st) \<Longrightarrow> nonneg (stk fr) \<Longrightarrow> nonneg st"
  by (auto simp: pop_call0_def pop_Some bind_eq_Some_conv)

lemma call_exec:
  assumes "\<And>x u. f = Some (Some (x, u)) \<Longrightarrow> steps h env v u" "fit h env fr v" "nonneg (stk fr) \<Longrightarrow> nonneg st"
    and "and_then f (\<lambda>r. Some (after_call fr st ro rs r)) = Some (Some (r, fr1, v1))"
  shows "steps h env v v1 \<and> fit h env fr1 v1"
proof -
  obtain x u where u: "f = Some (Some (x, u))" "after_call fr st ro rs (x, u) = Some (r, fr1, v1)"
    using assms(4) by (auto simp: and_then_eq_Some)
  note a = after_call_same [OF u(2)]
  have s: "steps h env v v1" using assms(1) u(1) a by blast
  moreover have "fit h env fr1 v1" by (rule fit_after [OF assms(2) s]) (use assms(2,3) a in \<open>auto simp: fit_def\<close>)
  ultimately show ?thesis ..
qed

lemma opCall_steps: "exec_steps no_value opCall"
  unfolding exec_steps_def
proof (intro allI impI)
  fix h L env fr v r fr1 v1
  assume L: "loop_steps h env L" and g: "readOnly v \<longrightarrow> no_value (stk fr)" and f: "fit h env fr v"
    and run: "opCall L env fr v = Some (Some (r, fr1, v1))"
  from run obtain a val args ro rs st where p: "pop_call fr = Some (a, val, args, ro, rs, st)"
    by (cases "pop_call fr") (auto simp: opCall_def)
  note pv = pop_call_value [OF p]
  have s: "steps h env v u" if "Call L env (ContractOf (ctr fr)) a args gas val v = Some (Some (x, u))" for gas x u
    using Call_steps(1) [OF L, of v val] that g f pv by (cases x) (auto simp: fit_def)
  show "steps h env v v1 \<and> fit h env fr1 v1"
    by (rule call_exec [OF s f pv(3) run [unfolded opCall_def p option.case prod.case Let_def]]) assumption+
qed

lemma opCallCode_steps: "exec_steps (\<lambda>_. True) opCallCode"
  unfolding exec_steps_def
proof (intro allI impI)
  fix h L env fr v r fr1 v1
  assume L: "loop_steps h env L" and f: "fit h env fr v" and run: "opCallCode L env fr v = Some (Some (r, fr1, v1))"
  from run obtain a val args ro rs st where p: "pop_call fr = Some (a, val, args, ro, rs, st)"
    by (cases "pop_call fr") (auto simp: opCallCode_def)
  note pv = pop_call_value [OF p]
  have s: "steps h env v u" if "CallCode L env (ContractOf (ctr fr)) a args gas val v = Some (Some (x, u))" for gas x u
    using CallCode_steps(1) [OF L] that f pv by (cases x) (auto simp: fit_def)
  show "steps h env v v1 \<and> fit h env fr1 v1"
    by (rule call_exec [OF s f pv(3) run [unfolded opCallCode_def p option.case prod.case Let_def]]) assumption+
qed

lemma opDelegateCall_steps: "exec_steps (\<lambda>_. True) opDelegateCall"
  unfolding exec_steps_def
proof (intro allI impI)
  fix h L env fr v r fr1 v1
  assume L: "loop_steps h env L" and f: "fit h env fr v" and run: "opDelegateCall L env fr v = Some (Some (r, fr1, v1))"
  from run obtain a args ro rs st where p: "pop_call0 fr = Some (a, args, ro, rs, st)"
    by (cases "pop_call0 fr") (auto simp: opDelegateCall_def)
  have s: "steps h env v u" if "DelegateCall L env (ContractOf (ctr fr)) a args (callGasTemp v) v = Some (Some (x, u))" for x u
    using DelegateCall_steps(1) [OF L] that f by (cases x) (auto simp: fit_def)
  show "steps h env v v1 \<and> fit h env fr1 v1"
    by (rule call_exec [OF s f pop_call0_sign [OF p] run [unfolded opDelegateCall_def p option.case prod.case]]) assumption+
qed

lemma opStaticCall_steps: "exec_steps (\<lambda>_. True) opStaticCall"
  unfolding exec_steps_def
proof (intro allI impI)
  fix h L env fr v r fr1 v1
  assume L: "loop_steps h env L" and f: "fit h env fr v" and run: "opStaticCall L env fr v = Some (Some (r, fr1, v1))"
  from run obtain a args ro rs st where p: "pop_call0 fr = Some (a, args, ro, rs, st)"
    by (cases "pop_call0 fr") (auto simp: opStaticCall_def)
  have s: "steps h env v u" if "StaticCall L env (ContractOf (ctr fr)) a args (callGasTemp v) v = Some (Some (x, u))" for x u
    using StaticCall_steps(1) [OF L] that f by (cases x) (auto simp: fit_def)
  show "steps h env v v1 \<and> fit h env fr1 v1"
    by (rule call_exec [OF s f pop_call0_sign [OF p] run [unfolded opStaticCall_def p option.case prod.case]]) assumption+
qed

lemma opCreate_steps: "exec_steps (\<lambda>_. False) opCreate"
  unfolding exec_steps_def
proof (intro allI impI)
  fix h L env fr v r fr1 v1
  assume L: "loop_steps h env L" and ro: "readOnly v \<longrightarrow> False" and f: "fit h env fr v"
    and run: "opCreate L env fr v = Some (Some (r, fr1, v1))"
  let ?pops = "do { (val, st) \<leftarrow> pop (stk fr); (offset, st) \<leftarrow> pop st; (sz, st) \<leftarrow> pop st;
    input \<leftarrow> Memory_Get (Int64 offset) (Int64 sz) (mem fr); Some (val, input, st) }"
  from run obtain val input st where p: "?pops = Some (val, input, st)"
    by (cases ?pops) (auto simp: opCreate_def)
  then have sg: "nonneg (stk fr) \<Longrightarrow> 0 \<le> val \<and> nonneg st" by (auto simp: bind_eq_Some_conv pop_Some)
  obtain x c where c: "Create L env (ContractOf (snd (UseGas (cGas (ctr fr) - cGas (ctr fr) div 64) (ctr fr)))) input
      (cGas (ctr fr) - cGas (ctr fr) div 64) val v = Some (Some (x, v1))"
    "nonneg st \<longrightarrow> nonneg (stk fr1)" "cValue (ctr fr1) = cValue (ctr fr)"
    using run unfolding opCreate_def p option.case prod.case unfolding Let_def case_prod_unfold
    by (auto simp: and_then_eq_Some UseGas_def split: if_splits)
  have s: "steps h env v v1" using Create_steps [OF L _ c(1)] ro f sg by (auto simp: fit_def)
  moreover have "fit h env fr1 v1" by (rule fit_after [OF f s]) (use f c sg in \<open>auto simp: fit_def\<close>)
  ultimately show "steps h env v v1 \<and> fit h env fr1 v1" ..
qed

lemmas exec_steps_calls = opCall_steps opCallCode_steps opDelegateCall_steps opStaticCall_steps opCreate_steps

definition effect_sound :: "byte \<times> operation \<Rightarrow> bool" where
  "effect_sound e \<longleftrightarrow> gas_steps (writes (snd e)) (gasCost (snd e)) \<and>
     exec_steps (\<lambda>st. \<not> writes (snd e) \<and> (fst e = CALL \<longrightarrow> no_value st)) (execute (snd e))"

lemma effect_sound_local:
  "gas_steps False gas \<Longrightarrow> local_steps False f \<Longrightarrow> keeps_sign f \<Longrightarrow> effect_sound (op, plain (local f) gas val)"
  "gas_steps True gas \<Longrightarrow> local_steps True f \<Longrightarrow> keeps_sign f \<Longrightarrow> effect_sound (op, (plain (local f) gas val)\<lparr>writes := True\<rparr>)"
  unfolding effect_sound_def by (auto intro: exec_steps_mono [OF exec_steps_local])

lemma effect_sound_update [simp]:
  "effect_sound (op, oper\<lparr>memorySize := x\<rparr>) = effect_sound (op, oper)"
  "effect_sound (op, oper\<lparr>halts := b\<rparr>) = effect_sound (op, oper)"
  "effect_sound (op, oper\<lparr>jumps := b\<rparr>) = effect_sound (op, oper)"
  "effect_sound (op, oper\<lparr>reverts := b\<rparr>) = effect_sound (op, oper)"
  "effect_sound (op, oper\<lparr>returns := b\<rparr>) = effect_sound (op, oper)"
  "effect_sound (op, oper\<lparr>memorySize := x, writes := w\<rparr>) = effect_sound (op, oper\<lparr>writes := w\<rparr>)"
  "effect_sound (op, oper\<lparr>halts := b, writes := w\<rparr>) = effect_sound (op, oper\<lparr>writes := w\<rparr>)"
  by (simp_all add: effect_sound_def)

lemma effect_sound_calls:
  "effect_sound (CALL, plain opCall gasCall val)" "effect_sound (CALLCODE, plain opCallCode gasCallCode val)"
  "effect_sound (DELEGATECALL, plain opDelegateCall gasDelegateCall val)"
  "effect_sound (STATICCALL, plain opStaticCall gasStaticCall val)"
  "effect_sound (CREATE, (plain opCreate gasCreate val)\<lparr>writes := True\<rparr>)"
  unfolding effect_sound_def by (auto simp: effect_rules intro: exec_steps_mono [OF exec_steps_calls(1)]
    exec_steps_mono [OF exec_steps_calls(2)] exec_steps_mono [OF exec_steps_calls(3)]
    exec_steps_mono [OF exec_steps_calls(4)] exec_steps_mono [OF exec_steps_calls(5)])

lemma table_effect_sound:
  "\<forall>e \<in> set arith_table. effect_sound e" "\<forall>e \<in> set env_table. effect_sound e"
  "\<forall>e \<in> set flow_table. effect_sound e" "\<forall>e \<in> set call_table. effect_sound e"
  "\<forall>e \<in> set (push_table1 @ push_table2 @ dup_table @ swap_table @ log_table). effect_sound e"
  by (simp_all add: arith_table_def env_table_def flow_table_def call_table_def push_table1_def
      push_table2_def dup_table_def swap_table_def log_table_def effect_sound_local effect_sound_calls
      ball_Un effect_rules sign_rules)

lemma JumpTable_effect_sound: "JumpTable op = Some oper \<Longrightarrow> effect_sound (op, oper)"
proof -
  have "\<forall>e \<in> set NewByzantiumInstructionSet. effect_sound e"
    using table_effect_sound
    by (simp add: NewByzantiumInstructionSet_def NewHomesteadInstructionSet_def
        NewFrontierInstructionSet_def ball_Un effect_sound_local effect_sound_calls effect_rules sign_rules)
  then show "JumpTable op = Some oper \<Longrightarrow> effect_sound (op, oper)"
    by (auto simp: JumpTable_def dest!: map_of_SomeD)
qed

definition allowed :: "byte \<Rightarrow> operation \<Rightarrow> stack \<Rightarrow> vm \<Rightarrow> bool" where
  "allowed op oper st v \<longleftrightarrow> (readOnly v \<longrightarrow> \<not> writes oper \<and> (op = CALL \<longrightarrow> no_value st))"

lemma enforceRestrictions_allowed:
  "enforceRestrictions op oper st v = Some None \<Longrightarrow> allowed op oper st v"
  by (auto simp: enforceRestrictions_def allowed_def no_value_def bind_eq_Some_conv split: if_splits)

lemma gasCost_steps:
  assumes "JumpTable op = Some oper" "allowed op oper st v"
    "gasCost oper GasTableHomestead env c st m need v = Some (g, m1, v1)"
  shows "steps h env v v1"
  using JumpTable_effect_sound [OF assms(1)] assms(2,3)
  unfolding effect_sound_def gas_steps_def allowed_def by auto

lemma prepare_steps:
  assumes "prepare env fr v = Some r"
  shows "case r of Inl (e, v1) \<Rightarrow> steps h env v v1
    | Inr (oper, fr1, v1) \<Rightarrow> steps h env v v1 \<and> stk fr1 = stk fr \<and> cValue (ctr fr1) = cValue (ctr fr) \<and>
        JumpTable (GetOp (ctr fr) (pc fr)) = Some oper \<and> allowed (GetOp (ctr fr) (pc fr)) oper (stk fr) v"
proof -
  let ?op = "GetOp (ctr fr) (pc fr)"
  show ?thesis
  proof (cases "\<exists>oper. JumpTable ?op = Some oper \<and> validateStack oper (stk fr) = None \<and>
      enforceRestrictions ?op oper (stk fr) v = Some None")
    case False
    with assms show ?thesis
      by (auto simp: prepare_def Let_def bind_eq_Some_conv split: option.split_asm)
  next
    case True
    then obtain oper where o: "JumpTable ?op = Some oper" "validateStack oper (stk fr) = None"
      "enforceRestrictions ?op oper (stk fr) v = Some None" by blast
    note a = enforceRestrictions_allowed [OF o(3)]
    from assms o obtain req where req: "required_memory oper (stk fr) = Some req"
      by (auto simp: prepare_def bind_eq_Some_conv)
    show ?thesis
    proof (cases req)
      case None
      with assms o req show ?thesis by (auto simp: prepare_def)
    next
      case (Some need)
      with assms o req obtain g m v1 where
        g: "gasCost oper GasTableHomestead env (ctr fr) (stk fr) (mem fr) need v = Some (g, m, v1)"
        by (auto simp: prepare_def bind_eq_Some_conv)
      with gasCost_steps [OF o(1) a g] assms o req Some a show ?thesis
        by (auto simp: prepare_def Let_def case_prod_unfold UseGas_def split: option.split_asm if_split_asm)
    qed
  qed
qed

lemma conclude_steps:
  assumes "steps h env v v1" "fit h env fr v1"
  shows "case conclude oper (x, fr, v1) of Inl (r, c, w) \<Rightarrow> steps h env v w
    | Inr (fr1, w) \<Rightarrow> steps h env v w \<and> fit h env fr1 w"
  using assms by (auto simp: conclude_def Let_def fit_def funded_def split: prod.splits option.splits)

lemma step_steps:
  assumes "loop_steps h env L" "fit h env fr v" "step L env fr v = Some (Some r)"
  shows "case r of Inl (x, c, w) \<Rightarrow> steps h env v w | Inr (fr1, w) \<Rightarrow> steps h env v w \<and> fit h env fr1 w"
proof (cases "prepare env fr v")
  case None
  with assms(3) show ?thesis by (simp add: step_def)
next
  case (Some q)
  show ?thesis
  proof (cases q)
    case (Inl y)
    with Some assms(3) prepare_steps [OF Some, of h] show ?thesis by (cases y) (auto simp: step_def)
  next
    case (Inr y)
    obtain oper fr1 v1 where y: "y = (oper, fr1, v1)" by (cases y)
    have p: "steps h env v v1" "stk fr1 = stk fr" "cValue (ctr fr1) = cValue (ctr fr)"
      "JumpTable (GetOp (ctr fr) (pc fr)) = Some oper" "allowed (GetOp (ctr fr) (pc fr)) oper (stk fr) v"
      using prepare_steps [OF Some] by (simp_all add: Inr y)
    obtain x fr2 v2 where e: "execute oper L env fr1 v1 = Some (Some (x, fr2, v2))"
      "r = conclude oper (x, fr2, v2)"
      using assms(3) by (auto simp: step_def Some Inr y and_then_eq_Some)
    have ro: "readOnly v1 = readOnly v" using p(1) by (simp add: steps_def)
    have f: "fit h env fr1 v1" by (rule fit_after [OF assms(2) p(1)]) (use assms(2) p(2,3) in \<open>auto simp: fit_def\<close>)
    have "steps h env v1 v2 \<and> fit h env fr2 v2"
      using JumpTable_effect_sound [OF p(4)] assms(1) f e(1) p(2,5) ro
      unfolding effect_sound_def exec_steps_def allowed_def fst_conv snd_conv by metis
    with p(1) e(2) conclude_steps [of h env v v2 fr2 oper x] steps_trans show ?thesis by blast
  qed
qed

lemma interp_steps: "loop_steps h env (interp n env)"
proof (induction n)
  case (Suc n)
  show ?case
    unfolding loop_steps_def
  proof (intro allI impI)
    fix fr v r c v1 assume f: "fit h env fr v" and "interp (Suc n) env fr v = Some (Some (r, c, v1))"
    then obtain q where q: "step (interp n env) env fr v = Some (Some q)"
      "(case q of Inl res \<Rightarrow> Some (Some res) | Inr (fr1, v1) \<Rightarrow> interp n env fr1 v1) = Some (Some (r, c, v1))"
      by (auto simp: and_then_eq_Some)
    show "steps h env v v1"
    proof (cases q)
      case (Inl y)
      with q(2) step_steps [OF Suc f q(1)] show ?thesis by auto
    next
      case (Inr y)
      obtain fr1 w where y: "y = (fr1, w)" by (cases y)
      have w: "steps h env v w" "fit h env fr1 w" using step_steps [OF Suc f q(1)] by (simp_all add: Inr y)
      have "steps h env w v1"
        using Suc w(2) q(2) unfolding loop_steps_def Inr y sum.case prod.case by blast
      with w(1) show ?thesis by (rule steps_trans)
    qed
  qed
qed (simp add: loop_steps_def)

lemma funded_False [simp]: "funded False env v" "fit False env fr v"
  by (simp_all add: funded_def fit_def)

section \<open>Failed calls, static calls and callers without balance\<close>

lemma reached_inv: "exec_ops E ops (New tr) = Some s \<Longrightarrow> sdb_inv s"
  using exec_ops_inv(1) sdb_inv_New by blast

definition demo_call_ops :: "sdb_op list" where
  "demo_call_ops = [PrepareOp 1 2 3 0, AddBalanceOp 7 10,
     SetCodeOp 4 (Some [0x60, 1, 0x60, 0, 0x55, 0xfe]), SetCodeOp 5 (Some [0x60, 0, 0x54, 0])]"

definition demo_call_db :: stateDB where
  "demo_call_db = the (exec_ops demo_env demo_call_ops (New empty_trie))"

lemma demo_call_db: "exec_ops demo_env demo_call_ops (New empty_trie) = Some demo_call_db"
proof -
  have "exec_ops demo_env demo_call_ops (New empty_trie) \<noteq> None"
    by (simp add: sdb_eval demo_env_def demo_call_ops_def)
  then show ?thesis by (auto simp: demo_call_db_def)
qed

lemma sdb_demo_vm [simp]: "sdb (demo_vm s) = s" "\<not> readOnly (demo_vm s)" "sdbE demo_vm_env = demo_env"
  by (simp_all add: demo_vm_def demo_vm_env_def)



text \<open>
  C14. Under a static call nothing changes that a later read could see: nonces, balances,
  codes, suicide marks, storage slots, the refund counter and the logs are those of before
  the call, whether it fails or not and whatever the callee calls in turn.
\<close>

theorem static_call_changes_nothing:
  assumes "exec_ops (sdbE env) ops (New tr) = Some (sdb v)"
    and "StaticCall (interp n env) env caller a input gas v = Some (Some ((ret, g, err), u))"
  shows "fst (GetNonce b (sdb u)) = fst (GetNonce b (sdb v)) \<and> fst (GetBalance b (sdb u)) = fst (GetBalance b (sdb v)) \<and>
    fst (GetCode (sdbE env) b (sdb u)) = fst (GetCode (sdbE env) b (sdb v)) \<and>
    fst (HasSuicided b (sdb u)) = fst (HasSuicided b (sdb v)) \<and>
    fst (GetState (sdbE env) b k (sdb u)) = fst (GetState (sdbE env) b k (sdb v)) \<and>
    refund (sdb u) = refund (sdb v) \<and> GetLogs h (sdb u) = GetLogs h (sdb v)"
  using StaticCall_steps(3) [OF interp_steps assms(2) funded_False(1) reached_inv [OF assms(1)]] by (simp add: alike_def)

theorem static_call_changes_nothing_witness:
  "case StaticCall (interp 8 demo_vm_env) demo_vm_env (AccountRef 7) 5 [] 50000 (demo_vm demo_call_db) of
     Some (Some ((ret, g, err), u)) \<Rightarrow> err = None \<and> fst (GetBalance 7 (sdb u)) = fst (GetBalance 7 demo_call_db)
   | _ \<Rightarrow> False"
proof -
  let ?call = "StaticCall (interp 8 demo_vm_env) demo_vm_env (AccountRef 7) 5 [] 50000 (demo_vm demo_call_db)"
  have "case ?call of Some (Some ((ret, g, err), u)) \<Rightarrow> err = None | _ \<Rightarrow> False"
    by code_simp
  then obtain ret g u where c: "?call = Some (Some ((ret, g, None), u))"
    by (auto split: option.splits prod.splits)
  show ?thesis
    using static_call_changes_nothing [of demo_vm_env demo_call_ops empty_trie "demo_vm demo_call_db"
        8 "AccountRef 7" 5 "[]" 50000 ret g None u 7] demo_call_db
    by (simp add: c)
qed

lemma subWeight_broke:
  assumes "wf_objs s" "fst (GetBalance a s) = 0"
  shows "subWeight E a x s = None"
proof -
  obtain y t where g: "GetOrNewStateObject E a s = (y, t)" by fastforce
  have "Balance (data y) = 0"
  proof (cases "lookup a s")
    case None
    with g show ?thesis
      by (auto simp: GetOrNewStateObject_def createObject_eq newObject_def zeroAccount_def split: prod.splits)
  next
    case (Some z)
    with g lookup_live [OF assms(1) Some] assms(2) show ?thesis
      by (auto simp: GetOrNewStateObject_def GetBalance_def split: prod.splits)
  qed
  then show ?thesis by (simp add: subWeight_def g obj_SubWeight_def big_Div_def)
qed

lemma Call_broke:
  assumes "sdb_inv (sdb v)" "fst (GetBalance (ref_Address caller) (sdb v)) = 0"
    and "fst (Exist a (sdb v))" "depth v \<le> CallCreateDepth" "\<not> NoRecursion env"
  shows "Call L env caller a input gas 0 v = Some None"
proof -
  let ?x = "ref_Address caller"
  define s3 where "s3 = snd (getStateObject a (snd (Snapshot (snd (getStateObject ?x (sdb v))))))"
  have "steps False env v (v\<lparr>sdb := snd (getStateObject ?x (sdb v))\<rparr>)" by (rule steps_get)
  then have inv: "sdb_inv (snd (getStateObject ?x (sdb v)))"
    using assms(1) runs_inv by (auto simp: steps_def)
  have wf: "wf_objs s3" using inv by (simp add: s3_def sdb_inv_def wf_cache_def Snapshot_def)
  have l: "lookup b (snd (Snapshot s)) = lookup b s" for b s
    by (rule lookup_cong) (simp_all add: Snapshot_def)
  have b: "fst (GetBalance ?x s3) = 0"
    using assms(2) by (simp add: s3_def GetBalance_def l split: option.splits)
  have e: "fst (Exist a (snd (Snapshot (snd (getStateObject ?x (sdb v))))))"
    using assms(3) by (simp add: Exist_def l)
  have "Transfer (sdbE env) ?x a 0 s3 = None"
    by (simp add: Transfer_def SubBalanceAndWeight_def subWeight_broke [OF wf b])
  then show ?thesis
    using assms(2,4,5) e
    by (simp add: Call_def Let_def case_prod_unfold CanTransfer_state snd_reads s3_def) (simp add: CanTransfer_def case_prod_unfold)
qed

text \<open>
  C18. A caller without balance cannot call: a call without value to an existing account, at
  an allowed depth, panics before any code runs, because \<^verbatim>\<open>Transfer\<close> scales the weight of
  the sender by its balance and divides by zero.
\<close>

theorem call_without_balance_panics:
  assumes "exec_ops (sdbE env) ops (New tr) = Some (sdb v)" "fst (GetBalance (ref_Address caller) (sdb v)) = 0"
    and "fst (Exist a (sdb v))" "depth v \<le> CallCreateDepth" "\<not> NoRecursion env"
  shows "Call L env caller a input gas 0 v = Some None"
  by (rule Call_broke [OF reached_inv [OF assms(1)] assms(2-5)])

theorem call_without_balance_panics_witness:
  "Call (interp 8 demo_vm_env) demo_vm_env (AccountRef 6) 4 [] 50000 0 (demo_vm demo_call_db) = Some None"
proof (rule call_without_balance_panics [of demo_vm_env demo_call_ops empty_trie])
  show "exec_ops (sdbE demo_vm_env) demo_call_ops (New empty_trie) = Some (sdb (demo_vm demo_call_db))"
    using demo_call_db by simp
qed code_simp+

section \<open>Coins\<close>

text \<open>
  C15. No program creates coins. Starting from a database that operations on a fresh one can
  reach, with no negative balance, a message call or a contract creation leaves no
  account with a negative balance and a total over all addresses of at most what it was,
  whatever code runs, whatever it calls, creates and destroys, and whether it fails.
\<close>

theorem calls_create_no_coins:
  assumes "exec_ops (sdbE env) ops (New tr) = Some (sdb v)" "solvent (sdb v)" "0 \<le> GasPrice env" "0 \<le> val"
    and "\<not> readOnly v"
    and "(\<exists>ret g err. Call (interp n env) env caller a input gas val v = Some (Some ((ret, g, err), u))) \<or>
      (\<exists>r. Create (interp n env) env caller input gas val v = Some (Some (r, u)))"
  shows "solvent (sdb u) \<and> coins (sdb u) \<le> coins (sdb v)"
proof -
  have f: "funded True env v" using assms(2,3) reached_inv [OF assms(1)] by (simp add: funded_def)
  have "steps True env v u"
    using assms(4-6) Call_steps(1) [OF interp_steps _ _ f] Create_steps [OF interp_steps _ _ f] by blast
  then show ?thesis using assms(2) reached_inv [OF assms(1)] by (simp add: steps_def thrift_def)
qed

lemma exec_op_wf: "exec_op E x s = Some t \<Longrightarrow> writes_only x \<Longrightarrow> wf_objs s \<Longrightarrow> wf_objs t"
  using extends_wf extends_exec_op by blast

lemma demo_solvent: "solvent demo_call_db"
proof -
  let ?s1 = "Prepare 1 2 3 0 (New empty_trie)"
  let ?s2 = "AddBalance demo_env 7 10 ?s1"
  let ?s3 = "SetCode demo_env 4 (Some [0x60, 1, 0x60, 0, 0x55, 0xfe]) ?s2"
  have wf: "wf_objs ?s1" by (simp add: Prepare_def New_def wf_objs_def)
  have wf2: "wf_objs ?s2" by (rule exec_op_wf [OF _ _ wf, of _ "AddBalanceOp 7 10"]) simp_all
  have wf3: "wf_objs ?s3"
    by (rule exec_op_wf [OF _ _ wf2, of _ "SetCodeOp 4 (Some [0x60, 1, 0x60, 0, 0x55, 0xfe])"]) simp_all
  have "balance b (New empty_trie) = 0" for b
    by (simp add: balance_lookup lookup_eq New_def stored_def empty_trie_def)
  then show ?thesis
    by (simp add: solvent_def demo_call_db_def demo_call_ops_def balance_sets [OF wf3] balance_sets [OF wf2]
        balance_AddBalance [OF wf])
qed

theorem calls_create_no_coins_witness:
  "case Call (interp 8 demo_vm_env) demo_vm_env (AccountRef 7) 5 [] 50000 3 (demo_vm demo_call_db) of
     Some (Some ((ret, g, err), u)) \<Rightarrow> err = None \<and> solvent (sdb u) \<and> coins (sdb u) \<le> coins demo_call_db
   | _ \<Rightarrow> False"
proof -
  let ?call = "Call (interp 8 demo_vm_env) demo_vm_env (AccountRef 7) 5 [] 50000 3 (demo_vm demo_call_db)"
  have "case ?call of Some (Some ((ret, g, err), u)) \<Rightarrow> err = None | _ \<Rightarrow> False"
    by code_simp
  then obtain ret g u where c: "?call = Some (Some ((ret, g, None), u))"
    by (auto split: option.splits prod.splits)
  show ?thesis
    using demo_solvent calls_create_no_coins [of demo_vm_env demo_call_ops empty_trie "demo_vm demo_call_db" 3 8
        "AccountRef 7" 5 "[]" 50000 u] demo_call_db c
    by (auto simp: demo_vm_env_def)
qed

end
