(* ===== verification/Evm_Safe.thy ===== *)
theory Evm_Safe
  imports Evm_Rollback
begin

text \<open>
  The instructions that run in one frame do not panic: once the interpreter has validated
  the stack, charged the gas and resized the memory, every operand is there, every slice
  is inside the memory, and the stack stays a stack of at most 1024 words.
\<close>

section \<open>Frames\<close>

text \<open>
  What surrounds the code is of the sizes the node produces: prices, values and balances
  are 256-bit words, code and call data fit the address space, and the cached analysis
  of the code is right.
\<close>

definition word_range :: "int set" where
  "word_range = range (uint :: 256 word \<Rightarrow> int)"

lemma word_range_iff: "x \<in> word_range \<longleftrightarrow> 0 \<le> x \<and> x < 2 ^ 256"
proof
  assume "0 \<le> x \<and> x < 2 ^ 256"
  then have "x = uint (word_of_int x :: 256 word)" by (simp add: unsigned_of_int take_bit_eq_mod)
  then show "x \<in> word_range" unfolding word_range_def by blast
next
  assume "x \<in> word_range"
  then obtain w where "x = uint (w :: 256 word)" by (auto simp: word_range_def)
  with uint_256_less [of w] show "0 \<le> x \<and> x < 2 ^ 256" by simp
qed

definition tame :: "vm_env \<Rightarrow> frame \<Rightarrow> vm \<Rightarrow> bool" where
  "tame env fr v \<longleftrightarrow> GasPrice env \<in> word_range \<and> cValue (ctr fr) \<in> word_range \<and>
     (\<forall>a. fst (GetBalance a (sdb v)) \<in> word_range) \<and> wf_objs (sdb v) \<and>
     length (cCode (ctr fr)) < 2 ^ 62 \<and> length (cInput (ctr fr)) < 2 ^ 62 \<and>
     coherent (jumpdests v) (cCodeHash (ctr fr)) (cCode (ctr fr))"

definition covered :: "(stack \<Rightarrow> int option) option \<Rightarrow> frame \<Rightarrow> bool" where
  "covered msz fr \<longleftrightarrow> (case msz of None \<Rightarrow> True | Some f \<Rightarrow>
     (case f (stk fr) of None \<Rightarrow> False
      | Some n \<Rightarrow> n \<le> 0xffffffffe0 \<and> n \<le> int (length (store (mem fr)))))"

definition sound_exec :: "nat \<Rightarrow> nat \<Rightarrow> (stack \<Rightarrow> int option) option \<Rightarrow> executionFunc \<Rightarrow> bool" where
  "sound_exec p q msz f \<longleftrightarrow> (\<forall>env fr v ws. tame env fr v \<longrightarrow> stk fr = words ws \<longrightarrow> p \<le> length ws \<longrightarrow>
     covered msz fr \<longrightarrow> length (store (mem fr)) < 2 ^ 62 \<longrightarrow> unat (pc fr) < length (cCode (ctr fr)) \<longrightarrow>
     (\<exists>r fr1 v1 ws1. f env fr v = Some (r, fr1, v1) \<and> stk fr1 = words ws1 \<and>
        length ws1 + p \<le> length ws + q))"

lemma sound_execI:
  assumes "\<And>env fr v ws. tame env fr v \<Longrightarrow> stk fr = words ws \<Longrightarrow> p \<le> length ws \<Longrightarrow> covered msz fr \<Longrightarrow>
     length (store (mem fr)) < 2 ^ 62 \<Longrightarrow> unat (pc fr) < length (cCode (ctr fr)) \<Longrightarrow>
     \<exists>r fr1 v1 ws1. f env fr v = Some (r, fr1, v1) \<and> stk fr1 = words ws1 \<and> length ws1 + p \<le> length ws + q"
  shows "sound_exec p q msz f"
  using assms unfolding sound_exec_def by blast

text \<open>Values that instructions push.\<close>

lemma push_result_sound:
  assumes "x \<in> word_range" "stk fr = words ws"
  shows "\<exists>r fr1 v1 ws1. push_result x fr v = Some (r, fr1, v1) \<and> stk fr1 = words ws1 \<and> length ws1 = Suc (length ws)"
proof -
  obtain w where "x = uint (w :: 256 word)" using assms(1) by (auto simp: word_range_def)
  then show ?thesis
    using assms(2) by (auto simp: push_result_def ok_def intro!: exI [of _ "w # ws"])
qed

lemma uint_range: "LENGTH('a) \<le> 256 \<Longrightarrow> uint (w :: 'a::len word) \<in> word_range"
  unfolding word_range_iff
  using uint_lt2p [of w] power_increasing [of "LENGTH('a)" 256 "2::int"] by (metis less_le_trans one_le_numeral uint_ge_0)

lemma small_range: "n < 2 ^ 62 \<Longrightarrow> int n \<in> word_range"
proof -
  assume "n < 2 ^ 62"
  then have "int n < 2 ^ 62" by (metis of_nat_less_iff of_nat_numeral of_nat_power)
  then show ?thesis by (simp add: word_range_iff)
qed

lemma U256_range: "U256 x \<in> word_range"
  unfolding word_range_iff by (rule conjI) (rule U256_bounds)+

lemma SetBytes_range: "length bs \<le> 32 \<Longrightarrow> SetBytes bs \<in> word_range"
proof -
  have "0 \<le> SetBytes bs \<and> SetBytes bs < 256 ^ length bs"
  proof (induction bs)
    case (Cons b bs)
    have "uint b \<le> 255" using uint_lt2p [of b] by simp
    then have "uint b * 256 ^ length bs \<le> 255 * 256 ^ length bs" by (intro mult_right_mono) auto
    moreover have "(256 :: int) ^ length (b # bs) = 255 * 256 ^ length bs + 256 ^ length bs" by simp
    moreover have "0 \<le> uint b * 256 ^ length bs" by simp
    ultimately show ?case using Cons unfolding SetBytes_Cons by (intro conjI; linarith)
  qed (simp add: SetBytes_def)
  moreover assume "length bs \<le> 32"
  then have "(256 :: int) ^ length bs \<le> 256 ^ 32" by (intro power_increasing) auto
  ultimately show ?thesis by (simp add: word_range_iff)
qed

lemma length_RightPadBytes: "length (RightPadBytes bs n) = max (length bs) (nat n)"
  by (auto simp: RightPadBytes_def)

lemma Suc_le_words: "Suc n \<le> length ws \<longleftrightarrow> (\<exists>x xs. ws = x # xs \<and> n \<le> length xs)"
  by (cases ws) auto

lemma pushes_sound:
  "sound_exec 0 1 None opAddress" "sound_exec 0 1 None opOrigin" "sound_exec 0 1 None opCaller"
  "sound_exec 0 1 None opCallValue" "sound_exec 0 1 None opCallDataSize" "sound_exec 0 1 None opReturnDataSize"
  "sound_exec 0 1 None opCodeSize" "sound_exec 0 1 None opGasprice" "sound_exec 0 1 None opCoinbase"
  "sound_exec 0 1 None opTimestamp" "sound_exec 0 1 None opNumber" "sound_exec 0 1 None opGasLimit"
  "sound_exec 0 1 None opPc" "sound_exec 0 1 None opMsize" "sound_exec 0 1 None opGas"
proof -
  have *: "sound_exec 0 1 None f" if "\<And>env fr v. tame env fr v \<Longrightarrow> length (store (mem fr)) < 2 ^ 62 \<Longrightarrow>
      \<exists>x \<in> word_range. f env fr v = push_result x fr v" for f
    using that push_result_sound unfolding sound_exec_def by (metis add.commute add_0 le_refl plus_1_eq_Suc)
  show "sound_exec 0 1 None opAddress" "sound_exec 0 1 None opOrigin" "sound_exec 0 1 None opCaller"
    "sound_exec 0 1 None opCallValue" "sound_exec 0 1 None opCallDataSize" "sound_exec 0 1 None opReturnDataSize"
    "sound_exec 0 1 None opCodeSize" "sound_exec 0 1 None opGasprice" "sound_exec 0 1 None opCoinbase"
    "sound_exec 0 1 None opTimestamp" "sound_exec 0 1 None opNumber" "sound_exec 0 1 None opGasLimit"
    "sound_exec 0 1 None opPc" "sound_exec 0 1 None opMsize" "sound_exec 0 1 None opGas"
    by (rule * [unfolded tame_def];
        unfold opAddress_def opOrigin_def opCaller_def opCallValue_def opCallDataSize_def
          opReturnDataSize_def opCodeSize_def opGasprice_def opCoinbase_def opTimestamp_def opNumber_def
          opGasLimit_def opPc_def opMsize_def opGas_def;
        elim conjE; rule bexI, rule refl; simp add: uint_range small_range U256_range)+
qed

section \<open>Instructions that compute\<close>

lemma stack_only_sound:
  assumes "\<And>ws. p \<le> length ws \<Longrightarrow> \<exists>us. f (words ws) = Some (words us) \<and> length us + p \<le> length ws + q"
  shows "sound_exec p q None (stack_only f)"
proof (rule sound_execI)
  fix env and fr :: frame and v ws assume "stk fr = words ws" "p \<le> length ws"
  with assms obtain us where "f (stk fr) = Some (words us)" "length us + p \<le> length ws + q" by metis
  then show "\<exists>r fr1 v1 ws1. stack_only f env fr v = Some (r, fr1, v1) \<and> stk fr1 = words ws1 \<and>
      length ws1 + p \<le> length ws + q"
    by (auto simp: stack_only_def ok_def)
qed

lemma unary_sound: "(\<And>x ws. \<exists>z. f (words (x # ws)) = Some (words (z # ws))) \<Longrightarrow> sound_exec 1 1 None (stack_only f)"
  by (rule stack_only_sound) (auto simp: Suc_le_words, metis length_Cons order_refl words_Cons(1))

lemma binary_sound:
  "(\<And>x y ws. \<exists>z. f (words (x # y # ws)) = Some (words (z # ws))) \<Longrightarrow> sound_exec 2 1 None (stack_only f)"
  by (rule stack_only_sound) (auto simp: Suc_le_words numeral_2_eq_2, metis length_Cons order_refl words_Cons(1) le_SucI)

lemma ternary_sound:
  "(\<And>x y z ws. \<exists>r. f (words (x # y # z # ws)) = Some (words (r # ws))) \<Longrightarrow> sound_exec 3 1 None (stack_only f)"
  by (rule stack_only_sound) (auto simp: Suc_le_words numeral_3_eq_3, metis length_Cons order_refl words_Cons(1) le_SucI)

lemma arith_sound:
  "sound_exec 2 1 None (stack_only opAdd)" "sound_exec 2 1 None (stack_only opMul)"
  "sound_exec 2 1 None (stack_only opSub)" "sound_exec 2 1 None (stack_only opDiv)"
  "sound_exec 2 1 None (stack_only opSdiv)" "sound_exec 2 1 None (stack_only opMod)"
  "sound_exec 2 1 None (stack_only opSmod)" "sound_exec 3 1 None (stack_only opAddmod)"
  "sound_exec 3 1 None (stack_only opMulmod)" "sound_exec 2 1 None (stack_only opExp)"
  "sound_exec 2 1 None (stack_only opSignExtend)" "sound_exec 2 1 None (stack_only opLt)"
  "sound_exec 2 1 None (stack_only opGt)" "sound_exec 2 1 None (stack_only opSlt)"
  "sound_exec 2 1 None (stack_only opSgt)" "sound_exec 2 1 None (stack_only opEq)"
  "sound_exec 1 1 None (stack_only opIszero)" "sound_exec 2 1 None (stack_only opAnd)"
  "sound_exec 2 1 None (stack_only opXor)" "sound_exec 2 1 None (stack_only opOr)"
  "sound_exec 1 1 None (stack_only opNot)" "sound_exec 2 1 None (stack_only opByte)"
  by (rule unary_sound binary_sound ternary_sound; rule exI, rule arith_words)+

lemma words_update: "words (ws[i := w]) = (words ws)[i := uint w]"
  by (simp add: words_def map_update)

lemma nth_words: "i < length ws \<Longrightarrow> words ws ! i = uint (ws ! i)"
  by (simp add: words_def)

lemma length_words [simp]: "length (words ws) = length ws"
  by (simp add: words_def)

lemma makeDup_sound: "1 \<le> n \<Longrightarrow> sound_exec n (n + 1) None (makeDup n)"
  unfolding makeDup_def
proof (rule stack_only_sound)
  fix ws :: "256 word list" assume n: "1 \<le> n" "n \<le> length ws"
  then show "\<exists>us. stack_dup n (words ws) = Some (words us) \<and> length us + n \<le> length ws + (n + 1)"
    by (intro exI [of _ "(ws ! (n - 1)) # ws"]) (simp add: stack_dup_def nth_words)
qed

lemma makeSwap_sound: "1 \<le> n \<Longrightarrow> sound_exec (n + 1) (n + 1) None (makeSwap n)"
  unfolding makeSwap_def
proof (rule stack_only_sound)
  fix ws :: "256 word list" assume n: "1 \<le> n" "n + 1 \<le> length ws"
  then have "0 < length ws" "n < length ws" by auto
  then have "words (ws[n := ws ! 0, 0 := ws ! n]) = (words ws)[n := words ws ! 0, 0 := words ws ! n]"
    by (simp only: words_update nth_words)
  with n show "\<exists>us. stack_swap (n + 1) (words ws) = Some (words us) \<and> length us + (n + 1) \<le> length ws + (n + 1)"
    by (intro exI [of _ "ws[n := ws ! 0, 0 := ws ! n]"]) (simp add: stack_swap_def)
qed

lemma makePush_sound: "n \<le> 32 \<Longrightarrow> sound_exec 0 1 None (makePush sz n)"
proof (rule sound_execI)
  fix env and fr :: frame and v ws
  assume n: "n \<le> 32" and t: "tame env fr v" "stk fr = words ws" "unat (pc fr) < length (cCode (ctr fr))"
  have "unat (pc fr) < 2 ^ 62" using t by (auto simp: tame_def)
  then have "uint (pc fr) < 2 ^ 62"
    using of_nat_less_iff [where 'a = int, of "unat (pc fr)" "2 ^ 62"] by simp
  then have "uint (pc fr + 1) = uint (pc fr) + 1" by (simp add: uint_word_ariths)
  with \<open>uint (pc fr) < 2 ^ 62\<close> have pos: "0 \<le> sint (pc fr + 1)"
    by (simp add: sint_uint signed_take_bit_int_eq_self)
  let ?l = "int (length (cCode (ctr fr)))"
  let ?a = "min (sint (pc fr + 1)) ?l"
  let ?bs = "take (nat (min (?a + int n) ?l - ?a)) (drop (nat ?a) (cCode (ctr fr)))"
  have "nat (min (?a + int n) ?l - ?a) \<le> n" by (simp add: nat_le_iff)
  then have "length ?bs \<le> n" unfolding length_take by (rule min.coboundedI2)
  then have "length (RightPadBytes ?bs (int n)) \<le> 32"
    using n unfolding length_RightPadBytes nat_int by (intro max.boundedI) (rule order_trans)
  from push_result_sound [OF SetBytes_range [OF this], of "fr\<lparr>pc := pc fr + sz\<rparr>" ws v] t(2)
  obtain r fr1 v1 ws1 where
    p: "push_result (SetBytes (RightPadBytes ?bs (int n))) (fr\<lparr>pc := pc fr + sz\<rparr>) v = Some (r, fr1, v1)"
      "stk fr1 = words ws1" "length ws1 = Suc (length ws)" by auto
  have "makePush sz n env fr v = Some (r, fr1, v1)"
    using pos p(1) by (simp add: makePush_def Let_def)
  moreover have "length ws1 + 0 \<le> length ws + 1" using p(3) by simp
  ultimately show "\<exists>r fr1 v1 ws1. makePush sz n env fr v = Some (r, fr1, v1) \<and> stk fr1 = words ws1 \<and>
      length ws1 + 0 \<le> length ws + 1" using p(2) by blast
qed

section \<open>Instructions on the memory\<close>

lemma small_offsets:
  assumes "calcMemSize off l \<le> 0xffffffffe0" "0 \<le> off" "0 \<le> l" "l \<noteq> 0"
  shows "Int64 off = off" "Int64 l = l" "uint (Uint64 off) = off" "uint (Uint64 l) = l"
  using assms by (auto simp: calcMemSize_def intro!: Int64_small Uint64_small)

lemma Memory_Get_covered:
  assumes "calcMemSize off l \<le> 0xffffffffe0" "calcMemSize off l \<le> int (length (store m))" "0 \<le> off" "0 \<le> l"
  shows "\<exists>bs. Memory_Get (Int64 off) (Int64 l) m = Some bs \<and> length bs \<le> nat l"
proof (cases "l = 0")
  case True
  then show ?thesis by (simp add: Memory_Get_def Int64_small)
next
  case False
  with small_offsets [OF assms(1,3,4) False] assms show ?thesis
    by (simp add: Memory_Get_def calcMemSize_def)
qed

lemma Memory_Set_covered:
  assumes "calcMemSize off l \<le> 0xffffffffe0" "calcMemSize off l \<le> int (length (store m))" "0 \<le> off" "0 \<le> l"
  shows "\<exists>m1. Memory_Set (Uint64 off) (Uint64 l) bs m = Some m1"
proof (cases "l = 0")
  case True
  then show ?thesis by (simp add: Memory_Set_def Uint64_def)
next
  case False
  note u = small_offsets(3,4) [OF assms(1,3,4) False]
  have "unat (Uint64 off) = nat off" "unat (Uint64 l) = nat l"
    using u by (simp_all flip: nat_uint_eq)
  moreover have "nat off + nat l \<le> length (store m)"
    using assms False by (simp add: calcMemSize_def)
  ultimately show ?thesis by (simp add: Memory_Set_def Let_def)
qed

lemma covered_range:
  "covered (Some (mem_range i j)) fr \<Longrightarrow> stk fr = words ws \<Longrightarrow> i < length ws \<Longrightarrow> j < length ws \<Longrightarrow>
     calcMemSize (uint (ws ! i)) (uint (ws ! j)) \<le> 0xffffffffe0 \<and>
     calcMemSize (uint (ws ! i)) (uint (ws ! j)) \<le> int (length (store (mem fr)))"
  by (simp add: covered_def mem_range_def Back_def nth_words)

lemma covered_fixed:
  "covered (Some (mem_fixed i l)) fr \<Longrightarrow> stk fr = words ws \<Longrightarrow> i < length ws \<Longrightarrow>
     calcMemSize (uint (ws ! i)) l \<le> 0xffffffffe0 \<and>
     calcMemSize (uint (ws ! i)) l \<le> int (length (store (mem fr)))"
  by (simp add: covered_def mem_fixed_def Back_def nth_words)

lemma copy_to_memory_sound:
  assumes "calcMemSize (uint x) (uint l) \<le> 0xffffffffe0" "calcMemSize (uint x) (uint l) \<le> int (length (store (mem fr)))"
    "stk fr = words (x # y # l # ws)"
  shows "\<exists>r fr1 v1. copy_to_memory src fr v = Some (r, fr1, v1) \<and> stk fr1 = words ws"
  using Memory_Set_covered [OF assms(1,2), of "getDataBig src (uint y) (uint l)"] assms(3)
  by (auto simp: copy_to_memory_def ok_def)

lemma copies_sound:
  "sound_exec 3 0 (Some memoryCallDataCopy) opCallDataCopy" "sound_exec 3 0 (Some memoryCodeCopy) opCodeCopy"
  "sound_exec 4 0 (Some memoryExtCodeCopy) opExtCodeCopy"
proof -
  have 3: "\<exists>r fr1 v1 ws1. copy_to_memory src fr v = Some (r, fr1, v1) \<and> stk fr1 = words ws1 \<and> length ws1 + 3 \<le> length ws + 0"
    if c: "covered (Some (mem_range 0 2)) fr" and w: "stk fr = words ws" "3 \<le> length ws" for src fr v ws
  proof -
    obtain x y l us where ws: "ws = x # y # l # us"
      using w(2) by (auto simp: Suc_le_words numeral_3_eq_3)
    from covered_range [OF c w(1)] copy_to_memory_sound [of x l fr y us src v] w show ?thesis
      by (auto simp: ws)
  qed
  show "sound_exec 3 0 (Some memoryCallDataCopy) opCallDataCopy"
    by (rule sound_execI) (simp only: opCallDataCopy_def memoryCallDataCopy_def 3)
  show "sound_exec 3 0 (Some memoryCodeCopy) opCodeCopy"
    by (rule sound_execI) (simp only: opCodeCopy_def memoryCodeCopy_def 3)
  show "sound_exec 4 0 (Some memoryExtCodeCopy) opExtCodeCopy"
  proof (rule sound_execI)
    fix env and fr :: frame and v ws
    assume c: "covered (Some memoryExtCodeCopy) fr" and w: "stk fr = words ws" "4 \<le> length ws"
    obtain a x y l us where ws: "ws = a # x # y # l # us"
      using w(2) by (auto simp: Suc_le_words eval_nat_numeral)
    have "calcMemSize (uint x) (uint l) \<le> 0xffffffffe0 \<and>
        calcMemSize (uint x) (uint l) \<le> int (length (store (mem fr)))"
      using covered_range [OF c [unfolded memoryExtCodeCopy_def] w(1)] by (simp add: ws eval_nat_numeral)
    with copy_to_memory_sound [of x l "fr\<lparr>stk := words (x # y # l # us)\<rparr>" y us] w(1)
    show "\<exists>r fr1 v1 ws1. opExtCodeCopy env fr v = Some (r, fr1, v1) \<and> stk fr1 = words ws1 \<and> length ws1 + 4 \<le> length ws + 0"
      by (fastforce simp: opExtCodeCopy_def ws case_prod_unfold Let_def)
  qed
qed

lemma one_operand: "1 \<le> length ws \<Longrightarrow> (\<And>x us. ws = x # us \<Longrightarrow> P) \<Longrightarrow> P"
  by (cases ws) auto

lemma two_operands: "2 \<le> length ws \<Longrightarrow> (\<And>x y us. ws = x # y # us \<Longrightarrow> P) \<Longrightarrow> P"
  by (auto simp: Suc_le_words numeral_2_eq_2)

lemma mload_sound: "sound_exec 1 1 (Some memoryMLoad) opMload"
proof (rule sound_execI)
  fix env and fr :: frame and v ws
  assume c: "covered (Some memoryMLoad) fr" and w: "stk fr = words ws" "1 \<le> length ws"
  obtain x us where ws: "ws = x # us" using w(2) by (rule one_operand)
  have "calcMemSize (uint x) 32 \<le> 0xffffffffe0 \<and> calcMemSize (uint x) 32 \<le> int (length (store (mem fr)))"
    using covered_fixed [OF c [unfolded memoryMLoad_def] w(1)] by (simp add: ws)
  then obtain bs where bs: "Memory_Get (Int64 (uint x)) 32 (mem fr) = Some bs" "length bs \<le> 32"
    using Memory_Get_covered [of "uint x" 32 "mem fr"] Int64_small [of 32] by auto
  from push_result_sound [OF SetBytes_range [OF bs(2)], of "fr\<lparr>stk := words us\<rparr>" us v]
  show "\<exists>r fr1 v1 ws1. opMload env fr v = Some (r, fr1, v1) \<and> stk fr1 = words ws1 \<and> length ws1 + 1 \<le> length ws + 1"
    using w(1) bs(1) by (fastforce simp: opMload_def ws)
qed

lemma mstore_sound: "sound_exec 2 0 (Some memoryMStore) opMstore"
proof (rule sound_execI)
  fix env and fr :: frame and v ws
  assume c: "covered (Some memoryMStore) fr" and w: "stk fr = words ws" "2 \<le> length ws"
  obtain x y us where ws: "ws = x # y # us" using w(2) by (rule two_operands)
  have "calcMemSize (uint x) 32 \<le> 0xffffffffe0 \<and> calcMemSize (uint x) 32 \<le> int (length (store (mem fr)))"
    using covered_fixed [OF c [unfolded memoryMStore_def] w(1)] by (simp add: ws)
  then obtain m1 where "Memory_Set (Uint64 (uint x)) 32 (PaddedBigBytes (uint y) 32) (mem fr) = Some m1"
    using Memory_Set_covered [of "uint x" 32 "mem fr" "PaddedBigBytes (uint y) 32"] by (auto simp: Uint64_def)
  then show "\<exists>r fr1 v1 ws1. opMstore env fr v = Some (r, fr1, v1) \<and> stk fr1 = words ws1 \<and> length ws1 + 2 \<le> length ws + 0"
    using w(1) by (auto simp: opMstore_def ws ok_def)
qed

lemma mstore8_sound: "sound_exec 2 0 (Some memoryMStore8) opMstore8"
proof (rule sound_execI)
  fix env and fr :: frame and v ws
  assume c: "covered (Some memoryMStore8) fr" and w: "stk fr = words ws" "2 \<le> length ws"
  obtain x y us where ws: "ws = x # y # us" using w(2) by (rule two_operands)
  have "calcMemSize (uint x) 1 \<le> 0xffffffffe0 \<and> calcMemSize (uint x) 1 \<le> int (length (store (mem fr)))"
    using covered_fixed [OF c [unfolded memoryMStore8_def] w(1)] by (simp add: ws)
  then have "Int64 (uint x) = uint x" "int (unat x) < int (length (store (mem fr)))"
    using small_offsets(1) [of "uint x" 1] by (auto simp: calcMemSize_def)
  moreover from this(2) have "unat x < length (store (mem fr))" unfolding of_nat_less_iff .
  ultimately show "\<exists>r fr1 v1 ws1. opMstore8 env fr v = Some (r, fr1, v1) \<and> stk fr1 = words ws1 \<and> length ws1 + 2 \<le> length ws + 0"
    using w(1) by (auto simp: opMstore8_def ws ok_def)
qed

lemma covered_get:
  assumes "covered (Some (mem_range 0 1)) fr" "stk fr = words ws" "2 \<le> length ws"
  obtains x y us bs where "ws = x # y # us" "Memory_Get (Int64 (uint x)) (Int64 (uint y)) (mem fr) = Some bs"
proof -
  obtain x y us where ws: "ws = x # y # us" using assms(3) by (rule two_operands)
  then show ?thesis
    using that covered_range [OF assms(1,2)] Memory_Get_covered [of "uint x" "uint y" "mem fr"] by auto
qed

lemma reads_memory_sound:
  "sound_exec 2 0 (Some memoryReturn) opReturn" "sound_exec 2 0 (Some memoryRevert) opRevert"
  "sound_exec 2 1 (Some memorySha3) opSha3"
proof -
  show "sound_exec 2 0 (Some memoryReturn) opReturn"
    by (rule sound_execI, unfold memoryReturn_def, erule (2) covered_get)
       (auto simp: opReturn_def GetPtr_def)
  show "sound_exec 2 0 (Some memoryRevert) opRevert"
    by (rule sound_execI, unfold memoryRevert_def, erule (2) covered_get)
       (auto simp: opRevert_def GetPtr_def)
  show "sound_exec 2 1 (Some memorySha3) opSha3"
  proof (rule sound_execI)
    fix env and fr :: frame and v ws
    assume c: "covered (Some memorySha3) fr" and w: "stk fr = words ws" "2 \<le> length ws"
    then obtain x y us bs where g: "ws = x # y # us" "Memory_Get (Int64 (uint x)) (Int64 (uint y)) (mem fr) = Some bs"
      unfolding memorySha3_def by (rule covered_get)
    then show "\<exists>r fr1 v1 ws1. opSha3 env fr v = Some (r, fr1, v1) \<and> stk fr1 = words ws1 \<and> length ws1 + 2 \<le> length ws + 1"
      using push_result_sound [OF uint_range [of "keccak256 (sdbE env) bs"], of "fr\<lparr>stk := words us\<rparr>" us] w(1)
      by (fastforce simp: opSha3_def Let_def)
  qed
qed

lemma pop_topics_words:
  "n \<le> length ws \<Longrightarrow> \<exists>ts. pop_topics n (words ws) = Some (ts, words (drop n ws))"
  by (induction n arbitrary: ws) (force simp: Suc_le_words)+

lemma makeLog_sound: "sound_exec (n + 2) 0 (Some memoryLog) (makeLog n)"
proof (rule sound_execI)
  fix env and fr :: frame and v ws
  assume c: "covered (Some memoryLog) fr" and w: "stk fr = words ws" "n + 2 \<le> length ws"
  from c w obtain x y us bs where g: "ws = x # y # us" "Memory_Get (Int64 (uint x)) (Int64 (uint y)) (mem fr) = Some bs"
    unfolding memoryLog_def by (elim covered_get) auto
  obtain ts where "pop_topics n (words us) = Some (ts, words (drop n us))"
    using pop_topics_words [of n us] w(2) by (auto simp: g(1))
  then show "\<exists>r fr1 v1 ws1. makeLog n env fr v = Some (r, fr1, v1) \<and> stk fr1 = words ws1 \<and> length ws1 + (n + 2) \<le> length ws + 0"
    using g w by (auto simp: makeLog_def ok_def Let_def)
qed

lemma return_data_sound: "sound_exec 3 0 (Some memoryReturnDataCopy) opReturnDataCopy"
proof (rule sound_execI)
  fix env and fr :: frame and v :: vm and ws
  assume c: "covered (Some memoryReturnDataCopy) fr" and w: "stk fr = words ws" "3 \<le> length ws"
  obtain x y l us where ws: "ws = x # y # l # us"
    using w(2) by (auto simp: Suc_le_words numeral_3_eq_3)
  have "calcMemSize (uint x) (uint l) \<le> 0xffffffffe0 \<and>
      calcMemSize (uint x) (uint l) \<le> int (length (store (mem fr)))"
    using covered_range [OF c [unfolded memoryReturnDataCopy_def] w(1)] by (simp add: ws)
  then have s: "\<exists>m1. Memory_Set (Uint64 (uint x)) (Uint64 (uint l)) bs (mem fr) = Some m1" for bs
    using Memory_Set_covered [of "uint x" "uint l" "mem fr" bs] by simp
  have g: "\<not> Uint64 (uint y + uint l) < Uint64 (uint y)" if "BitLen (uint y + uint l) \<le> 64"
  proof -
    have "uint y + uint l < 2 ^ 64" using that BitLen_le [of "uint y + uint l" 64] by simp
    moreover from this have "uint y < 2 ^ 64" using uint_ge_0 [of l] by linarith
    ultimately have "uint (Uint64 (uint y + uint l)) = uint y + uint l" "uint (Uint64 (uint y)) = uint y"
      by (auto intro!: Uint64_small)
    then show ?thesis by (simp add: word_less_def)
  qed
  obtain m1 where m1: "Memory_Set (Uint64 (uint x)) (Uint64 (uint l))
      (take (unat (Uint64 (uint y + uint l)) - unat (Uint64 (uint y))) (drop (unat (Uint64 (uint y))) (returnData v)))
      (mem fr) = Some m1" using s by blast
  show "\<exists>r fr1 v1 ws1. opReturnDataCopy env fr v = Some (r, fr1, v1) \<and> stk fr1 = words ws1 \<and> length ws1 + 3 \<le> length ws + 0"
    using w(1) m1 g by (auto simp: opReturnDataCopy_def ws ok_def fail_def Let_def not_less)
qed

section \<open>Control flow and state\<close>

lemma trivial_sound:
  "sound_exec 0 0 None opStop" "sound_exec 0 0 None opJumpdest" "sound_exec 0 1 None opDifficulty"
  "sound_exec 1 0 None opPop"
  by (auto simp: sound_exec_def opStop_def opJumpdest_def opDifficulty_def opPop_def ok_def Suc_le_words)

lemma jump_to_sound:
  assumes "tame env fr v" "0 \<le> p" "stk fr1 = words us" "ctr fr1 = ctr fr"
  shows "\<exists>r fr2 v1. jump_to p fr1 v = Some (r, fr2, v1) \<and> stk fr2 = words us"
proof -
  obtain b d where "has (jumpdests v) (cCodeHash (ctr fr)) (cCode (ctr fr)) p = Some (b, d)"
    using has_spec [of "jumpdests v" "cCodeHash (ctr fr)" "cCode (ctr fr)" p] assms by (auto simp: tame_def)
  with assms show ?thesis by (auto simp: jump_to_def ok_def fail_def Let_def)
qed

lemma jumps_sound: "sound_exec 1 0 None opJump" "sound_exec 2 0 None opJumpi"
proof -
  show "sound_exec 1 0 None opJump"
  proof (rule sound_execI)
    fix env and fr :: frame and v ws
    assume t: "tame env fr v" and w: "stk fr = words ws" "1 \<le> length ws"
    obtain x us where ws: "ws = x # us" using w(2) by (rule one_operand)
    from jump_to_sound [OF t, of "uint x" "fr\<lparr>stk := words us\<rparr>" us] w(1)
    show "\<exists>r fr1 v1 ws1. opJump env fr v = Some (r, fr1, v1) \<and> stk fr1 = words ws1 \<and> length ws1 + 1 \<le> length ws + 0"
      by (auto simp: opJump_def ws)
  qed
  show "sound_exec 2 0 None opJumpi"
  proof (rule sound_execI)
    fix env and fr :: frame and v ws
    assume t: "tame env fr v" and w: "stk fr = words ws" "2 \<le> length ws"
    obtain x y us where ws: "ws = x # y # us" using w(2) by (rule two_operands)
    from jump_to_sound [OF t, of "uint x" "fr\<lparr>stk := words us\<rparr>" us] w(1)
    show "\<exists>r fr1 v1 ws1. opJumpi env fr v = Some (r, fr1, v1) \<and> stk fr1 = words ws1 \<and> length ws1 + 2 \<le> length ws + 0"
      by (auto simp: opJumpi_def ws Let_def ok_def)
  qed
qed

lemma replaces_sound:
  assumes "\<And>env fr v x us. tame env fr v \<Longrightarrow> stk fr = words (x # us) \<Longrightarrow>
    \<exists>z \<in> word_range. \<exists>v1. f env fr v = Some (ok (fr\<lparr>stk := z # words us\<rparr>) v1)"
  shows "sound_exec 1 1 None f"
proof (rule sound_execI)
  fix env and fr :: frame and v ws
  assume t: "tame env fr v" and w: "stk fr = words ws" "1 \<le> length ws"
  obtain x us where ws: "ws = x # us" using w(2) by (rule one_operand)
  obtain z v1 where "z \<in> word_range" "f env fr v = Some (ok (fr\<lparr>stk := z # words us\<rparr>) v1)"
    using assms [OF t, of x us] w(1) by (auto simp: ws)
  then obtain u where "f env fr v = Some (ok (fr\<lparr>stk := words (u # us)\<rparr>) v1)"
    by (auto simp: word_range_def)
  then show "\<exists>r fr1 v1 ws1. f env fr v = Some (r, fr1, v1) \<and> stk fr1 = words ws1 \<and> length ws1 + 1 \<le> length ws + 1"
    using ws by (auto simp: ok_def intro!: exI [of _ "u # us"])
qed

lemma length_getDataBig:
  assumes "length d < 2 ^ 62" "0 \<le> x"
  shows "length (getDataBig d x 32) \<le> 32"
proof -
  let ?s = "BigMin x (int (length d))"
  let ?e = "BigMin (?s + 32) (int (length d))"
  have d: "int (length d) < 2 ^ 62" using assms(1) of_nat_less_iff [where 'a = int, of "length d" "2 ^ 62"] by simp
  then have "uint (Uint64 ?s) = ?s" "uint (Uint64 ?e) = ?e"
    using assms(2) by (auto simp: BigMin_def intro!: Uint64_small)
  moreover have "?e - ?s \<le> 32" by (simp add: BigMin_def)
  ultimately have "int (unat (Uint64 ?e)) - int (unat (Uint64 ?s)) \<le> 32" by simp
  then have "unat (Uint64 ?e) - unat (Uint64 ?s) \<le> 32" by arith
  moreover have "sint (Uint64 32) = 32" by (simp add: Uint64_def)
  ultimately show ?thesis
    unfolding getDataBig_def Let_def length_RightPadBytes length_take by (simp add: min.coboundedI2)
qed

lemma hash_range: "0 \<in> word_range" "uint (h :: hash) \<in> word_range"
  by (simp add: word_range_iff) (simp add: word_range_def)

lemma reads_sound:
  "sound_exec 1 1 None opCallDataLoad" "sound_exec 1 1 None opBlockhash" "sound_exec 1 1 None opBalance"
  "sound_exec 1 1 None opExtCodeSize" "sound_exec 1 1 None opSload"
proof -
  show "sound_exec 1 1 None opCallDataLoad"
    by (rule replaces_sound) (auto simp: opCallDataLoad_def push_result_def tame_def intro!: SetBytes_range length_getDataBig)
  show "sound_exec 1 1 None opBlockhash"
    by (rule replaces_sound) (auto simp: opBlockhash_def push_result_def intro: hash_range)
  show "sound_exec 1 1 None opBalance"
    by (rule replaces_sound) (auto simp: opBalance_def case_prod_unfold Let_def tame_def)
  show "sound_exec 1 1 None opExtCodeSize"
    by (rule replaces_sound) (auto simp: opExtCodeSize_def case_prod_unfold Let_def intro!: uint_range)
  show "sound_exec 1 1 None opSload"
    by (rule replaces_sound) (auto simp: opSload_def push_result_def case_prod_unfold Let_def intro!: uint_range)
qed

lemma writes_sound: "sound_exec 2 0 None opSstore" "sound_exec 1 0 None opSuicide"
  by (auto simp: sound_exec_def opSstore_def opSuicide_def ok_def Let_def case_prod_unfold
      Suc_le_words numeral_2_eq_2)

lemmas exec_sound = pushes_sound arith_sound makeDup_sound makeSwap_sound makePush_sound copies_sound mload_sound
  mstore_sound mstore8_sound reads_memory_sound makeLog_sound return_data_sound trivial_sound jumps_sound
  reads_sound writes_sound

section \<open>Gas and memory before the instruction\<close>

text \<open>
  With enough operands the gas function returns, leaves the store and keeps the
  surroundings; if the instruction touches the memory, the size it charged is bounded.
\<close>

definition sound_gas :: "nat \<Rightarrow> bool \<Rightarrow> gasFunc \<Rightarrow> bool" where
  "sound_gas p touches f \<longleftrightarrow> (\<forall>env fr ws need v. tame env fr v \<longrightarrow> stk fr = words ws \<longrightarrow> p \<le> length ws \<longrightarrow>
     (\<exists>r m1 v1. f GasTableHomestead env (ctr fr) (stk fr) (mem fr) need v = Some (r, m1, v1) \<and>
        store m1 = store (mem fr) \<and> tame env fr v1 \<and> (r \<noteq> None \<longrightarrow> touches \<longrightarrow> need \<le> 0xffffffffe0)))"

lemma const_gas_sound:
  "sound_gas p False (constGasFunc g)" "sound_gas p False gasBalance" "sound_gas p False gasExtCodeSize"
  "sound_gas p False gasSLoad" "sound_gas p False gasPush" "sound_gas p False gasSwap" "sound_gas p False gasDup"
  "sound_gas 2 False gasExp"
  by (auto simp: sound_gas_def constGasFunc_def gasBalance_def gasExtCodeSize_def gasSLoad_def gasPush_def
      gasSwap_def gasDup_def gasExp_def Suc_le_words numeral_2_eq_2 Let_def)

lemma memoryGasCost_sound:
  "store (snd (memoryGasCost m need)) = store m" "fst (memoryGasCost m need) = Some g \<Longrightarrow> need \<le> 0xffffffffe0"
  by (auto simp: memoryGasCost_def Let_def not_less split: if_splits)

lemma memory_gas_sound:
  "sound_gas p True gasReturn" "sound_gas p True gasRevert" "sound_gas p True gasMLoad"
  "sound_gas p True gasMStore" "sound_gas p True gasMStore8"
  by (auto simp: sound_gas_def gasReturn_def gasRevert_def gasMLoad_def gasMStore_def gasMStore8_def
      memory_plus_def case_prod_unfold Let_def memoryGasCost_sound(1) bind_eq_Some_conv dest: memoryGasCost_sound(2))

lemma copy_gas_sound:
  "sound_gas 3 True gasCallDataCopy" "sound_gas 3 True gasReturnDataCopy" "sound_gas 2 True gasSha3"
  "sound_gas 3 True gasCodeCopy" "sound_gas 4 True gasExtCodeCopy" "sound_gas (n + 2) True (makeGasLog g)"
proof -
  have c: "sound_gas p True (copy_cost a b i)" if "i < p" for p i a b
    using that by (auto simp: sound_gas_def copy_cost_def Back_def case_prod_unfold Let_def
        memoryGasCost_sound(1) bind_eq_Some_conv dest: memoryGasCost_sound(2))
  show "sound_gas 3 True gasCallDataCopy" "sound_gas 3 True gasReturnDataCopy" "sound_gas 2 True gasSha3"
    "sound_gas 3 True gasCodeCopy"
    by (simp_all add: gasCallDataCopy_def gasReturnDataCopy_def gasSha3_def gasCodeCopy_def c)
  show "sound_gas 4 True gasExtCodeCopy"
    using c [of 3 4 "ExtcodeCopy GasTableHomestead" CopyGas] by (simp add: sound_gas_def gasExtCodeCopy_def)
  show "sound_gas (n + 2) True (makeGasLog g)"
    by (auto simp: sound_gas_def makeGasLog_def Back_def case_prod_unfold Let_def memoryGasCost_sound(1)
        bind_eq_Some_conv dest: memoryGasCost_sound(2) split: option.splits)
qed

lemma tame_cong:
  assumes "tame env fr v" "jumpdests v1 = jumpdests v" "wf_objs (sdb v1)"
    "\<And>a. fst (GetBalance a (sdb v1)) = fst (GetBalance a (sdb v))"
  shows "tame env fr v1"
  using assms by (simp add: tame_def)

lemma refund_reads:
  "wf_objs (AddRefund g s) = wf_objs s" "fst (GetBalance b (AddRefund g s)) = fst (GetBalance b s)"
  by (simp_all add: AddRefund_def GetBalance_def split: option.splits)

lemma tame_reads:
  assumes "tame env fr v"
  shows "tame env fr (v\<lparr>sdb := snd (getStateObject a (sdb v))\<rparr>)"
    and "tame env fr (v\<lparr>sdb := snd (GetState E a k (sdb v))\<rparr>)"
    and "tame env fr (v\<lparr>sdb := AddRefund g (sdb v)\<rparr>)"
proof -
  have wf: "wf_objs (sdb v)" using assms by (simp add: tame_def)
  have bal: "fst (GetBalance b t) = fst (GetBalance b (sdb v))" if "sim E t (sdb v)" for E b t
    using that unfolding sim_def reads_return_view(2) [where E = E] by simp
  have "extends E (sdb v) (snd (GetState E a k (sdb v)))"
    by (rule extends_exec_op [OF wf, of "GetStateOp a k"]) simp_all
  then have "wf_objs (snd (GetState E a k (sdb v)))" by (rule extends_wf)
  then show "tame env fr (v\<lparr>sdb := snd (GetState E a k (sdb v))\<rparr>)"
    by (intro tame_cong [OF assms]) (simp_all add: bal [OF reads_keep_view(8) [OF wf]])
  show "tame env fr (v\<lparr>sdb := snd (getStateObject a (sdb v))\<rparr>)"
    by (rule tame_cong [OF assms]) (simp_all add: wf bal [OF sim_getStateObject])
  show "tame env fr (v\<lparr>sdb := AddRefund g (sdb v)\<rparr>)"
    by (rule tame_cong [OF assms]) (simp_all add: wf refund_reads)
qed

lemma state_gas_sound: "sound_gas 2 False gasSStore" "sound_gas 1 False gasSuicide"
proof -
  have 1: "tame env fr (v\<lparr>sdb := AddRefund g (snd (GetState E a k (sdb v)))\<rparr>)" if "tame env fr v" for env fr v E a k g
    using tame_reads(3) [OF tame_reads(2) [OF that]] by simp
  show "sound_gas 2 False gasSStore"
    by (auto simp: sound_gas_def gasSStore_def Suc_le_words numeral_2_eq_2 Let_def case_prod_unfold 1 tame_reads)
  have 2: "tame env fr (v\<lparr>sdb := snd (getStateObject b (snd (getStateObject a (sdb v))))\<rparr>)"
    if "tame env fr v" for env fr v a b
    using tame_reads(1) [OF tame_reads(1) [OF that, of a], of b] by simp
  have 3: "tame env fr (v\<lparr>sdb := AddRefund g (snd (getStateObject b (snd (getStateObject a (sdb v)))))\<rparr>)"
    "tame env fr (v\<lparr>sdb := snd (getStateObject c (snd (getStateObject b (snd (getStateObject a (sdb v))))))\<rparr>)"
    if "tame env fr v" for env fr v a b c g
    using tame_reads(3) [OF 2 [OF that, of b a]] tame_reads(1) [OF 2 [OF that, of b a], of c] by simp_all
  have 4: "tame env fr (v\<lparr>sdb := AddRefund g (snd (getStateObject c (snd (getStateObject b (snd (getStateObject a (sdb v)))))))\<rparr>)"
    if "tame env fr v" for env fr v a b c g
    using tame_reads(3) [OF 3(2) [OF that, of c b a]] by simp
  show "sound_gas 1 False gasSuicide"
    by (auto simp: sound_gas_def gasSuicide_def Suc_le_words Let_def case_prod_unfold snd_reads 2 3 4)
qed

section \<open>The step\<close>

definition sound_op :: "operation \<Rightarrow> bool" where
  "sound_op oper \<longleftrightarrow> (\<exists>p q f. validateStack oper = makeStackFunc p q \<and> execute oper = local f \<and>
     sound_gas p (memorySize oper \<noteq> None) (gasCost oper) \<and> sound_exec p q (memorySize oper) f \<and>
     (\<forall>g ws. memorySize oper = Some g \<longrightarrow> p \<le> length ws \<longrightarrow> (\<exists>n\<ge>0. g (words ws) = Some n)))"

lemma sound_opI:
  assumes "validateStack oper = makeStackFunc p q" "execute oper = local f"
    "sound_gas p (memorySize oper \<noteq> None) (gasCost oper)" "sound_exec p q (memorySize oper) f"
    "\<And>g ws. memorySize oper = Some g \<Longrightarrow> p \<le> length ws \<Longrightarrow> \<exists>n\<ge>0. g (words ws) = Some n"
  shows "sound_op oper"
  unfolding sound_op_def using assms by blast

lemma sound_op_plain:
  "sound_gas p False gas \<Longrightarrow> sound_exec p q None f \<Longrightarrow> sound_op (plain (local f) gas (makeStackFunc p q))"
  by (rule sound_opI) simp_all

lemma mem_range_total:
  "p \<le> length ws \<Longrightarrow> i < p \<Longrightarrow> j < p \<Longrightarrow> \<exists>n\<ge>0. mem_range i j (words ws) = Some n"
  "p \<le> length ws \<Longrightarrow> i < p \<Longrightarrow> 0 \<le> l \<Longrightarrow> \<exists>n\<ge>0. mem_fixed i l (words ws) = Some n"
  by (auto simp: mem_range_def mem_fixed_def Back_def nth_words calcMemSize_def)

lemma sound_op_memory:
  "sound_gas p True gas \<Longrightarrow> sound_exec p q (Some (mem_range i j)) f \<Longrightarrow> i < p \<Longrightarrow> j < p \<Longrightarrow>
     sound_op ((plain (local f) gas (makeStackFunc p q))\<lparr>memorySize := Some (mem_range i j)\<rparr>)"
  "sound_gas p True gas \<Longrightarrow> sound_exec p q (Some (mem_fixed i l)) f \<Longrightarrow> i < p \<Longrightarrow> 0 \<le> l \<Longrightarrow>
     sound_op ((plain (local f) gas (makeStackFunc p q))\<lparr>memorySize := Some (mem_fixed i l)\<rparr>)"
  by (rule sound_opI [where p = p and q = q and f = f]; clarsimp simp: mem_range_total)+

lemma sound_op_update [simp]:
  "sound_op (oper\<lparr>halts := b\<rparr>) = sound_op oper" "sound_op (oper\<lparr>jumps := b\<rparr>) = sound_op oper"
  "sound_op (oper\<lparr>reverts := b\<rparr>) = sound_op oper" "sound_op (oper\<lparr>returns := b\<rparr>) = sound_op oper"
  "sound_op (oper\<lparr>writes := b\<rparr>) = sound_op oper"
  by (simp_all add: sound_op_def)

lemmas memory_defs = memorySha3_def memoryCallDataCopy_def memoryReturnDataCopy_def memoryCodeCopy_def
  memoryExtCodeCopy_def memoryMLoad_def memoryMStore8_def memoryMStore_def memoryReturn_def
  memoryRevert_def memoryLog_def

lemmas sound_entries =
  exec_sound [unfolded memory_defs One_nat_def] const_gas_sound memory_gas_sound
  copy_gas_sound state_gas_sound [unfolded One_nat_def] makeDup_sound [simplified]
  makeSwap_sound [simplified] makeLog_sound [unfolded memory_defs, simplified] copy_gas_sound(6) [simplified]

lemma table_sound:
  "\<forall>e \<in> set arith_table. sound_op (snd e)" "\<forall>e \<in> set env_table. sound_op (snd e)"
  "\<forall>e \<in> set flow_table. sound_op (snd e)"
  "\<forall>e \<in> set (push_table1 @ push_table2 @ dup_table @ swap_table @ log_table). sound_op (snd e)"
  by (simp_all add: arith_table_def env_table_def flow_table_def push_table1_def push_table2_def dup_table_def
      swap_table_def log_table_def memory_defs makeDupStackFunc_def makeSwapStackFunc_def ball_Un
      sound_op_plain sound_op_memory sound_entries)

definition call_ops :: "byte list" where
  "call_ops = [CREATE, CALL, CALLCODE, DELEGATECALL, STATICCALL]"

lemma JumpTable_sound:
  assumes "JumpTable op = Some oper" "op \<notin> set call_ops"
  shows "sound_op oper"
proof -
  have "\<forall>e \<in> set NewByzantiumInstructionSet. fst e \<notin> set call_ops \<longrightarrow> sound_op (snd e)"
    using table_sound
    by (simp add: NewByzantiumInstructionSet_def NewHomesteadInstructionSet_def NewFrontierInstructionSet_def
        ball_Un call_table_def call_ops_def memory_defs sound_op_plain sound_op_memory sound_entries)
  with assms show ?thesis by (auto simp: JumpTable_def dest!: map_of_SomeD)
qed

lemma required_memory_covers:
  assumes "required_memory oper st = Some (Some need)" "memorySize oper = Some f" "f st = Some n" "0 \<le> n"
  shows "n \<le> int (unat need)"
proof -
  from assms obtain k where k: "checked (bigUint64 n) = Some k" "checked (SafeMul (toWordSize k) 32) = Some need"
    by (auto simp: required_memory_def bind_eq_Some_conv)
  then have "n < 2 ^ 64" using BitLen_le [OF assms(4), of 64]
    by (auto simp: checked_def bigUint64_def split: if_splits)
  then have "uint k = n" using k(1) Uint64_small [OF assms(4)] by (auto simp: checked_def bigUint64_def split: if_splits)
  then have "int (unat k) = n" by simp
  moreover have "unat k \<le> (unat k + 31) div 32 * 32" by linarith
  moreover have "unat need = (unat k + 31) div 32 * 32"
    using k(2) SafeMul_ok(2) [of "toWordSize k" 32] by (auto simp: checked_def toWordSize_eq split: if_splits)
  ultimately show ?thesis by linarith
qed

text \<open>What the interpreter has established when it executes an instruction.\<close>

definition ready :: "vm_env \<Rightarrow> operation \<Rightarrow> frame \<Rightarrow> vm \<Rightarrow> bool" where
  "ready env oper fr v \<longleftrightarrow> (\<exists>p q f ws. execute oper = local f \<and> sound_exec p q (memorySize oper) f \<and>
     tame env fr v \<and> covered (memorySize oper) fr \<and> length (store (mem fr)) < 2 ^ 62 \<and>
     stk fr = words ws \<and> p \<le> length ws \<and> length ws + q \<le> 1024 + p)"

lemma resized:
  assumes "length (store m) < 2 ^ 61" "need \<le> 0xffffffffe0"
  shows "length (store (Resize need m)) < 2 ^ 62" "unat need \<le> length (store (Resize need m))"
proof -
  have "unat need \<le> 0xffffffffe0" using assms(2) by (simp add: word_le_nat_alt)
  with assms(1) show "length (store (Resize need m)) < 2 ^ 62" "unat need \<le> length (store (Resize need m))"
    by (auto simp: Resize_def)
qed

lemma charged_ready:
  assumes "sound_op oper" "tame env fr v" "stk fr = words ws" "length (store (mem fr)) < 2 ^ 61"
    and "validateStack oper (stk fr) = None" "required_memory oper (stk fr) = Some (Some need)"
    and "gasCost oper GasTableHomestead env (ctr fr) (stk fr) (mem fr) need v = Some (Some g, m, v1)"
  shows "ready env oper (fr\<lparr>ctr := (ctr fr)\<lparr>cGas := x\<rparr>, mem := if need > 0 then Resize need m else m\<rparr>) v1"
proof -
  obtain p q f where o: "validateStack oper = makeStackFunc p q" "execute oper = local f"
    "sound_gas p (memorySize oper \<noteq> None) (gasCost oper)" "sound_exec p q (memorySize oper) f"
    "\<And>g ws. memorySize oper = Some g \<Longrightarrow> p \<le> length ws \<Longrightarrow> \<exists>n\<ge>0. g (words ws) = Some n"
    using assms(1) unfolding sound_op_def by blast
  have p: "p \<le> length ws" "length ws + q \<le> 1024 + p"
    using assms(3,5) by (auto simp: o(1) makeStackFunc_def require_def split: if_splits)
  have g: "store m = store (mem fr)" "tame env fr v1" "memorySize oper \<noteq> None \<longrightarrow> need \<le> 0xffffffffe0"
    using o(3) [unfolded sound_gas_def, rule_format, OF assms(2,3) p(1), of need] assms(7) by auto
  let ?fr = "fr\<lparr>ctr := (ctr fr)\<lparr>cGas := x\<rparr>, mem := if need > 0 then Resize need m else m\<rparr>"
  have t: "tame env ?fr v1" using g(2) by (simp add: tame_def)
  have "covered (memorySize oper) ?fr \<and> length (store (mem ?fr)) < 2 ^ 62"
  proof (cases "memorySize oper")
    case None
    with assms(6) have "need = 0" by (simp add: required_memory_def)
    with None g(1) assms(4) show ?thesis by (simp add: covered_def)
  next
    case (Some h)
    obtain n where n: "0 \<le> n" "h (words ws) = Some n" using o(5) [OF Some p(1)] by blast
    have need: "need \<le> 0xffffffffe0" using g(3) Some by simp
    have "n \<le> int (unat need)" using required_memory_covers [OF assms(6) Some _ n(1)] n(2) assms(3) by simp
    moreover have "unat need \<le> 0xffffffffe0" using need by (simp add: word_le_nat_alt)
    moreover have "unat need \<le> length (store (mem ?fr)) \<and> length (store (mem ?fr)) < 2 ^ 62"
      using resized [OF _ need, of m] assms(4) g(1) by (auto simp: word_greater_zero_iff)
    ultimately have "n \<le> 0xffffffffe0" "n \<le> int (length (store (mem ?fr)))" "length (store (mem ?fr)) < 2 ^ 62"
      by linarith+
    then show ?thesis by (simp add: Some covered_def assms(3) n(2) split del: if_split)
  qed
  then show ?thesis unfolding ready_def using o(2,4) t p assms(3) by fastforce
qed

lemma prepare_ready:
  assumes "tame env fr v" "stk fr = words ws" "length (store (mem fr)) < 2 ^ 61"
    and "GetOp (ctr fr) (pc fr) \<notin> set call_ops"
  shows "\<exists>r. prepare env fr v = Some r \<and> (case r of Inl x \<Rightarrow> True | Inr (oper, fr1, v1) \<Rightarrow>
    ready env oper fr1 v1 \<and> pc fr1 = pc fr \<and> cCode (ctr fr1) = cCode (ctr fr) \<and>
    JumpTable (GetOp (ctr fr) (pc fr)) = Some oper)"
proof (cases "JumpTable (GetOp (ctr fr) (pc fr))")
  case None
  then show ?thesis by (simp add: prepare_def)
next
  case (Some oper)
  let ?op = "GetOp (ctr fr) (pc fr)"
  note s = JumpTable_sound [OF Some assms(4)]
  obtain p q where o: "validateStack oper = makeStackFunc p q"
    "sound_gas p (memorySize oper \<noteq> None) (gasCost oper)"
    "\<And>g ws. memorySize oper = Some g \<Longrightarrow> p \<le> length ws \<Longrightarrow> \<exists>n\<ge>0. g (words ws) = Some n"
    using s unfolding sound_op_def by blast
  have e: "\<exists>x. enforceRestrictions ?op oper (stk fr) v = Some x"
    using assms(4) by (auto simp: enforceRestrictions_def call_ops_def)
  show ?thesis
  proof (cases "validateStack oper (stk fr) = None \<and> enforceRestrictions ?op oper (stk fr) v = Some None")
    case False
    with e Some show ?thesis by (auto simp: prepare_def Let_def split: option.splits)
  next
    case True
    then have p: "p \<le> length ws" using assms(2) by (auto simp: o(1) makeStackFunc_def require_def split: if_splits)
    obtain req where req: "required_memory oper (stk fr) = Some req"
      using o(3) p assms(2) by (cases "memorySize oper") (fastforce simp: required_memory_def)+
    show ?thesis
    proof (cases req)
      case None
      with True Some req show ?thesis by (simp add: prepare_def)
    next
      case need: (Some need)
      obtain g m v1 where g: "gasCost oper GasTableHomestead env (ctr fr) (stk fr) (mem fr) need v = Some (g, m, v1)"
        using o(2) assms(1,2) p unfolding sound_gas_def by blast
      with True Some req need charged_ready [OF s assms(1-3)] show ?thesis
        by (cases g) (auto simp: prepare_def UseGas_def)
    qed
  qed
qed

lemma executed:
  assumes "ready env oper fr v" "unat (pc fr) < length (cCode (ctr fr))"
  shows "\<exists>r fr1 v1 ws1. execute oper L env fr v = Some (Some (r, fr1, v1)) \<and> stk fr1 = words ws1 \<and> length ws1 \<le> 1024"
proof -
  obtain p q f ws where r: "execute oper = local f" "sound_exec p q (memorySize oper) f" "tame env fr v"
    "covered (memorySize oper) fr" "length (store (mem fr)) < 2 ^ 62" "stk fr = words ws" "p \<le> length ws"
    "length ws + q \<le> 1024 + p" using assms(1) unfolding ready_def by blast
  from r(2) [unfolded sound_exec_def, rule_format, OF r(3,6,7,4,5) assms(2)] obtain x fr1 v1 ws1 where
    "f env fr v = Some (x, fr1, v1)" "stk fr1 = words ws1" "length ws1 + p \<le> length ws + q" by blast
  moreover from this(3) r(8) have "length ws1 \<le> 1024" by linarith
  ultimately show ?thesis unfolding r(1) local_def by auto
qed

lemma JumpTable_STOP: "JumpTable STOP = Some oper \<Longrightarrow> execute oper = local opStop \<and> halts oper"
  by (auto simp: JumpTable_def NewByzantiumInstructionSet_def NewHomesteadInstructionSet_def
      NewFrontierInstructionSet_def arith_table_def opcode_simps)

text \<open>
  C16. Once validated, charged and given its memory, an instruction that runs in its own
  frame never panics, whatever its operands: no operand is missing, no slice leaves the
  memory, no jump leaves the analysis; and the stack is again a stack of 256-bit words
  of at most 1024 entries. This holds for every program and every byte of it other than
  the five instructions that call or create.
\<close>

theorem steps_stay_well_typed:
  assumes "tame env fr v" "stk fr = words ws" "length ws \<le> 1024" "length (store (mem fr)) < 2 ^ 61"
    and "GetOp (ctr fr) (pc fr) \<notin> {CREATE, CALL, CALLCODE, DELEGATECALL, STATICCALL}"
  shows "\<exists>r. step L env fr v = Some (Some r) \<and>
    (case r of Inl res \<Rightarrow> True | Inr (fr1, v1) \<Rightarrow> \<exists>ws1. stk fr1 = words ws1 \<and> length ws1 \<le> 1024)"
proof -
  have "GetOp (ctr fr) (pc fr) \<notin> set call_ops" using assms(5) by (simp add: call_ops_def)
  from prepare_ready [OF assms(1,2,4) this] obtain r where r: "prepare env fr v = Some r"
    "case r of Inl x \<Rightarrow> True | Inr (oper, fr1, v1) \<Rightarrow> ready env oper fr1 v1 \<and> pc fr1 = pc fr \<and>
       cCode (ctr fr1) = cCode (ctr fr) \<and> JumpTable (GetOp (ctr fr) (pc fr)) = Some oper" by blast
  show ?thesis
  proof (cases r)
    case (Inl y)
    with r(1) show ?thesis by (cases y) (auto simp: step_def)
  next
    case (Inr y)
    obtain oper fr1 v1 where y: "y = (oper, fr1, v1)" by (cases y)
    have rd: "ready env oper fr1 v1" "pc fr1 = pc fr" "cCode (ctr fr1) = cCode (ctr fr)"
      "JumpTable (GetOp (ctr fr) (pc fr)) = Some oper" using r(2) by (simp_all add: Inr y)
    show ?thesis
    proof (cases "unat (pc fr1) < length (cCode (ctr fr1))")
      case True
      from executed [OF rd(1) True, of L] obtain x fr2 v2 ws1 where
        e: "execute oper L env fr1 v1 = Some (Some (x, fr2, v2))" "stk fr2 = words ws1" "length ws1 \<le> 1024" by blast
      then show ?thesis
        using r(1) by (auto simp: step_def Inr y and_then_def conclude_def Let_def split: prod.splits option.splits)
    next
      case False
      moreover have "unat (of_nat (length (cCode (ctr fr))) :: u64) = length (cCode (ctr fr))"
        using assms(1) by (simp add: tame_def unsigned_of_nat take_bit_nat_eq_self)
      ultimately have "JumpTable STOP = Some oper"
        using rd by (simp add: GetOp_def GetByte_def STOP_def word_less_nat_alt)
      with JumpTable_STOP r(1) show ?thesis
        by (simp add: step_def Inr y local_def opStop_def ok_def and_then_def conclude_def Let_def)
    qed
  qed
qed

theorem steps_stay_well_typed_witness:
  "\<exists>r. step (\<lambda>_ _. None) demo_vm_env
      \<lparr>pc = 4, stk = [3, 7], mem = NewMemory,
       ctr = SetCallCode 4 1 [0x60, 7, 0x60, 3, 0x52] (NewContract (AccountRef 7) 4 0 100)\<rparr>
      (demo_vm (New empty_trie)) = Some (Some r) \<and>
    (case r of Inl res \<Rightarrow> True | Inr (fr1, v1) \<Rightarrow> \<exists>ws1. stk fr1 = words ws1 \<and> length ws1 \<le> 1024)"
proof (rule steps_stay_well_typed [where ws = "[3, 7]"])
qed (simp_all add: tame_def demo_vm_env_def demo_vm_def SetCallCode_def NewContract_def NewMemory_def word_range_iff
    coherent_def GetOp_def GetByte_def opcode_simps GetBalance_def New_def wf_objs_def empty_trie_def
    lookup_eq stored_def)

section \<open>Storing and loading a word\<close>

text \<open>
  C17. A word stored with \<^verbatim>\<open>MSTORE\<close> is the word \<^verbatim>\<open>MLOAD\<close> reads at the same place, for
  every word and every offset inside the memory; the size of the memory and every byte
  outside the 32 bytes stay.
\<close>

theorem mstore_then_mload:
  assumes "stk fr = words (x # y # ws)" "uint x + 32 \<le> int (length (store (mem fr)))" "uint x + 32 \<le> 0xffffffffe0"
  shows "\<exists>m. opMstore env fr v = Some (ok (fr\<lparr>stk := words ws, mem := m\<rparr>) v) \<and>
    opMload env (fr\<lparr>stk := words (x # ws), mem := m\<rparr>) v =
      Some (ok (fr\<lparr>stk := words (y # ws), mem := m\<rparr>) v) \<and>
    length (store m) = length (store (mem fr)) \<and>
    (\<forall>i < length (store m). i < unat x \<or> unat x + 32 \<le> i \<longrightarrow> store m ! i = store (mem fr) ! i)"
proof -
  let ?s = "store (mem fr)" and ?b = "be_bytes 32 (uint y)"
  define m where "m = (mem fr)\<lparr>store := take (unat x) ?s @ ?b @ drop (unat x + 32) ?s\<rparr>"
  have "int (unat x + 32) \<le> int (length ?s)" using assms(2) by simp
  then have l: "unat x + 32 \<le> length ?s" by (simp only: of_nat_le_iff)
  have u: "unat (Uint64 (uint x)) = unat x" "Int64 (uint x) = uint x"
    using assms(3) Uint64_small [of "uint x"] Int64_small [of "uint x"] by (simp_all flip: nat_uint_eq)
  have p: "PaddedBigBytes (uint y) 32 = ?b"
    using PaddedBigBytes_eq [of "uint y" 32] uint_256_less [of y] by simp
  have set: "Memory_Set (Uint64 (uint x)) 32 (PaddedBigBytes (uint y) 32) (mem fr) = Some m"
    using l by (simp add: Memory_Set_def u p m_def Let_def)
  have "take 32 (drop (unat x) (store m)) = ?b" using l by (simp add: m_def)
  moreover have len: "length (store m) = length ?s" using l by (simp add: m_def)
  ultimately have get: "Memory_Get (Int64 (uint x)) 32 m = Some ?b"
    using assms(2) by (simp add: Memory_Get_def u)
  have "SetBytes ?b = uint y" using uint_256_less [of y] by (simp add: SetBytes_be_bytes)
  moreover have "store m ! i = ?s ! i" if "i < length (store m)" "i < unat x \<or> unat x + 32 \<le> i" for i
    using that l by (auto simp: m_def nth_append)
  ultimately show ?thesis
    using assms(1) set get len
    by (intro exI [of _ m]) (cases fr; simp add: opMstore_def opMload_def push_result_def)
qed

theorem mstore_then_mload_witness:
  "\<exists>m. opMload demo_vm_env \<lparr>pc = 0, stk = words (3 # []), mem = m, ctr = NewContract (AccountRef 7) 4 0 100\<rparr>
      (demo_vm (New empty_trie)) =
    Some (ok \<lparr>pc = 0, stk = words (77 # []), mem = m, ctr = NewContract (AccountRef 7) 4 0 100\<rparr>
      (demo_vm (New empty_trie))) \<and> length (store m) = 64"
proof -
  let ?fr = "\<lparr>pc = 0, stk = words (3 # 77 # []), mem = \<lparr>store = replicate 64 0, lastGasCost = 0\<rparr>,
    ctr = NewContract (AccountRef 7) 4 0 100\<rparr>"
  show ?thesis
    using mstore_then_mload [of ?fr 3 77 "[]" demo_vm_env "demo_vm (New empty_trie)"] by auto
qed

end
