(* ===== verification/Core_Transition.thy ===== *)
theory Core_Transition
  imports Evm_Rollback
begin

text \<open>
  One transaction: the gas pool of \<^verbatim>\<open>src/core/gaspool.go\<close> and the state transition of
  \<^verbatim>\<open>src/core/state_transition.go\<close>, with the message of \<^verbatim>\<open>src/protos/transaction.go\<close>.
  The lemmas follow the gas and the coins through a transition.
\<close>

section \<open>The gas pool\<close>

datatype core_error =
    ErrGasLimitReached | ErrNonceTooHigh | ErrNonceTooLow | core_ErrInsufficientBalance
  | errInsufficientBalanceForGas | VmError vmerr

definition MaxUint64 :: u64 where "MaxUint64 = 0xFFFFFFFFFFFFFFFF"

definition AddGas :: "u64 \<Rightarrow> u64 \<Rightarrow> u64 option" where
  "AddGas gp amount = (if gp > MaxUint64 - amount then None else Some (gp + amount))"

definition SubGas :: "u64 \<Rightarrow> u64 \<Rightarrow> core_error option \<times> u64" where
  "SubGas gp amount = (if gp < amount then (Some ErrGasLimitReached, gp) else (None, gp - amount))"

section \<open>Messages and their intrinsic gas\<close>

record Msg =
  msg_to :: "address option"
  msg_from :: address
  msg_nonce :: u64
  msg_amount :: int
  msg_gasLimit :: u64
  msg_gasPrice :: int
  msg_data :: "byte list"
  msg_checkNonce :: bool

definition TxGas :: u64 where "TxGas = 21000"
definition TxGasContractCreation :: u64 where "TxGasContractCreation = 53000"
definition TxDataZeroGas :: u64 where "TxDataZeroGas = 4"
definition TxDataNonZeroGas :: u64 where "TxDataNonZeroGas = 68"

definition IntrinsicGas :: "byte list \<Rightarrow> bool \<Rightarrow> bool \<Rightarrow> u64 \<times> core_error option" where
  "IntrinsicGas bs contractCreation homestead =
     (let gas = (if contractCreation \<and> homestead then TxGasContractCreation else TxGas) in
      if length bs > 0 then
        (let nz = of_nat (length (filter (\<lambda>byt. byt \<noteq> 0) bs)) in
         if (MaxUint64 - gas) div TxDataNonZeroGas < nz then (0, Some (VmError ErrOutOfGas))
         else
           (let gas1 = gas + nz * TxDataNonZeroGas; z = of_nat (length bs) - nz in
            if (MaxUint64 - gas1) div TxDataZeroGas < z then (0, Some (VmError ErrOutOfGas))
            else (gas1 + z * TxDataZeroGas, None)))
      else (gas, None))"

section \<open>The state transition\<close>

record StateTransition =
  st_gp :: u64
  st_msg :: Msg
  st_gas :: u64
  st_gasPrice :: int
  st_initialGas :: u64
  st_value :: int
  st_data :: "byte list"
  st_evm :: vm

definition NewStateTransition :: "vm \<Rightarrow> Msg \<Rightarrow> u64 \<Rightarrow> StateTransition" where
  "NewStateTransition evm msg gp =
     \<lparr>st_gp = gp, st_msg = msg, st_gas = 0, st_gasPrice = msg_gasPrice msg, st_initialGas = 0,
      st_value = msg_amount msg, st_data = msg_data msg, st_evm = evm\<rparr>"

definition set_state :: "stateDB \<Rightarrow> StateTransition \<Rightarrow> StateTransition" where
  "set_state s st = st\<lparr>st_evm := (st_evm st)\<lparr>sdb := s\<rparr>\<rparr>"

abbreviation st_state :: "StateTransition \<Rightarrow> stateDB" where
  "st_state st \<equiv> sdb (st_evm st)"

definition buyGas :: "sdb_env \<Rightarrow> StateTransition \<Rightarrow> core_error option \<times> StateTransition" where
  "buyGas E st =
     (let mgval = uint (msg_gasLimit (st_msg st)) * st_gasPrice st;
          (bal, s1) = GetBalance (msg_from (st_msg st)) (st_state st);
          st1 = set_state s1 st in
      if bal < mgval then (Some errInsufficientBalanceForGas, st1)
      else (case SubGas (st_gp st1) (msg_gasLimit (st_msg st)) of
          (Some err, _) \<Rightarrow> (Some err, st1)
        | (None, gp1) \<Rightarrow>
            (None, set_state (SubBalance E (msg_from (st_msg st)) mgval s1)
               (st1\<lparr>st_gp := gp1, st_gas := st_gas st1 + msg_gasLimit (st_msg st),
                    st_initialGas := msg_gasLimit (st_msg st)\<rparr>))))"

definition st_to :: "StateTransition \<Rightarrow> address" where
  "st_to st = (case msg_to (st_msg st) of None \<Rightarrow> 0 | Some a \<Rightarrow> a)"

definition useGas :: "u64 \<Rightarrow> StateTransition \<Rightarrow> core_error option \<times> StateTransition" where
  "useGas amount st = (if st_gas st < amount then (Some (VmError ErrOutOfGas), st)
     else (None, st\<lparr>st_gas := st_gas st - amount\<rparr>))"

definition preCheck :: "sdb_env \<Rightarrow> StateTransition \<Rightarrow> core_error option \<times> StateTransition" where
  "preCheck E st =
     (if msg_checkNonce (st_msg st) then
        (let (nonce, s1) = GetNonce (msg_from (st_msg st)) (st_state st); st1 = set_state s1 st in
         if nonce < msg_nonce (st_msg st) then (Some ErrNonceTooHigh, st1)
         else if nonce > msg_nonce (st_msg st) then (Some ErrNonceTooLow, st1)
         else buyGas E st1)
      else buyGas E st)"

definition gasUsed :: "StateTransition \<Rightarrow> u64" where
  "gasUsed st = st_initialGas st - st_gas st"

definition refundGas :: "sdb_env \<Rightarrow> StateTransition \<Rightarrow> StateTransition option" where
  "refundGas E st =
     (let half = gasUsed st div 2;
          refund = (if half > GetRefund (st_state st) then GetRefund (st_state st) else half);
          st1 = st\<lparr>st_gas := st_gas st + refund\<rparr>;
          remaining = uint (st_gas st1) * st_gasPrice st1;
          st2 = set_state (AddBalance E (msg_from (st_msg st)) remaining (st_state st1)) st1 in
      map_option (\<lambda>gp. st2\<lparr>st_gp := gp\<rparr>) (AddGas (st_gp st2) (st_gas st2)))"

text \<open>
  The call or the creation a message asks for. The first argument bounds the steps of the
  machine.
\<close>

definition run_message ::
  "nat \<Rightarrow> vm_env \<Rightarrow> StateTransition \<Rightarrow> ((byte list \<times> core_error option) \<times> StateTransition) option option" where
  "run_message n env st =
     (let sender = AccountRef (msg_from (st_msg st)) in
      if msg_to (st_msg st) = None then
        and_then (Create (interp n env) env sender (st_data st) (st_gas st) (st_value st) (st_evm st))
          (\<lambda>((ret, _, gas, vmerr), v).
             Some (Some ((ret, map_option VmError vmerr), st\<lparr>st_gas := gas, st_evm := v\<rparr>)))
      else
        (let (nonce, s1) = GetNonce (msg_from (st_msg st)) (st_state st);
             s2 = SetNonce (sdbE env) (msg_from (st_msg st)) (nonce + 1) s1 in
         and_then (Call (interp n env) env sender (st_to st) (st_data st) (st_gas st) (st_value st)
             ((st_evm st)\<lparr>sdb := s2\<rparr>))
           (\<lambda>((ret, gas, vmerr), v).
              Some (Some ((ret, map_option VmError vmerr), st\<lparr>st_gas := gas, st_evm := v\<rparr>)))))"

type_synonym transition_result = "(byte list \<times> u64 \<times> bool \<times> core_error option) \<times> StateTransition"

definition failed_transition :: "core_error \<Rightarrow> StateTransition \<Rightarrow> transition_result option option" where
  "failed_transition err st = Some (Some (([], 0, False, Some err), st))"

definition TransitionDb :: "nat \<Rightarrow> vm_env \<Rightarrow> StateTransition \<Rightarrow> transition_result option option" where
  "TransitionDb n env st = (case preCheck (sdbE env) st of
     (Some err, st1) \<Rightarrow> failed_transition err st1
   | (None, st1) \<Rightarrow> (case IntrinsicGas (st_data st1) (msg_to (st_msg st1) = None) True of
       (gas, Some err) \<Rightarrow> failed_transition err st1
     | (gas, None) \<Rightarrow> (case useGas gas st1 of
         (Some err, st2) \<Rightarrow> failed_transition err st2
       | (None, st2) \<Rightarrow>
           and_then (run_message n env st2) (\<lambda>((ret, vmerr), st3).
             if vmerr = Some core_ErrInsufficientBalance
             then failed_transition core_ErrInsufficientBalance st3
             else Some (map_option (\<lambda>st4. ((ret, gasUsed st4, vmerr \<noteq> None, None), st4))
               (refundGas (sdbE env) st3))))))"

definition ApplyMessage :: "nat \<Rightarrow> vm_env \<Rightarrow> vm \<Rightarrow> Msg \<Rightarrow> u64 \<Rightarrow> transition_result option option" where
  "ApplyMessage n env evm msg gp = TransitionDb n env (NewStateTransition evm msg gp)"

section \<open>Arithmetic on gas\<close>

lemma u64_less: "unat x < 2 ^ 64" for x :: u64
  using unsigned_less [of x] by simp

lemma unat_MaxUint64 [simp]: "unat MaxUint64 = 2 ^ 64 - 1"
  by (simp add: MaxUint64_def)

lemma unat_from_max: "unat (MaxUint64 - x) = 2 ^ 64 - 1 - unat x"
proof -
  have "x \<le> MaxUint64" using u64_less [of x] by (simp add: word_le_nat_alt)
  then show ?thesis by (simp add: unat_sub)
qed

lemma room_for:
  "0 < k \<Longrightarrow> (MaxUint64 - x) div k < n \<longleftrightarrow> 2 ^ 64 \<le> unat x + unat n * unat k" for x k n :: u64
proof -
  assume "0 < k"
  then have k: "0 < unat k" by (simp add: word_less_nat_alt)
  have "(MaxUint64 - x) div k < n \<longleftrightarrow> (2 ^ 64 - 1 - unat x) div unat k < unat n"
    by (simp add: word_less_nat_alt unat_div unat_from_max)
  also have "\<dots> \<longleftrightarrow> 2 ^ 64 - 1 - unat x < unat n * unat k"
    using k by (simp add: div_less_iff_less_mult)
  also have "\<dots> \<longleftrightarrow> 2 ^ 64 \<le> unat x + unat n * unat k"
    using u64_less [of x] by auto
  finally show ?thesis .
qed

lemma AddGas_eq: "AddGas gp x = (if unat gp + unat x < 2 ^ 64 then Some (gp + x) else None)"
  using u64_less [of x] by (auto simp: AddGas_def word_less_nat_alt unat_from_max)

text \<open>
  C21. \<^verbatim>\<open>IntrinsicGas\<close> is exact: the base price plus 68 for each byte that is not zero and 4
  for each that is, and out of gas precisely when that sum does not fit into 64 bits.
\<close>

theorem IntrinsicGas_exact:
  assumes "length bs < 2 ^ 64"
  shows "IntrinsicGas bs create homestead =
    (let m = (if create \<and> homestead then 53000 else 21000) + 68 * length (filter (\<lambda>b. b \<noteq> 0) bs) +
         4 * length (filter (\<lambda>b. b = 0) bs) in
     if m < 2 ^ 64 then (of_nat m, None) else (0, Some (VmError ErrOutOfGas)))"
proof -
  define base :: u64 where "base = (if create \<and> homestead then 53000 else 21000)"
  define nz where "nz = length (filter (\<lambda>b. b \<noteq> 0) bs)"
  define z where "z = length (filter (\<lambda>b. b = 0) bs)"
  have len: "length bs = nz + z"
    using sum_length_filter_compl [of "\<lambda>b. b \<noteq> 0" bs] by (simp add: nz_def z_def)
  have base: "unat base = (if create \<and> homestead then 53000 else 21000)" by (simp add: base_def)
  have u: "unat (of_nat nz :: u64) = nz" "unat (of_nat z :: u64) = z"
    using assms len by (simp_all add: unat_of_nat)
  have zw: "of_nat (length bs) - of_nat nz = (of_nat z :: u64)" by (simp add: len)
  have one: "unat (base + of_nat nz * 68) = unat base + nz * 68" if "unat base + nz * 68 < 2 ^ 64"
    using that u by (simp add: unat_word_ariths)
  have gas: "(if create \<and> homestead then TxGasContractCreation else TxGas) = base"
    by (simp add: base_def TxGas_def TxGasContractCreation_def)
  have w: "of_nat (unat base + 68 * nz + 4 * z) = base + of_nat nz * 68 + (of_nat z :: u64) * 4" by simp
  have "IntrinsicGas bs create homestead =
    (if unat base + 68 * nz + 4 * z < 2 ^ 64 then (of_nat (unat base + 68 * nz + 4 * z), None)
     else (0, Some (VmError ErrOutOfGas)))"
  proof (cases "bs = []")
    case True
    then show ?thesis using u64_less [of base]
      by (simp add: IntrinsicGas_def gas nz_def z_def)
  next
    case False
    have r1: "(MaxUint64 - base) div 68 < of_nat nz \<longleftrightarrow> 2 ^ 64 \<le> unat base + nz * 68"
      using room_for [of 68 base "of_nat nz"] u by simp
    show ?thesis
    proof (cases "2 ^ 64 \<le> unat base + nz * 68")
      case True
      with r1 False show ?thesis
        by (simp add: IntrinsicGas_def gas TxDataNonZeroGas_def flip: nz_def)
    next
      case small: False
      have "(MaxUint64 - (base + of_nat nz * 68)) div 4 < of_nat z \<longleftrightarrow> 2 ^ 64 \<le> unat base + nz * 68 + z * 4"
        using room_for [of 4 "base + of_nat nz * 68" "of_nat z"] u one small by simp
      with r1 small False show ?thesis unfolding w
        by (simp add: IntrinsicGas_def gas TxDataNonZeroGas_def TxDataZeroGas_def zw Let_def flip: nz_def)
    qed
  qed
  then show ?thesis unfolding base nz_def z_def Let_def .
qed

theorem IntrinsicGas_exact_witness:
  "IntrinsicGas [1, 0, 5] False True = (21140, None)"
  using IntrinsicGas_exact [of "[1, 0, 5]" False True] by simp

section \<open>The parts of a transition\<close>

definition nonce :: "address \<Rightarrow> stateDB \<Rightarrow> u64" where
  "nonce a s = fst (GetNonce a s)"

lemma GetBalance_eq: "GetBalance a s = (balance a s, snd (getStateObject a s))"
  unfolding balance_def by (simp add: prod_eq_iff) (simp add: GetBalance_def split: option.splits prod.splits)

lemma GetNonce_eq: "GetNonce a s = (nonce a s, snd (getStateObject a s))"
  unfolding nonce_def by (simp add: prod_eq_iff) (simp add: GetNonce_def split: option.splits prod.splits)

lemma set_state_simps [simp]:
  "st_evm (set_state s st) = (st_evm st)\<lparr>sdb := s\<rparr>" "st_msg (set_state s st) = st_msg st"
  "st_gp (set_state s st) = st_gp st" "st_gas (set_state s st) = st_gas st"
  "st_gasPrice (set_state s st) = st_gasPrice st" "st_initialGas (set_state s st) = st_initialGas st"
  "st_value (set_state s st) = st_value st" "st_data (set_state s st) = st_data st"
  by (simp_all add: set_state_def)

lemma runs_ops:
  "runs E s (AddBalance E a v s)" "runs E s (SubBalance E a v s)" "runs E s (SetNonce E a m s)"
  "runs E s (snd (getStateObject a s))"
  using runs_op [of E "AddBalanceOp a v"] runs_op [of E "SubBalanceOp a v"] runs_op [of E "SetNonceOp a m"]
    runs_op [of E "ReadOp a"] by auto

text \<open>The price of all gas of a message.\<close>

definition gas_cost :: "Msg \<Rightarrow> int" where
  "gas_cost msg = uint (msg_gasLimit msg) * msg_gasPrice msg"

lemma buyGas_eq:
  "buyGas E st =
     (let x = msg_from (st_msg st); lim = msg_gasLimit (st_msg st); s1 = snd (getStateObject x (st_state st)) in
      if balance x (st_state st) < uint lim * st_gasPrice st then (Some errInsufficientBalanceForGas, set_state s1 st)
      else if st_gp st < lim then (Some ErrGasLimitReached, set_state s1 st)
      else (None, (set_state (SubBalance E x (uint lim * st_gasPrice st) s1) st)
              \<lparr>st_gp := st_gp st - lim, st_gas := st_gas st + lim, st_initialGas := lim\<rparr>))"
  by (simp add: buyGas_def GetBalance_eq SubGas_def set_state_def Let_def)

text \<open>
  What the checks before the run establish: the checks in their order, and then the
  message has all its gas, the pool has given it and the sender has paid for it.
\<close>

lemma preCheck_fresh:
  assumes "preCheck E (NewStateTransition evm msg gp) = (err, st)"
  defines "x \<equiv> msg_from msg"
  shows "err = (if msg_checkNonce msg \<and> nonce x (sdb evm) < msg_nonce msg then Some ErrNonceTooHigh
      else if msg_checkNonce msg \<and> nonce x (sdb evm) > msg_nonce msg then Some ErrNonceTooLow
      else if balance x (sdb evm) < gas_cost msg then Some errInsufficientBalanceForGas
      else if gp < msg_gasLimit msg then Some ErrGasLimitReached else None)"
    and "\<exists>s. (sdb_inv (sdb evm) \<longrightarrow> runs E (sdb evm) s) \<and> observe E s = observe E (sdb evm) \<and>
      st = (if err = None
        then \<lparr>st_gp = gp - msg_gasLimit msg, st_msg = msg, st_gas = msg_gasLimit msg,
          st_gasPrice = msg_gasPrice msg, st_initialGas = msg_gasLimit msg, st_value = msg_amount msg,
          st_data = msg_data msg, st_evm = evm\<lparr>sdb := SubBalance E x (gas_cost msg) s\<rparr>\<rparr>
        else (NewStateTransition evm msg gp)\<lparr>st_evm := evm\<lparr>sdb := s\<rparr>\<rparr>)"
proof -
  let ?s1 = "snd (getStateObject x (sdb evm))"
  let ?s2 = "snd (getStateObject x ?s1)"
  have r: "runs E (sdb evm) ?s1" "sdb_inv (sdb evm) \<longrightarrow> runs E (sdb evm) ?s2"
    using runs_trans [OF runs_ops(4) _ runs_ops(4)] runs_ops(4) by auto
  have o: "observe E ?s1 = observe E (sdb evm)" "observe E ?s2 = observe E (sdb evm)"
    by (simp_all add: get_observe)
  show "err = (if msg_checkNonce msg \<and> nonce x (sdb evm) < msg_nonce msg then Some ErrNonceTooHigh
      else if msg_checkNonce msg \<and> nonce x (sdb evm) > msg_nonce msg then Some ErrNonceTooLow
      else if balance x (sdb evm) < gas_cost msg then Some errInsufficientBalanceForGas
      else if gp < msg_gasLimit msg then Some ErrGasLimitReached else None)"
    using assms by (auto simp: preCheck_def NewStateTransition_def GetNonce_eq buyGas_eq gas_cost_def Let_def
        split: if_splits)
  show "\<exists>s. (sdb_inv (sdb evm) \<longrightarrow> runs E (sdb evm) s) \<and> observe E s = observe E (sdb evm) \<and>
      st = (if err = None
        then \<lparr>st_gp = gp - msg_gasLimit msg, st_msg = msg, st_gas = msg_gasLimit msg,
          st_gasPrice = msg_gasPrice msg, st_initialGas = msg_gasLimit msg, st_value = msg_amount msg,
          st_data = msg_data msg, st_evm = evm\<lparr>sdb := SubBalance E x (gas_cost msg) s\<rparr>\<rparr>
        else (NewStateTransition evm msg gp)\<lparr>st_evm := evm\<lparr>sdb := s\<rparr>\<rparr>)"
    using assms r o
    by (auto simp: preCheck_def NewStateTransition_def GetNonce_eq buyGas_eq gas_cost_def Let_def set_state_def
        split: if_splits)
qed

text \<open>The machine a call starts in: the nonce of the sender is one higher.\<close>

definition bumped :: "vm_env \<Rightarrow> StateTransition \<Rightarrow> vm" where
  "bumped env st = (let x = msg_from (st_msg st); s = st_state st in
     (st_evm st)\<lparr>sdb := SetNonce (sdbE env) x (nonce x s + 1) (snd (getStateObject x s))\<rparr>)"

lemma run_message_Call:
  "msg_to (st_msg st) = Some a \<Longrightarrow> run_message n env st =
     and_then (Call (interp n env) env (AccountRef (msg_from (st_msg st))) a (st_data st) (st_gas st) (st_value st)
         (bumped env st))
       (\<lambda>((ret, gas, vmerr), v). Some (Some ((ret, map_option VmError vmerr), st\<lparr>st_gas := gas, st_evm := v\<rparr>)))"
  by (simp add: run_message_def bumped_def GetNonce_eq st_to_def Let_def)

lemma run_message_Create:
  "msg_to (st_msg st) = None \<Longrightarrow> run_message n env st =
     and_then (Create (interp n env) env (AccountRef (msg_from (st_msg st))) (st_data st) (st_gas st) (st_value st)
         (st_evm st))
       (\<lambda>((ret, _, gas, vmerr), v). Some (Some ((ret, map_option VmError vmerr), st\<lparr>st_gas := gas, st_evm := v\<rparr>)))"
  by (simp add: run_message_def Let_def)

lemma run_message_ends:
  assumes "unat (st_gas st) < n"
  shows "ends (\<lambda>(r, st1). unat (st_gas st1) \<le> unat (st_gas st)) (run_message n env st)"
proof (cases "msg_to (st_msg st)")
  case None
  show ?thesis unfolding run_message_Create [OF None]
    by (rule ends_and_then [OF Create_bounded [OF interp_bounded assms]]) auto
next
  case (Some a)
  show ?thesis unfolding run_message_Call [OF Some]
    by (rule ends_and_then [OF Call_bounded [OF interp_bounded assms]]) auto
qed

lemma run_message_fields:
  assumes "run_message n env st = Some (Some ((ret, err), st1))"
  shows "st1 = st\<lparr>st_gas := st_gas st1, st_evm := st_evm st1\<rparr>" "err \<noteq> Some core_ErrInsufficientBalance"
  using assms by (auto simp: run_message_def and_then_def Let_def split: option.splits prod.splits if_splits)

lemma run_message_steps:
  assumes "run_message n env st = Some (Some ((ret, err), st1))" "\<not> readOnly (st_evm st)"
    and f: "funded h env (st_evm st)" "h \<longrightarrow> 0 \<le> st_value st"
  shows "steps h env (st_evm st) (st_evm st1)"
proof (cases "msg_to (st_msg st)")
  case None
  with assms(1) show ?thesis using Create_steps [OF interp_steps assms(2) _ f]
    by (auto simp: run_message_Create and_then_def split: option.splits)
next
  case (Some a)
  have s: "steps h env (st_evm st) (bumped env st)"
    using steps_trans [OF steps_get steps_SetNonce] assms(2) by (simp add: bumped_def Let_def)
  obtain g e where c: "Call (interp n env) env (AccountRef (msg_from (st_msg st))) a (st_data st) (st_gas st)
      (st_value st) (bumped env st) = Some (Some ((ret, g, e), st_evm st1))"
    using assms(1) Some by (auto simp: run_message_Call and_then_def split: option.splits)
  show ?thesis
    by (rule steps_trans [OF s Call_steps(1) [OF interp_steps _ c steps_funded [OF s f(1)] f(2)]])
       (use assms(2) in \<open>simp add: bumped_def Let_def\<close>)
qed

section \<open>A transition as a whole\<close>

definition check_error :: "Msg \<Rightarrow> u64 \<Rightarrow> stateDB \<Rightarrow> core_error option" where
  "check_error msg gp s = (let x = msg_from msg in
     if msg_checkNonce msg \<and> nonce x s < msg_nonce msg then Some ErrNonceTooHigh
     else if msg_checkNonce msg \<and> nonce x s > msg_nonce msg then Some ErrNonceTooLow
     else if balance x s < gas_cost msg then Some errInsufficientBalanceForGas
     else if gp < msg_gasLimit msg then Some ErrGasLimitReached else None)"

text \<open>After the gas is bought and \<open>g\<close> of it used.\<close>

definition bought :: "sdb_env \<Rightarrow> vm \<Rightarrow> Msg \<Rightarrow> u64 \<Rightarrow> u64 \<Rightarrow> stateDB \<Rightarrow> StateTransition" where
  "bought E evm msg gp g s =
     \<lparr>st_gp = gp - msg_gasLimit msg, st_msg = msg, st_gas = msg_gasLimit msg - g,
      st_gasPrice = msg_gasPrice msg, st_initialGas = msg_gasLimit msg, st_value = msg_amount msg,
      st_data = msg_data msg, st_evm = evm\<lparr>sdb := SubBalance E (msg_from msg) (gas_cost msg) s\<rparr>\<rparr>"

lemma NewStateTransition_gp [simp]: "st_gp (NewStateTransition evm msg gp) = gp"
  by (simp add: NewStateTransition_def)

lemma bought_simps [simp]:
  "st_gp (bought E evm msg gp g s) = gp - msg_gasLimit msg" "st_msg (bought E evm msg gp g s) = msg"
  "st_gas (bought E evm msg gp g s) = msg_gasLimit msg - g"
  "st_gasPrice (bought E evm msg gp g s) = msg_gasPrice msg"
  "st_initialGas (bought E evm msg gp g s) = msg_gasLimit msg"
  "st_value (bought E evm msg gp g s) = msg_amount msg" "st_data (bought E evm msg gp g s) = msg_data msg"
  "st_evm (bought E evm msg gp g s) = evm\<lparr>sdb := SubBalance E (msg_from msg) (gas_cost msg) s\<rparr>"
  by (simp_all add: bought_def)

definition read_only :: "sdb_env \<Rightarrow> stateDB \<Rightarrow> stateDB \<Rightarrow> bool" where
  "read_only E s t \<longleftrightarrow> (sdb_inv s \<longrightarrow> runs E s t) \<and> observe E t = observe E s"

definition outcome :: "nat \<Rightarrow> vm_env \<Rightarrow> vm \<Rightarrow> Msg \<Rightarrow> u64 \<Rightarrow> stateDB \<Rightarrow> transition_result option option" where
  "outcome n env evm msg gp s =
    (let E = sdbE env; (g, e) = IntrinsicGas (msg_data msg) (msg_to msg = None) True in
     case check_error msg gp (sdb evm) of
       Some e \<Rightarrow> failed_transition e ((NewStateTransition evm msg gp)\<lparr>st_evm := evm\<lparr>sdb := s\<rparr>\<rparr>)
     | None \<Rightarrow> (case e of
         Some e \<Rightarrow> failed_transition e (bought E evm msg gp 0 s)
       | None \<Rightarrow> if msg_gasLimit msg < g then failed_transition (VmError ErrOutOfGas) (bought E evm msg gp 0 s)
           else and_then (run_message n env (bought E evm msg gp g s)) (\<lambda>((ret, vmerr), st3).
             if vmerr = Some core_ErrInsufficientBalance then failed_transition core_ErrInsufficientBalance st3
             else Some (map_option (\<lambda>st4. ((ret, gasUsed st4, vmerr \<noteq> None, None), st4)) (refundGas E st3)))))"

lemma TransitionDb_eq:
  "\<exists>s. read_only (sdbE env) (sdb evm) s \<and> TransitionDb n env (NewStateTransition evm msg gp) = outcome n env evm msg gp s"
proof -
  obtain err st where p: "preCheck (sdbE env) (NewStateTransition evm msg gp) = (err, st)" by fastforce
  have err: "err = check_error msg gp (sdb evm)"
    unfolding check_error_def Let_def by (rule preCheck_fresh(1) [OF p])
  from preCheck_fresh(2) [OF p] obtain s where s: "read_only (sdbE env) (sdb evm) s"
    "st = (if err = None then bought (sdbE env) evm msg gp 0 s else (NewStateTransition evm msg gp)\<lparr>st_evm := evm\<lparr>sdb := s\<rparr>\<rparr>)"
    unfolding read_only_def bought_def diff_zero by blast
  have use: "useGas g (bought (sdbE env) evm msg gp 0 s) = (if msg_gasLimit msg < g then
      (Some (VmError ErrOutOfGas), bought (sdbE env) evm msg gp 0 s)
      else (None, bought (sdbE env) evm msg gp g s))" for g
    by (simp add: useGas_def bought_def)
  show ?thesis
    by (rule exI [of _ s])
       (simp add: s(1) TransitionDb_def p s(2) use outcome_def Let_def flip: err, simp split: option.split prod.split)
qed

lemma refundGas_eq:
  assumes "unat (st_gas st) \<le> unat (st_initialGas st)" "unat (st_gp st) + unat (st_initialGas st) < 2 ^ 64"
  obtains g where "unat g = unat (st_gas st) +
      min ((unat (st_initialGas st) - unat (st_gas st)) div 2) (unat (refund (st_state st)))"
    "refundGas E st = Some ((set_state (AddBalance E (msg_from (st_msg st)) (uint g * st_gasPrice st) (st_state st)) st)
        \<lparr>st_gas := g, st_gp := st_gp st + g\<rparr>)"
proof -
  define half where "half = gasUsed st div 2"
  define r where "r = (if half > refund (st_state st) then refund (st_state st) else half)"
  have h: "unat half = (unat (st_initialGas st) - unat (st_gas st)) div 2"
    using assms(1) by (simp add: half_def gasUsed_def unat_div unat_sub word_le_nat_alt)
  have r: "unat r = min ((unat (st_initialGas st) - unat (st_gas st)) div 2) (unat (refund (st_state st)))"
    by (auto simp: r_def word_less_nat_alt h [symmetric])
  have "unat (st_gas st) + unat r \<le> unat (st_initialGas st)" using assms(1) unfolding r by linarith
  moreover from this have g: "unat (st_gas st + r) = unat (st_gas st) + unat r"
    using u64_less [of "st_initialGas st"] by (simp add: unat_word_ariths)
  ultimately have "AddGas (st_gp st) (st_gas st + r) = Some (st_gp st + (st_gas st + r))"
    using assms(2) by (simp add: AddGas_eq)
  then have "refundGas E st = Some ((set_state (AddBalance E (msg_from (st_msg st)) (uint (st_gas st + r) *
      st_gasPrice st) (st_state st)) st)\<lparr>st_gas := st_gas st + r, st_gp := st_gp st + (st_gas st + r)\<rparr>)"
    unfolding refundGas_def GetRefund_def Let_def half_def [symmetric] r_def [symmetric] by (simp add: set_state_def)
  with g r show ?thesis by (intro that [of "st_gas st + r"]) simp_all
qed

text \<open>The gas of a transition that is accepted, and the coins.\<close>

lemma accepted_transition:
  assumes "TransitionDb n env (NewStateTransition evm msg gp) = Some (Some ((ret, used, failed, None), st))"
  obtains s g st3 vmerr where "read_only (sdbE env) (sdb evm) s" "check_error msg gp (sdb evm) = None"
    "IntrinsicGas (msg_data msg) (msg_to msg = None) True = (g, None)" "g \<le> msg_gasLimit msg"
    "run_message n env (bought (sdbE env) evm msg gp g s) = Some (Some ((ret, vmerr), st3))"
    "failed = (vmerr \<noteq> None)" "refundGas (sdbE env) st3 = Some st" "used = gasUsed st"
proof -
  obtain g e where ig: "IntrinsicGas (msg_data msg) (msg_to msg = None) True = (g, e)" by fastforce
  from TransitionDb_eq [of env evm n msg gp] show ?thesis
    by (rule exE) (use assms ig that in \<open>auto simp: outcome_def Let_def failed_transition_def and_then_def
        not_less map_option_case split: option.splits if_splits prod.splits\<close>)
qed

lemma check_error_None:
  assumes "check_error msg gp s = None"
  shows "gas_cost msg \<le> balance (msg_from msg) s" "msg_gasLimit msg \<le> gp"
  using assms by (auto simp: check_error_def Let_def split: if_splits)

lemma accepted_gas:
  assumes "run_message n env (bought E evm msg gp g s) = Some (Some ((ret, vmerr), st3))"
    and "g \<le> msg_gasLimit msg" "msg_gasLimit msg \<le> gp" "unat (msg_gasLimit msg) < n"
  shows "\<exists>gl. unat gl \<le> unat (msg_gasLimit msg) \<and> unat g \<le> 2 * (unat (msg_gasLimit msg) - unat gl) \<and>
    refundGas E st3 = Some ((set_state (AddBalance E (msg_from msg) (uint gl * msg_gasPrice msg) (st_state st3)) st3)
      \<lparr>st_gas := gl, st_gp := gp - msg_gasLimit msg + gl\<rparr>)"
proof -
  let ?lim = "msg_gasLimit msg"
  have f: "st_initialGas st3 = ?lim" "st_gp st3 = gp - ?lim" "st_msg st3 = msg" "st_gasPrice st3 = msg_gasPrice msg"
    by (subst run_message_fields(1) [OF assms(1)], simp)+
  have "unat (st_gas (bought E evm msg gp g s)) \<le> unat ?lim"
    using assms(2) by (simp add: unat_sub word_le_nat_alt)
  with run_message_ends [of "bought E evm msg gp g s" n env] assms(1,4)
  have le: "unat (st_gas st3) \<le> unat ?lim - unat g"
    using assms(2) by (simp add: unat_sub word_le_nat_alt)
  have pool: "unat (gp - ?lim) + unat ?lim < 2 ^ 64"
    using assms(3) u64_less [of gp] by (simp add: unat_sub word_le_nat_alt)
  obtain gl where gl: "unat gl = unat (st_gas st3) + min ((unat ?lim - unat (st_gas st3)) div 2) (unat (refund (st_state st3)))"
    "refundGas E st3 = Some ((set_state (AddBalance E (msg_from msg) (uint gl * msg_gasPrice msg) (st_state st3)) st3)
        \<lparr>st_gas := gl, st_gp := gp - ?lim + gl\<rparr>)"
    using le pool by (rule_tac refundGas_eq [of st3 E, unfolded f]) auto
  have "unat gl \<le> unat ?lim" "unat g \<le> 2 * (unat ?lim - unat gl)"
    using le assms(2) unfolding gl(1) word_le_nat_alt by (auto simp: min_def)
  then show ?thesis using gl(2) by blast
qed

lemma gas_returned:
  fixes lim gl gp :: u64
  assumes "unat gl \<le> unat lim" "lim \<le> gp"
  shows "unat (lim - gl) = unat lim - unat gl" "unat (gp - lim + gl) + unat (lim - gl) = unat gp"
proof -
  show l: "unat (lim - gl) = unat lim - unat gl" using assms by (simp add: unat_sub word_le_nat_alt)
  have "unat (gp - lim + gl) = unat gp - unat lim + unat gl"
    using assms u64_less [of gp] by (simp add: unat_word_ariths unat_sub word_le_nat_alt)
  then show "unat (gp - lim + gl) + unat (lim - gl) = unat gp"
    using assms l by (simp add: word_le_nat_alt)
qed

text \<open>
  C20. Every state transition ends within the gas limit of its message, and its gas is
  accounted for. An accepted message uses at most its limit and at least half its intrinsic
  gas, and the pool of the block holds exactly that much less; a message refused by the
  checks leaves the pool as it was, one refused for its intrinsic gas leaves the pool
  without the whole limit. Returning gas to the pool never overflows: only the run itself
  can panic.
\<close>

theorem transition_accounts_for_gas:
  assumes "unat (msg_gasLimit msg) < n"
  shows "case TransitionDb n env (NewStateTransition evm msg gp) of
    None \<Rightarrow> False
  | Some None \<Rightarrow> \<exists>g s. run_message n env (bought (sdbE env) evm msg gp g s) = Some None
  | Some (Some ((ret, used, failed, None), st)) \<Rightarrow>
      unat used \<le> unat (msg_gasLimit msg) \<and> unat (st_gp st) + unat used = unat gp \<and>
      unat (fst (IntrinsicGas (msg_data msg) (msg_to msg = None) True)) \<le> 2 * unat used
  | Some (Some ((ret, used, failed, Some e), st)) \<Rightarrow>
      used = 0 \<and> unat (st_gp st) = unat gp - (if e = VmError ErrOutOfGas then unat (msg_gasLimit msg) else 0)"
proof -
  let ?E = "sdbE env" and ?lim = "msg_gasLimit msg"
  obtain g e where ig: "IntrinsicGas (msg_data msg) (msg_to msg = None) True = (g, e)" by fastforce
  have e: "e = None \<or> e = Some (VmError ErrOutOfGas)"
    using ig by (auto simp: IntrinsicGas_def Let_def split: if_splits)
  obtain s where eq: "TransitionDb n env (NewStateTransition evm msg gp) = outcome n env evm msg gp s"
    using TransitionDb_eq by blast
  show ?thesis
  proof (cases "check_error msg gp (sdb evm) = None \<and> e = None \<and> g \<le> ?lim")
    case False
    have "check_error msg gp (sdb evm) = Some e' \<Longrightarrow> e' \<noteq> VmError ErrOutOfGas" for e'
      by (auto simp: check_error_def Let_def split: if_splits)
    moreover have "check_error msg gp (sdb evm) = None \<Longrightarrow> unat (gp - ?lim) = unat gp - unat ?lim"
      using check_error_None(2) by (simp add: unat_sub)
    ultimately show ?thesis
      using False e by (auto simp: eq outcome_def Let_def ig failed_transition_def not_less split: option.split)
  next
    case True
    note ok = check_error_None [OF conjunct1 [OF True]]
    let ?st = "bought ?E evm msg gp g s"
    have "unat (st_gas ?st) < n" using True assms by (simp add: unat_sub)
    then consider "run_message n env ?st = Some None" | ret vmerr st3 where "run_message n env ?st = Some (Some ((ret, vmerr), st3))"
      using run_message_ends [of ?st n env] by (cases "run_message n env ?st" rule: option.exhaust) (auto simp: ends_def split: option.splits)
    then show ?thesis
    proof cases
      case 1
      then show ?thesis using True by (auto simp: eq outcome_def Let_def ig)
    next
      case (2 ret vmerr st3)
      from accepted_gas [OF 2 _ ok(2) assms] True obtain gl where gl: "unat gl \<le> unat ?lim" "unat g \<le> 2 * (unat ?lim - unat gl)"
        "refundGas ?E st3 = Some ((set_state (AddBalance ?E (msg_from msg) (uint gl * msg_gasPrice msg) (st_state st3)) st3)
          \<lparr>st_gas := gl, st_gp := gp - ?lim + gl\<rparr>)" by blast
      have "st_initialGas st3 = ?lim" by (subst run_message_fields(1) [OF 2]) simp
      then show ?thesis using True 2 gl gas_returned [OF gl(1) ok(2)] run_message_fields(2) [OF 2]
        by (auto simp: eq outcome_def Let_def ig gasUsed_def)
    qed
  qed
qed

text \<open>Buying the gas takes its price from the sender, who can pay.\<close>

lemma bought_funded:
  assumes "read_only E (sdb evm) s" "check_error msg gp (sdb evm) = None" "sdb_inv (sdb evm)" "solvent (sdb evm)"
    and "E = sdbE env" "0 \<le> GasPrice env" "0 \<le> msg_gasPrice msg"
  shows "funded True env (st_evm (bought E evm msg gp g s))"
    "coins (st_state (bought E evm msg gp g s)) = coins (sdb evm) - gas_cost msg"
proof -
  have inv: "sdb_inv s" using assms(1,3) runs_inv by (auto simp: read_only_def)
  then have wf: "wf_objs s" by (simp add: sdb_inv_def wf_cache_def)
  have b: "balance a s = balance a (sdb evm)" for a
    by (rule balance_observe [of E]) (use assms(1) in \<open>simp add: read_only_def\<close>)
  note pay = balance_SubBalance [OF wf, of _ E "msg_from msg" "gas_cost msg"]
  have "0 \<le> gas_cost msg" using assms(7) by (simp add: gas_cost_def)
  then have "solvent (SubBalance E (msg_from msg) (gas_cost msg) s)"
    using assms(4) check_error_None(1) [OF assms(2)] by (auto simp: solvent_def pay b)
  with runs_inv [OF runs_ops(2) inv] assms(6) show "funded True env (st_evm (bought E evm msg gp g s))"
    by (simp add: funded_def)
  show "coins (st_state (bought E evm msg gp g s)) = coins (sdb evm) - gas_cost msg"
    using coins_add [of "SubBalance E (msg_from msg) (gas_cost msg) s" s "msg_from msg" "- gas_cost msg"]
      coins_cong [of s "sdb evm"] by (simp add: pay b)
qed

lemma accepted_coins:
  assumes "TransitionDb n env (NewStateTransition evm msg gp) = Some (Some ((ret, used, failed, None), st))"
    and "unat (msg_gasLimit msg) < n" "sdb_inv (sdb evm)" "solvent (sdb evm)" "\<not> readOnly evm"
    and "0 \<le> GasPrice env" "0 \<le> msg_gasPrice msg" "0 \<le> msg_amount msg"
  shows "coins (st_state st) + uint used * msg_gasPrice msg \<le> coins (sdb evm)"
    "solvent (st_state st)" "sdb_inv (st_state st)" "unat used \<le> unat (msg_gasLimit msg)"
    "unat (st_gp st) + unat used = unat gp" "runs (sdbE env) (sdb evm) (st_state st)"
proof -
  let ?E = "sdbE env" and ?lim = "msg_gasLimit msg"
  obtain s g st3 vmerr where a: "read_only ?E (sdb evm) s" "check_error msg gp (sdb evm) = None"
    "IntrinsicGas (msg_data msg) (msg_to msg = None) True = (g, None)" "g \<le> ?lim"
    "run_message n env (bought ?E evm msg gp g s) = Some (Some ((ret, vmerr), st3))"
    "refundGas ?E st3 = Some st" "used = gasUsed st" by (rule accepted_transition [OF assms(1)])
  note lim = check_error_None(2) [OF a(2)]
  note f = bought_funded [OF a(1,2) assms(3,4) refl assms(6,7), of g]
  have st: "steps True env (st_evm (bought ?E evm msg gp g s)) (st_evm st3)"
    by (rule run_message_steps [OF a(5) _ f(1)]) (use assms(5,8) in simp_all)
  from steps_funded [OF st f(1)] have s3: "solvent (st_state st3)" "sdb_inv (st_state st3)" by (simp_all add: funded_def)
  from st f have c3: "coins (st_state st3) \<le> coins (sdb evm) - gas_cost msg"
    by (simp add: steps_def thrift_def funded_def)
  from accepted_gas [OF a(5,4) lim assms(2)] a(6) obtain gl where gl: "unat gl \<le> unat ?lim"
    "st = (set_state (AddBalance ?E (msg_from msg) (uint gl * msg_gasPrice msg) (st_state st3)) st3)
      \<lparr>st_gas := gl, st_gp := gp - ?lim + gl\<rparr>" by auto
  have i: "st_initialGas st3 = ?lim" by (subst run_message_fields(1) [OF a(5)]) simp
  have used: "used = ?lim - gl" by (simp add: a(7) gl(2) gasUsed_def i)
  note b = balance_AddBalance [of "st_state st3" _ ?E "msg_from msg" "uint gl * msg_gasPrice msg"]
  have wf: "wf_objs (st_state st3)" using s3(2) by (simp add: sdb_inv_def wf_cache_def)
  have "uint used = uint ?lim - uint gl"
    using gas_returned(1) [OF gl(1) lim] gl(1) unfolding used uint_nat by simp
  moreover have "coins (st_state st) = coins (st_state st3) + uint gl * msg_gasPrice msg"
    unfolding gl(2) by (rule coins_add) (simp add: b [OF wf])
  ultimately show "coins (st_state st) + uint used * msg_gasPrice msg \<le> coins (sdb evm)"
    using c3 by (simp add: gas_cost_def left_diff_distrib)
  show "solvent (st_state st)" using s3(1) assms(7) by (auto simp: solvent_def gl(2) b [OF wf])
  show "sdb_inv (st_state st)" unfolding gl(2) using runs_inv [OF runs_ops(1) s3(2)] by simp
  show "unat used \<le> unat ?lim" "unat (st_gp st) + unat used = unat gp"
    using gas_returned [OF gl(1) lim] by (simp_all add: used gl(2))
  have r: "runs ?E (sdb evm) s" "sdb_inv s" using a(1) assms(3) runs_inv by (auto simp: read_only_def)
  have "runs ?E (sdb evm) (st_state st3)"
    using runs_trans [OF runs_trans [OF r(1) assms(3) runs_ops(2)] assms(3)] st f(1) by (auto simp: steps_def funded_def)
  from runs_trans [OF this assms(3) runs_ops(1)] show "runs ?E (sdb evm) (st_state st)" by (simp add: gl(2))
qed

text \<open>
  C19. A transaction creates no coins, and pays for its gas. From a consistent database
  without overdrawn accounts, an accepted message leaves the database consistent and no
  account overdrawn, and the sum of all balances has fallen by at least the gas used times
  the gas price, whatever code ran.
\<close>

theorem transition_pays_for_gas:
  assumes "TransitionDb n env (NewStateTransition evm msg gp) = Some (Some ((ret, used, failed, None), st))"
    and "unat (msg_gasLimit msg) < n" "sdb_inv (sdb evm)" "solvent (sdb evm)" "\<not> readOnly evm"
    and "0 \<le> GasPrice env" "0 \<le> msg_gasPrice msg" "0 \<le> msg_amount msg"
  shows "coins (st_state st) + uint used * msg_gasPrice msg \<le> coins (sdb evm) \<and>
    solvent (st_state st) \<and> sdb_inv (st_state st)"
  by (intro conjI accepted_coins [OF assms])

text \<open>
  C22. What a refused message leaves behind. The nonce, the sender's balance and the pool are
  checked in this order, and a message refused by one of these checks changes nothing that
  can be observed. The only other reason is too little gas for the intrinsic cost; then the
  gas is already bought: the sender has lost its price and the pool the gas.
\<close>

theorem refused_transition:
  assumes "TransitionDb n env (NewStateTransition evm msg gp) = Some (Some ((ret, used, failed, Some e), st))"
    and "sdb_inv (sdb evm)"
  shows "(case check_error msg gp (sdb evm) of
      Some e1 \<Rightarrow> e = e1 \<and> observe (sdbE env) (st_state st) = observe (sdbE env) (sdb evm) \<and> st_gp st = gp
    | None \<Rightarrow> e = VmError ErrOutOfGas \<and> st_gp st = gp - msg_gasLimit msg \<and>
        (\<forall>a. balance a (st_state st) = balance a (sdb evm) - (if a = msg_from msg then gas_cost msg else 0)))"
proof -
  let ?E = "sdbE env"
  obtain g ie where ig: "IntrinsicGas (msg_data msg) (msg_to msg = None) True = (g, ie)" by fastforce
  have ie: "ie = None \<or> ie = Some (VmError ErrOutOfGas)"
    using ig by (auto simp: IntrinsicGas_def Let_def split: if_splits)
  obtain s where s: "read_only ?E (sdb evm) s"
    and eq: "TransitionDb n env (NewStateTransition evm msg gp) = outcome n env evm msg gp s"
    using TransitionDb_eq by blast
  show ?thesis
  proof (cases "check_error msg gp (sdb evm)")
    case (Some e1)
    with assms(1) s show ?thesis by (auto simp: eq outcome_def Let_def ig failed_transition_def read_only_def)
  next
    case None
    have "e = VmError ErrOutOfGas \<and> st = bought ?E evm msg gp 0 s"
      using assms(1) None ie run_message_fields(2)
      by (auto simp: eq outcome_def Let_def ig failed_transition_def and_then_def split: option.splits if_splits)
    moreover have "balance a (SubBalance ?E (msg_from msg) (gas_cost msg) s) =
        balance a (sdb evm) - (if a = msg_from msg then gas_cost msg else 0)" for a
      using s assms(2) runs_inv [of ?E "sdb evm" s] balance_SubBalance [of s a ?E] balance_observe [of ?E s "sdb evm" a]
      by (simp add: read_only_def sdb_inv_def wf_cache_def)
    ultimately show ?thesis using None by simp
  qed
qed

text \<open>The run of a call when the sender has nothing left, or less than the value.\<close>

lemma lookup_GetOrNew:
  assumes "wf_objs s" "GetOrNewStateObject E a s = (x, t)"
  shows "lookup b t = (if b = a then Some x else lookup b s)"
proof (cases "lookup a s")
  case None
  then show ?thesis using assms(2)
    by (auto simp: GetOrNewStateObject_def createObject_eq lookup_setStateObject split: prod.splits)
next
  case (Some y)
  with assms lookup_live [OF assms(1) Some] show ?thesis by (auto simp: GetOrNewStateObject_def)
qed

lemma exists_kept:
  assumes "wf_objs s" "lookup b s \<noteq> None"
  shows "lookup b (SubBalance E a v s) \<noteq> None" "lookup b (SetNonce E a m s) \<noteq> None"
proof -
  obtain x t where g: "GetOrNewStateObject E a s = (x, t)" by fastforce
  note l = lookup_GetOrNew [OF assms(1) g]
  have x: "address x = a" "\<not> deleted x"
    using lookup_live [OF extends_wf [OF extends_GetOrNew(1) [OF assms(1) g]] extends_GetOrNew(2) [OF assms(1) g]] by auto
  show "lookup b (SubBalance E a v s) \<noteq> None" "lookup b (SetNonce E a m s) \<noteq> None"
    using assms(2) x l by (auto simp: SubBalance_def SetNonce_def g obj_SubBalance_def obj_SetBalance_def setBalance_def
        obj_SetNonce_def setNonce_def lookup_fire)
qed

lemma sdb_inv_wf: "sdb_inv s \<Longrightarrow> wf_objs s"
  by (simp add: sdb_inv_def wf_cache_def)

lemma bumped_bought:
  fixes msg gp g
  assumes "read_only E (sdb evm) s" "sdb_inv (sdb evm)" "E = sdbE env"
  defines "v \<equiv> bumped env (bought E evm msg gp g s)"
  shows "sdb_inv (sdb v)" "balance a (sdb v) = balance a (sdb evm) - (if a = msg_from msg then gas_cost msg else 0)"
    "fst (Exist a (sdb evm)) \<Longrightarrow> fst (Exist a (sdb v))" "depth v = depth evm"
proof -
  let ?s1 = "SubBalance E (msg_from msg) (gas_cost msg) s"
  let ?s2 = "snd (getStateObject (msg_from msg) ?s1)"
  have s: "sdb_inv s" using assms(1,2) runs_inv by (auto simp: read_only_def)
  have 1: "sdb_inv ?s1" by (rule runs_inv [OF runs_ops(2) s])
  have 2: "sdb_inv ?s2" by (rule runs_inv [OF runs_ops(4) 1])
  have v: "sdb v = SetNonce E (msg_from msg) (nonce (msg_from msg) ?s1 + 1) ?s2"
    by (simp add: v_def bumped_def Let_def assms(3))
  show "sdb_inv (sdb v)" unfolding v by (rule runs_inv [OF runs_ops(3) 2])
  have "balance a s = balance a (sdb evm)"
    by (rule balance_observe [of E]) (use assms(1) in \<open>simp add: read_only_def\<close>)
  then show "balance a (sdb v) = balance a (sdb evm) - (if a = msg_from msg then gas_cost msg else 0)"
    using balance_sets(1) [OF sdb_inv_wf [OF 2]] balance_SubBalance [OF sdb_inv_wf [OF s]] by (simp add: v)
  have e: "fst (Exist a t) = (lookup a t \<noteq> None)" for t by (simp add: Exist_def case_prod_unfold)
  have "(lookup a s \<noteq> None) = (lookup a (sdb evm) \<noteq> None)"
    unfolding e [symmetric] reads_return_view(1) [where E = E] using assms(1) by (simp add: read_only_def)
  then show "fst (Exist a (sdb v))" if "fst (Exist a (sdb evm))"
    unfolding e v using that [unfolded e]
    by (intro exists_kept(2) sdb_inv_wf 2) (simp add: exists_kept(1) [OF sdb_inv_wf [OF s], simplified])
  show "depth v = depth evm" by (simp add: v_def bumped_def Let_def)
qed

lemma outcome_run:
  assumes "check_error msg gp (sdb evm) = None" "g \<le> msg_gasLimit msg"
    and "IntrinsicGas (msg_data msg) (msg_to msg = None) True = (g, None)"
  shows "outcome n env evm msg gp s =
    and_then (run_message n env (bought (sdbE env) evm msg gp g s)) (\<lambda>((ret, vmerr), st3).
      if vmerr = Some core_ErrInsufficientBalance then failed_transition core_ErrInsufficientBalance st3
      else Some (map_option (\<lambda>st4. ((ret, gasUsed st4, vmerr \<noteq> None, None), st4)) (refundGas (sdbE env) st3)))"
  using assms by (simp add: outcome_def Let_def leD)


text \<open>
  C24. A message whose sender cannot pay the value is not refused. The run ends with the
  machine's error for a missing balance, which is another value than the error the
  transition compares it with, so the message is accepted as failed and its gas is kept.
\<close>

theorem short_of_value_is_charged:
  assumes "check_error msg gp (sdb evm) = None" "g \<le> msg_gasLimit msg"
    and "IntrinsicGas (msg_data msg) (msg_to msg = None) True = (g, None)"
    and "msg_to msg = Some a" "sdb_inv (sdb evm)" "depth evm \<le> CallCreateDepth" "\<not> NoRecursion env"
    and "fst (GetBalance (msg_from msg) (sdb evm)) < uint (msg_gasLimit msg) * msg_gasPrice msg + msg_amount msg"
    and "unat (msg_gasLimit msg) < n"
  shows "\<exists>used st. TransitionDb n env (NewStateTransition evm msg gp) = Some (Some (([], used, True, None), st)) \<and>
    unat g \<le> 2 * unat used"
proof -
  let ?lim = "msg_gasLimit msg"
  obtain s where s: "read_only (sdbE env) (sdb evm) s"
    and eq: "TransitionDb n env (NewStateTransition evm msg gp) = outcome n env evm msg gp s"
    using TransitionDb_eq by blast
  let ?st = "bought (sdbE env) evm msg gp g s"
  note b = bumped_bought [OF s assms(5) refl, where msg = msg and gp = gp and g = g]
  have "\<not> fst (CanTransfer (sdb (bumped env ?st)) (msg_from msg) (msg_amount msg))"
    using b(2) [of "msg_from msg"] assms(8) by (simp add: CanTransfer_def case_prod_unfold balance_def gas_cost_def)
  then obtain v where "Call (interp n env) env (AccountRef (msg_from msg)) a (msg_data msg) (?lim - g) (msg_amount msg)
      (bumped env ?st) = Some (Some (([], ?lim - g, Some ErrInsufficientBalance), v))"
    using b(4) assms(6,7) by (auto simp: Call_def early_def Let_def case_prod_unfold)
  then have r: "run_message n env ?st = Some (Some (([], Some (VmError ErrInsufficientBalance)),
      ?st\<lparr>st_gas := ?lim - g, st_evm := v\<rparr>))"
    using run_message_Call [of ?st a n env] assms(4) by simp
  note lim = check_error_None(2) [OF assms(1)]
  from accepted_gas [OF r assms(2) lim assms(9)] obtain gl st where gl: "unat gl \<le> unat ?lim"
    "unat g \<le> 2 * (unat ?lim - unat gl)" "refundGas (sdbE env) (?st\<lparr>st_gas := ?lim - g, st_evm := v\<rparr>) = Some st"
    "st_gas st = gl" "st_initialGas st = ?lim" by auto
  then show ?thesis
    using gas_returned(1) [OF gl(1) lim] unfolding eq outcome_run [OF assms(1-3)] r by (simp add: gasUsed_def)
qed

section \<open>A transfer\<close>

definition demo_msg :: "int \<Rightarrow> Msg" where
  "demo_msg x = \<lparr>msg_to = Some 8, msg_from = 7, msg_nonce = 0, msg_amount = x, msg_gasLimit = 30000,
     msg_gasPrice = 2, msg_data = [1, 0], msg_checkNonce = True\<rparr>"

definition demo_tx_db :: stateDB where
  "demo_tx_db = AddBalance demo_env 8 1 (AddBalance demo_env 7 60000 (Prepare 1 2 3 0 (New empty_trie)))"

lemma demo_tx_inv: "sdb_inv demo_tx_db"
proof -
  have "sdb_inv (Prepare 1 2 3 0 (New empty_trie))"
    by (rule runs_inv [OF runs_op [of demo_env "PrepareOp 1 2 3 0"] sdb_inv_New]) simp_all
  then show ?thesis unfolding demo_tx_db_def by (intro runs_inv [OF runs_ops(1)])
qed

lemma demo_tx_reads:
  "fst (GetBalance 7 demo_tx_db) = 60000" "fst (GetNonce 7 demo_tx_db) = 0" "fst (Exist 8 demo_tx_db)"
  by code_simp+

lemma demo_msg_checks:
  "check_error (demo_msg x) 50000 (sdb (demo_vm demo_tx_db)) = None"
  "IntrinsicGas (msg_data (demo_msg x)) (msg_to (demo_msg x) = None) True = (21072, None)"
  by (simp_all add: check_error_def demo_msg_def gas_cost_def demo_vm_def demo_tx_reads balance_def nonce_def
      IntrinsicGas_def TxGas_def TxDataZeroGas_def TxDataNonZeroGas_def MaxUint64_def)


theorem short_of_value_is_charged_witness:
  "\<exists>used st. TransitionDb 30001 demo_vm_env (NewStateTransition (demo_vm demo_tx_db) (demo_msg 5) 50000) =
      Some (Some (([], used, True, None), st)) \<and> unat (21072 :: u64) \<le> 2 * unat used"
  by (rule short_of_value_is_charged [OF demo_msg_checks(1) _ demo_msg_checks(2), where a = 8])
     (simp_all add: demo_msg_def demo_vm_def demo_tx_reads demo_tx_inv demo_vm_env_def)

lemma demo_runs:
  "case TransitionDb n demo_vm_env (NewStateTransition (demo_vm demo_tx_db) (demo_msg 5) 50000) of
     Some (Some ((ret, used, failed, None), st)) \<Rightarrow> True | _ \<Rightarrow> False"
  "case TransitionDb n demo_vm_env (NewStateTransition (demo_vm demo_tx_db) (demo_msg 5) 20000) of
     Some (Some ((ret, used, failed, Some e), st)) \<Rightarrow> True | _ \<Rightarrow> False"
  "case TransitionDb n demo_vm_env (NewStateTransition (demo_vm demo_tx_db) ((demo_msg 5)\<lparr>msg_gasPrice := 1\<rparr>) 50000) of
     Some (Some ((ret, used, failed, None), st)) \<Rightarrow> \<not> failed | _ \<Rightarrow> False"
  by code_simp+

theorem transition_accounts_for_gas_witness:
  "case TransitionDb 30001 demo_vm_env (NewStateTransition (demo_vm demo_tx_db) (demo_msg 5) 50000) of
    Some (Some ((ret, used, failed, None), st)) \<Rightarrow> unat used \<le> 30000 \<and> unat (st_gp st) + unat used = 50000
  | _ \<Rightarrow> False"
proof -
  have "unat (msg_gasLimit (demo_msg 5)) < 30001" by (simp add: demo_msg_def)
  from transition_accounts_for_gas [OF this, of demo_vm_env "demo_vm demo_tx_db" 50000] demo_runs(1) [of 30001] show ?thesis
    by (auto simp: demo_msg_def split: option.splits)
qed

theorem refused_transition_witness:
  "case TransitionDb 30001 demo_vm_env (NewStateTransition (demo_vm demo_tx_db) (demo_msg 5) 20000) of
    Some (Some ((ret, used, failed, Some e), st)) \<Rightarrow>
      e = ErrGasLimitReached \<and> observe demo_env (st_state st) = observe demo_env demo_tx_db
  | _ \<Rightarrow> False"
proof -
  let ?v = "demo_vm demo_tx_db"
  have c: "check_error (demo_msg 5) 20000 demo_tx_db = Some ErrGasLimitReached" by code_simp
  from demo_runs(2) [of 30001] refused_transition [of 30001 demo_vm_env ?v "demo_msg 5" 20000] demo_tx_inv show ?thesis
    by (auto simp: c demo_vm_def demo_vm_env_def split: option.splits)
qed

lemma demo_tx_solvent: "solvent demo_tx_db"
proof -
  have "sdb_inv (Prepare 1 2 3 0 (New empty_trie))"
    by (rule runs_inv [OF runs_op [of demo_env "PrepareOp 1 2 3 0"] sdb_inv_New]) simp_all
  note wf = sdb_inv_wf [OF this] sdb_inv_wf [OF runs_inv [OF runs_ops(1) this]]
  have "balance b (New empty_trie) = 0" for b
    by (simp add: balance_lookup lookup_eq New_def stored_def empty_trie_def)
  then show ?thesis by (simp add: solvent_def demo_tx_db_def balance_AddBalance [OF wf(1)] balance_AddBalance [OF wf(2)])
qed

theorem transition_pays_for_gas_witness:
  "case TransitionDb 30001 demo_vm_env (NewStateTransition (demo_vm demo_tx_db) ((demo_msg 5)\<lparr>msg_gasPrice := 1\<rparr>) 50000) of
    Some (Some ((ret, used, failed, None), st)) \<Rightarrow> \<not> failed \<and> coins (st_state st) + uint used \<le> coins demo_tx_db
  | _ \<Rightarrow> False"
proof -
  let ?t = "TransitionDb 30001 demo_vm_env (NewStateTransition (demo_vm demo_tx_db) ((demo_msg 5)\<lparr>msg_gasPrice := 1\<rparr>) 50000)"
  obtain ret used st where t: "?t = Some (Some ((ret, used, False, None), st))"
    using demo_runs(3) [of 30001] by (auto split: option.splits)
  from transition_pays_for_gas [OF t] demo_tx_inv demo_tx_solvent have "coins (st_state st) + uint used \<le> coins demo_tx_db"
    by (simp add: demo_msg_def demo_vm_def demo_vm_env_def)
  with t show ?thesis by simp
qed

end
