(* ===== verification/State_Live.thy ===== *)
theory State_Live
  imports State_Commit State_Supply
begin

text \<open>
  Finalisation between transactions. Operations never write a removed account object back
  into the cache, so that the objects marked deleted are those an earlier \<^verbatim>\<open>Finalise\<close> left;
  with that, \<^verbatim>\<open>Finalise\<close> keeps a database consistent and creates no coins.
\<close>

section \<open>Operations write live objects\<close>

definition live :: "stateDB \<Rightarrow> stateDB \<Rightarrow> bool" where
  "live s t \<longleftrightarrow> trie t = trie s \<and>
     (\<forall>a x. stateObjects t a = Some x \<longrightarrow> deleted x \<longrightarrow> stateObjects s a = Some x)"

named_theorems live_intros

lemma live_refl [simp, intro!]: "live s s"
  by (simp add: live_def)

lemma live_trans: "live s t \<Longrightarrow> live t u \<Longrightarrow> live s u"
  by (simp add: live_def)

lemma live_update [simp]:
  "live s (t\<lparr>refund := r\<rparr>) = live s t" "live s (t\<lparr>logs := l\<rparr>) = live s t" "live s (t\<lparr>logSize := n\<rparr>) = live s t"
  "live s (t\<lparr>preimages := p\<rparr>) = live s t" "live s (t\<lparr>journal := j\<rparr>) = live s t"
  "live s (t\<lparr>validRevisions := v\<rparr>) = live s t" "live s (t\<lparr>nextRevisionId := i\<rparr>) = live s t"
  "live s (t\<lparr>thash := h\<rparr>) = live s t" "live s (t\<lparr>bhash := h\<rparr>) = live s t" "live s (t\<lparr>bheight := b\<rparr>) = live s t"
  "live s (t\<lparr>txIndex := ti\<rparr>) = live s t" "live s (t\<lparr>stateObjectsDirty := d\<rparr>) = live s t"
  "live s (append_journal e t) = live s t" "live s (setError err t) = live s t"
  by (simp_all add: live_def append_journal_def setError_def)

lemma live_store [live_intros]:
  "live s t \<Longrightarrow> \<not> deleted x \<Longrightarrow> live s (setStateObject x t)"
  "live s t \<Longrightarrow> \<not> deleted x \<Longrightarrow> live s (fire x t)"
  by (auto simp: live_def setStateObject_def fire_def MarkStateObjectDirty_def)

lemma live_get: "live s t \<Longrightarrow> live s (snd (getStateObject a t))"
  by (auto simp: live_def getStateObject_def TryGet_def setStateObject_def newObject_def setError_def Let_def
      split: option.splits leaf.splits)

lemma get_not_deleted: "getStateObject a s = (Some x, t) \<Longrightarrow> \<not> deleted x"
  by (auto simp: getStateObject_def TryGet_def newObject_def Let_def split: option.splits leaf.splits if_splits)

lemma live_getD: "getStateObject a s = (r, t) \<Longrightarrow> live s t"
  using live_get [OF live_refl, of s a] by simp

lemma live_createObject:
  assumes "createObject E a s = ((x, p), t)"
  shows "live s t" "\<not> deleted x"
proof -
  obtain q u where g: "getStateObject a s = (q, u)" by fastforce
  show "live s t" "\<not> deleted x"
    using assms live_getD [OF g]
    by (auto simp: createObject_def g Let_def newObject_def MarkStateObjectDirty_def split: option.splits
        intro!: live_store)
qed

lemma live_GetOrNew:
  assumes "GetOrNewStateObject E a s = (x, t)"
  shows "live s t" "\<not> deleted x"
proof -
  obtain q u where g: "getStateObject a s = (q, u)" by fastforce
  show "live s t" "\<not> deleted x"
    using assms live_getD [OF g] get_not_deleted [of a s _ u] live_createObject [of E a u]
    by (auto simp: GetOrNewStateObject_def g split: option.splits prod.splits if_splits intro: live_trans)
qed

lemma live_setWeight: "setWeight x w h s = Some t \<Longrightarrow> \<not> deleted x \<Longrightarrow> live s t"
  by (auto simp: setWeight_def bind_eq_Some_conv intro!: live_store)

lemmas live_object_defs =
  obj_AddBalance_def obj_SubBalance_def obj_SetBalance_def setBalance_def touch_def obj_SetNonce_def setNonce_def
  obj_SetCode_def setCode_def obj_SetState_def setState_def case_prod_unfold Let_def

lemma live_writes:
  "live s (AddBalance E a v s)" "live s (SubBalance E a v s)" "live s (SetBalance E a v s)" "live s (SetNonce E a m s)"
  "live s (SetCode E a c s)" "live s (SetState E a k w s)"
proof -
  obtain x t where g: "GetOrNewStateObject E a s = (x, t)" by fastforce
  note l = live_GetOrNew [OF g]
  show "live s (AddBalance E a v s)" "live s (SubBalance E a v s)" "live s (SetBalance E a v s)" "live s (SetNonce E a m s)"
    "live s (SetCode E a c s)" "live s (SetState E a k w s)"
    using l by (auto simp: AddBalance_def SubBalance_def SetBalance_def SetNonce_def SetCode_def SetState_def g
        live_object_defs intro!: live_store)
qed

lemma live_weights:
  "AddBalanceAndWeight E a v s = Some t \<Longrightarrow> live s t" "SubBalanceAndWeight E a v s = Some t \<Longrightarrow> live s t"
  "ClearWeight a s = Some t \<Longrightarrow> live s t"
proof -
  obtain x u where g: "GetOrNewStateObject E a s = (x, u)" by fastforce
  note l = live_GetOrNew [OF g]
  show "AddBalanceAndWeight E a v s = Some t \<Longrightarrow> live s t"
    using l by (auto simp: AddBalanceAndWeight_def addWeight_def obj_AddWeight_def g bind_eq_Some_conv
        dest!: live_setWeight intro: live_trans live_writes)
  show "SubBalanceAndWeight E a v s = Some t \<Longrightarrow> live s t"
    using l by (auto simp: SubBalanceAndWeight_def subWeight_def obj_SubWeight_def g bind_eq_Some_conv Let_def
        dest!: live_setWeight intro: live_trans live_writes)
  obtain q w where h: "getStateObject a s = (q, w)" by fastforce
  show "ClearWeight a s = Some t \<Longrightarrow> live s t"
    using live_getD [OF h] get_not_deleted [of a s _ w]
    by (auto simp: ClearWeight_def h split: option.splits dest!: live_setWeight intro: live_trans)
qed

lemma live_Suicide: "live s (snd (Suicide a s))"
proof -
  obtain q w where h: "getStateObject a s = (q, w)" by fastforce
  show ?thesis using live_getD [OF h] get_not_deleted [of a s _ w]
    by (auto simp: Suicide_def h markSuicided_def Let_def split: option.splits intro!: live_store)
qed

lemma live_CreateAccount: "CreateAccount E a s = Some t \<Longrightarrow> live s t"
proof -
  assume c: "CreateAccount E a s = Some t"
  obtain x p s1 where o: "createObject E a s = ((x, p), s1)" by (metis surj_pair)
  note l = live_createObject [OF o]
  show "live s t"
  proof (cases p)
    case None
    with c o l show ?thesis by (simp add: CreateAccount_def)
  next
    case (Some q)
    with c o obtain s2 y where s2: "setWeight x 0 (bheight s1) s1 = Some s2" "stateObjects s2 a = Some y"
      "t = setBalance y (Balance (data q)) s2" by (auto simp: CreateAccount_def bind_eq_Some_conv)
    have "address x = a" using o by (auto simp: createObject_def newObject_def Let_def split: prod.splits)
    then have "\<not> deleted y" using s2(1,2) l(2)
      by (auto simp: setWeight_def bind_eq_Some_conv fire_def setStateObject_def MarkStateObjectDirty_def split: if_splits)
    then show ?thesis unfolding s2(3) setBalance_def using l s2(1)
      by (intro live_store live_trans [OF l(1) live_setWeight [OF s2(1)]]) simp_all
  qed
qed

lemma live_reads:
  "live s (snd (GetCode E a s))" "live s (snd (GetCodeSize E a s))" "live s (snd (GetState E a k s))"
proof -
  obtain q w where h: "getStateObject a s = (q, w)" by fastforce
  show "live s (snd (GetCode E a s))" "live s (snd (GetCodeSize E a s))" "live s (snd (GetState E a k s))"
    using live_getD [OF h] get_not_deleted [of a s _ w]
    by (auto simp: GetCode_def GetCodeSize_def GetState_def h case_prod_unfold split: option.splits intro!: live_store)
qed

lemma lookup_not_deleted: "lookup a s = Some x \<Longrightarrow> \<not> deleted x"
  by (auto simp: lookup_eq stored_def newObject_def split: option.splits leaf.splits if_splits)

lemma live_undo:
  assumes "undo e s = Some t" "entry_ok e"
  shows "live s t"
proof -
  have f: "live s (fire y (snd (getStateObject a s)))" "live s (setStateObject y (snd (getStateObject a s)))"
    if "lookup a s = Some x" "deleted y = deleted x" for a x y
    using lookup_not_deleted [OF that(1)] that(2) by (auto intro!: live_store live_get)
  show ?thesis
  proof (cases e)
    case (createObjectChange a)
    with assms show ?thesis by (auto simp: live_def split: if_splits)
  next
    case (resetObjectChange p)
    with assms show ?thesis by (auto intro!: live_store)
  next
    case (touchChange a p d)
    obtain q w where g: "getStateObject a s = (q, w)" by fastforce
    from touchChange assms live_getD [OF g] get_not_deleted [of a s _ w] show ?thesis
      by (auto simp: g Let_def split: option.splits if_splits intro!: live_store)
  qed (use assms f live_get [OF live_refl] in \<open>auto simp: setBalance_def setNonce_def setCode_def setState_def Let_def
      split: prod.splits option.splits if_splits\<close>)
qed

lemma live_undo_all:
  "undo_all es s = Some t \<Longrightarrow> \<forall>e \<in> set es. entry_ok e \<Longrightarrow> live s t"
  by (induction es arbitrary: t) (auto simp: bind_eq_Some_conv dest!: live_undo intro: live_trans)

lemma live_Revert:
  assumes "RevertToSnapshot i s = Some t" "sdb_inv s"
  shows "live s t"
proof -
  from assms(1) obtain n u where u: "undo_all (drop n (journal s)) s = Some u" "live s t = live s u"
    by (auto simp: RevertToSnapshot_def Let_def bind_eq_Some_conv split: if_splits)
  have "\<forall>e \<in> set (drop n (journal s)). entry_ok e"
    using assms(2) by (auto simp: sdb_inv_def wf_cache_def dest: in_set_dropD)
  from live_undo_all [OF u(1) this] u(2) show ?thesis by simp
qed

lemma live_op: "exec_op E x s = Some t \<Longrightarrow> sdb_inv s \<Longrightarrow> live s t"
  by (cases x)
     (auto simp: AddLog_def AddPreimage_def AddRefund_def Prepare_def Snapshot_def Let_def split: option.splits
       intro: live_writes live_weights live_Suicide live_CreateAccount live_reads live_Revert live_get)

lemma live_runs: "runs E s t \<Longrightarrow> sdb_inv s \<Longrightarrow> live s t"
proof -
  have "exec_ops E xs s = Some t \<Longrightarrow> sdb_inv s \<Longrightarrow> live s t" for xs
  proof (induction xs arbitrary: s)
    case (Cons x xs)
    then obtain u where u: "exec_op E x s = Some u" "exec_ops E xs u = Some t" by (auto simp: bind_eq_Some_conv)
    from live_trans [OF live_op [OF u(1)] Cons.IH [OF u(2)]] exec_op_inv(1) [OF u(1)] Cons.prems(2) show ?case by simp
  qed simp
  then show "runs E s t \<Longrightarrow> sdb_inv s \<Longrightarrow> live s t" by (auto simp: runs_def)
qed

section \<open>Finalisation\<close>

text \<open>The objects marked deleted would be removed again, and no path of the account trie is broken.\<close>

definition settled :: "sdb_env \<Rightarrow> stateDB \<Rightarrow> bool" where
  "settled E s \<longleftrightarrow> (\<forall>a. fault (trie s) a = None) \<and>
     (\<forall>a x. stateObjects s a = Some x \<longrightarrow> deleted x \<longrightarrow> doomed E True x)"

lemma settled_live: "live s t \<Longrightarrow> settled E s \<Longrightarrow> settled E t"
  by (fastforce simp: live_def settled_def)

lemma settled_New: "(\<And>a. fault tr a = None) \<Longrightarrow> settled E (New tr)"
  by (simp add: settled_def New_def)

lemma updateTrie_same:
  "address (updateTrie E ks x) = address x" "deleted (updateTrie E ks x) = deleted x"
  "data (updateTrie E ks x) = data x" "suicided (updateTrie E ks x) = suicided x"
proof -
  have step: "address (updateTrie_step k x) = address x \<and> deleted (updateTrie_step k x) = deleted x \<and>
      data (updateTrie_step k x) = data x \<and> suicided (updateTrie_step k x) = suicided x" for k x
    by (simp add: updateTrie_step_def obj_setError_def Let_def split: option.splits prod.splits)
  have "address (fold updateTrie_step ks y) = address y \<and> deleted (fold updateTrie_step ks y) = deleted y \<and>
      data (fold updateTrie_step ks y) = data y \<and> suicided (fold updateTrie_step ks y) = suicided y" for y
    by (induction ks arbitrary: y) (simp_all add: step)
  then show "address (updateTrie E ks x) = address x" "deleted (updateTrie E ks x) = deleted x"
    "data (updateTrie E ks x) = data x" "suicided (updateTrie E ks x) = suicided x"
    by (simp_all add: updateTrie_def getTrie_def obj_setError_def split: option.splits sum.splits)
qed

lemma updateRoot_same:
  "address (updateRoot E ks x) = address x" "deleted (updateRoot E ks x) = deleted x"
  "Balance (data (updateRoot E ks x)) = Balance (data x)"
  by (simp_all add: updateRoot_def Let_def updateTrie_same split: option.splits)

lemma finalise_step_keeps:
  assumes "finalise_step E True ks a s = Some t" "wf_objs s" "settled E s"
  shows "wf_objs t" "settled E t" "balance b t = balance b s \<or> balance b t = 0"
proof -
  from assms(1) obtain x where x: "stateObjects s a = Some x" by (auto simp: finalise_step_def bind_eq_Some_conv)
  have ax: "address x = a" using assms(2) x by (simp add: wf_objs_def)
  have nf: "fault (trie s) c = None" for c using assms(3) by (simp add: settled_def)
  have dx: "deleted x \<Longrightarrow> doomed E True x" using assms(3) x by (simp add: settled_def)
  have "wf_objs t \<and> settled E t \<and> (balance b t = balance b s \<or> balance b t = 0)"
  proof (cases "doomed E True x")
    case True
    then have "t = s\<lparr>stateObjects := (stateObjects s)(a \<mapsto> x\<lparr>deleted := True\<rparr>),
        trie := (trie s)\<lparr>content := (content (trie s))(a := None)\<rparr>\<rparr>"
      using assms(1) by (simp add: finalise_step_def x doomed_def deleteStateObject_def TryDelete_def nf ax
          setStateObject_def Let_def)
    moreover have "doomed E True (x\<lparr>deleted := True\<rparr>)" using True by (simp add: doomed_def empty_def)
    ultimately show ?thesis
      using assms(2,3) ax by (auto simp: wf_objs_def settled_def balance_lookup lookup_eq stored_def split: option.splits)
  next
    case False
    let ?y = "updateRoot E (ks a) x"
    have "t = s\<lparr>stateObjects := (stateObjects s)(a \<mapsto> ?y),
        trie := (trie s)\<lparr>content := (content (trie s))(a \<mapsto> Leaf (data ?y))\<rparr>\<rparr>"
      using assms(1) False by (simp add: finalise_step_def x doomed_def updateStateObject_def TryUpdate_def nf ax
          setStateObject_def Let_def updateRoot_same split: if_splits)
    moreover have "\<not> deleted ?y" using False dx by (auto simp: updateRoot_same)
    ultimately show ?thesis
      using assms(2,3) dx False ax x
      by (auto simp: wf_objs_def settled_def balance_lookup lookup_eq stored_def updateRoot_same split: option.splits)
  qed
  then show "wf_objs t" "settled E t" "balance b t = balance b s \<or> balance b t = 0" by auto
qed

lemma finalise_loop_keeps:
  "finalise_loop E True ks order s = Some t \<Longrightarrow> wf_objs s \<Longrightarrow> settled E s \<Longrightarrow>
     wf_objs t \<and> settled E t \<and> (balance b t = balance b s \<or> balance b t = 0)"
proof (induction order arbitrary: s)
  case (Cons a as)
  then obtain u where u: "finalise_step E True ks a s = Some u" "finalise_loop E True ks as u = Some t"
    by (auto simp: bind_eq_Some_conv)
  from finalise_step_keeps [OF u(1) Cons.prems(2,3)] Cons.IH [OF u(2)] show ?case by metis
qed simp

lemma Finalise_keeps:
  assumes "Finalise E True ks order s = Some t" "sdb_inv s" "settled E s"
  shows "sdb_inv t" "settled E t" "thrift s t"
proof -
  from assms(1) obtain u where u: "finalise_loop E True ks order s = Some u" "t = clearJournalAndRefund u"
    by (auto simp: Finalise_def)
  have wf: "wf_objs s" using assms(2) by (simp add: sdb_inv_def wf_cache_def)
  note k = finalise_loop_keeps [OF u(1) wf assms(3)]
  show "sdb_inv t" "settled E t"
    using k by (auto simp: u(2) clearJournalAndRefund_def sdb_inv_def wf_cache_def wf_revs_def wf_objs_def settled_def)
  have "balance b t = balance b s \<or> balance b t = 0" for b using k [of b] by (simp add: u(2) balance_lookup)
  then have "solvent s \<Longrightarrow> 0 \<le> balance b t \<and> balance b t \<le> balance b s" for b
    by (metis order_refl solvent_def)
  then show "thrift s t" by (auto simp: thrift_def solvent_def coins_def intro!: sum_mono)
qed

end
