(* ===== verification/Core_Process.thy ===== *)
theory Core_Process
  imports Core_Transition State_Live "HOL-Library.Multiset"
begin

text \<open>
  Blocks: \<^verbatim>\<open>Process\<close>, \<^verbatim>\<open>ApplyTransaction\<close> and \<^verbatim>\<open>assignRwards\<close> of
  \<^verbatim>\<open>src/core/state_processor.go\<close>, with the context of \<^verbatim>\<open>src/core/evm.go\<close>, the transactions of
  \<^verbatim>\<open>src/protos/transaction.go\<close> and the shard of a transaction from
  \<^verbatim>\<open>src/core/server/peer.go\<close>. The lemmas follow the gas and the coins through a block.
\<close>

section \<open>Transactions and blocks\<close>

type_synonym u32 = "32 word"

record Transaction =
  tx_Version :: u32
  tx_Nonce :: u64
  tx_SenderPubKey :: "byte list"
  tx_ToAddr :: "byte list option"
  tx_Amount :: u64
  tx_Signature :: "byte list"
  tx_GasPrice :: u64
  tx_GasLimit :: u64
  tx_Code :: "byte list"
  tx_Data :: "byte list"
  tx_Timestamp :: "u64 option"

record TxBlockHeader =
  h_Timestamp :: "u64 option"
  h_PreviousBlockHash :: "byte list"
  h_BlockNumber :: u64
  h_DSCoinBase :: "byte list list"
  h_ShardingLeadCoinBase :: "byte list list"
  h_GasLimit :: u64
  h_DSBlockNum :: u64
  h_TxNum :: u64

record TxBlock =
  b_Header :: TxBlockHeader
  b_Transactions :: "Transaction list"

record Receipt =
  r_PostState :: "byte list"
  r_Status :: nat
  r_CumulativeGasUsed :: u64
  r_Logs :: "log list"
  r_TxHash :: hash
  r_ContractAddress :: address
  r_GasUsed :: u64

record ShardReward =
  ShardId :: u32
  GasFee :: int

text \<open>
  What the processor is given. \<open>vm_base\<close> carries the configuration of the machine and the
  database; its fields for the message and the block are set by \<open>NewEVMContext\<close>. The P-256
  encoding of points, the hashes of transactions and blocks, the lookup of block hashes and
  of the number of shards in the chains, and the orders in which Go walks maps are
  parameters.
\<close>

record chain_env =
  vm_base :: vm_env
  Unmarshal :: "byte list \<Rightarrow> (int \<times> int) option"
  Marshal :: "int \<times> int \<Rightarrow> byte list"
  TxHashOf :: "Transaction \<Rightarrow> hash"
  BlockHashOf :: "TxBlock \<Rightarrow> hash"
  HashFn :: "TxBlockHeader \<Rightarrow> u64 \<Rightarrow> hash"
  ShardingSum :: "u64 \<Rightarrow> u32 option"
  dirty_walk :: "stateDB \<Rightarrow> (address \<Rightarrow> hash list) \<times> address list"
  shard_walk :: "(u32 \<rightharpoonup> int) \<Rightarrow> u32 list"

abbreviation ceE :: "chain_env \<Rightarrow> sdb_env" where
  "ceE ce \<equiv> sdbE (vm_base ce)"

definition BytesToAddress :: "byte list \<Rightarrow> address" where
  "BytesToAddress b = word_of_int (SetBytes b)"

section \<open>Senders\<close>

definition keccak_address :: "sdb_env \<Rightarrow> byte list \<Rightarrow> address" where
  "keccak_address E pub = ucast (keccak256 E (tl pub))"

definition BytesToPubKey :: "chain_env \<Rightarrow> byte list \<Rightarrow> (int \<times> int) option" where
  "BytesToPubKey ce pub = (if pub = [] then None else Unmarshal ce pub)"

definition PubKeyToAddress :: "chain_env \<Rightarrow> (int \<times> int) option \<Rightarrow> address" where
  "PubKeyToAddress ce pub = (case pub of None \<Rightarrow> 0 | Some p \<Rightarrow> keccak_address (ceE ce) (Marshal ce p))"

definition Sender :: "chain_env \<Rightarrow> Transaction \<Rightarrow> address \<times> bool" where
  "Sender ce tx = (if length (tx_SenderPubKey tx) \<noteq> 65 then (0, False)
     else (keccak_address (ceE ce) (tx_SenderPubKey tx), True))"

definition AsMsg :: "chain_env \<Rightarrow> Transaction \<Rightarrow> Msg" where
  "AsMsg ce tx =
     \<lparr>msg_to = map_option BytesToAddress (tx_ToAddr tx),
      msg_from = PubKeyToAddress ce (BytesToPubKey ce (tx_SenderPubKey tx)), msg_nonce = tx_Nonce tx,
      msg_amount = uint (tx_Amount tx), msg_gasLimit = 10000000, msg_gasPrice = 1,
      msg_data = tx_Data tx, msg_checkNonce = True\<rparr>"

definition GetShardId :: "chain_env \<Rightarrow> Transaction \<Rightarrow> u64 \<Rightarrow> u32 option" where
  "GetShardId ce tx dsNum = do {
     shardsNum \<leftarrow> ShardingSum ce dsNum;
     if shardsNum = 0 then Some 0
     else Some (word_of_int (uint (fst (Sender ce tx)) mod uint shardsNum))
   }"

section \<open>One transaction of a block\<close>

definition NewEVMContext :: "chain_env \<Rightarrow> Msg \<Rightarrow> TxBlockHeader \<Rightarrow> address option \<Rightarrow> vm_env option" where
  "NewEVMContext ce msg header author = do {
     beneficiary \<leftarrow> (case author of
         None \<Rightarrow> (case h_DSCoinBase header of [] \<Rightarrow> None | b # bs \<Rightarrow> Some (BytesToAddress b))
       | Some a \<Rightarrow> Some a);
     second \<leftarrow> h_Timestamp header;
     Some ((vm_base ce)\<lparr>GetHash := HashFn ce header, Origin := msg_from msg, Coinbase := beneficiary,
       BlockNumber := uint (h_BlockNumber header), Time := uint second, GasLimit := h_GasLimit header,
       GasPrice := msg_gasPrice msg\<rparr>)
   }"

definition NewEVM :: "stateDB \<Rightarrow> vm" where
  "NewEVM statedb = \<lparr>sdb = statedb, depth = 0, readOnly = False, returnData = [], jumpdests = Map.empty,
     callGasTemp = 0\<rparr>"

definition ReceiptStatusFailed :: nat where "ReceiptStatusFailed = 0"
definition ReceiptStatusSuccessful :: nat where "ReceiptStatusSuccessful = 1"

definition NewReceipt :: "byte list \<Rightarrow> bool \<Rightarrow> u64 \<Rightarrow> Receipt" where
  "NewReceipt root failed cumulativeGasUsed =
     \<lparr>r_PostState = root, r_Status = (if failed then ReceiptStatusFailed else ReceiptStatusSuccessful),
      r_CumulativeGasUsed = cumulativeGasUsed, r_Logs = [], r_TxHash = 0, r_ContractAddress = 0, r_GasUsed = 0\<rparr>"

text \<open>The result comes with the gas pool, the used gas and the database after the transaction.\<close>

type_synonym tx_result = "(core_error + Receipt \<times> u64) \<times> u64 \<times> u64 \<times> stateDB"

definition ApplyTransaction ::
  "nat \<Rightarrow> chain_env \<Rightarrow> address option \<Rightarrow> u64 \<Rightarrow> stateDB \<Rightarrow> TxBlockHeader \<Rightarrow> Transaction \<Rightarrow> u64 \<Rightarrow>
     tx_result option option" where
  "ApplyTransaction n ce author gp statedb header tx usedGas =
     (let msg = AsMsg ce tx in
      case NewEVMContext ce msg header author of
        None \<Rightarrow> Some None
      | Some env \<Rightarrow>
          and_then (ApplyMessage n env (NewEVM statedb) msg gp) (\<lambda>((_, gas, failed, err), st).
            case err of
              Some e \<Rightarrow> Some (Some (Inl e, st_gp st, usedGas, st_state st))
            | None \<Rightarrow> Some (do {
                let (keys, order) = dirty_walk ce (st_state st);
                s1 \<leftarrow> Finalise (sdbE env) True keys order (st_state st);
                let used = usedGas + gas;
                let receipt = (NewReceipt [] failed used)\<lparr>r_TxHash := TxHashOf ce tx, r_GasUsed := gas,
                  r_ContractAddress := (if msg_to msg = None then CreateAddress env (Origin env) (tx_Nonce tx) else 0),
                  r_Logs := GetLogs (TxHashOf ce tx) s1\<rparr>;
                Some (Inr (receipt, gas), st_gp st, used, s1)
              })))"

section \<open>Rewards\<close>

definition DAMPEDBLOCKS :: u64 where "DAMPEDBLOCKS = 1576800"
definition Okp :: u64 where "Okp = 10000000000"

definition yieldReward :: "u64 \<Rightarrow> int" where
  "yieldReward blockNum = uint (drop_bit (unat (blockNum div DAMPEDBLOCKS)) (50 * Okp))"

definition shard_fee :: "(u32 \<rightharpoonup> int) \<Rightarrow> u32 \<Rightarrow> int" where
  "shard_fee gasFeeUsedShards k = (case gasFeeUsedShards k of None \<Rightarrow> 0 | Some v \<Rightarrow> v)"

definition sortByGasFee :: "chain_env \<Rightarrow> (u32 \<rightharpoonup> int) \<Rightarrow> ShardReward list" where
  "sortByGasFee ce gasFeeUsedShards =
     sort_key GasFee (map (\<lambda>k. \<lparr>ShardId = k, GasFee = shard_fee gasFeeUsedShards k\<rparr>)
       (shard_walk ce gasFeeUsedShards))"

definition lead_of :: "TxBlockHeader \<Rightarrow> u32 \<Rightarrow> address option" where
  "lead_of header shardId =
     (if unat shardId < length (h_ShardingLeadCoinBase header)
      then Some (BytesToAddress (h_ShardingLeadCoinBase header ! unat shardId)) else None)"

text \<open>The rewards of all shards but the last, and their sum.\<close>

fun pay_shards ::
  "sdb_env \<Rightarrow> TxBlockHeader \<Rightarrow> int \<Rightarrow> int \<Rightarrow> ShardReward list \<Rightarrow> int \<Rightarrow> stateDB \<Rightarrow> (int \<times> stateDB) option" where
  "pay_shards E header gasFeeTotal shardsRewardTotal [] shardsRewardNoLast s = Some (shardsRewardNoLast, s)"
| "pay_shards E header gasFeeTotal shardsRewardTotal (shardGasFee # rest) shardsRewardNoLast s = do {
     shardPercent \<leftarrow> big_Div (GasFee shardGasFee * 100) gasFeeTotal;
     shardReward \<leftarrow> big_Div (shardsRewardTotal * shardPercent) 100;
     lead \<leftarrow> lead_of header (ShardId shardGasFee);
     pay_shards E header gasFeeTotal shardsRewardTotal rest (shardsRewardNoLast + shardReward)
       (AddBalance E lead shardReward s)
   }"

fun pay_backups :: "sdb_env \<Rightarrow> int \<Rightarrow> byte list list \<Rightarrow> int \<Rightarrow> stateDB \<Rightarrow> int \<times> stateDB" where
  "pay_backups E average [] DSRewardTotal s = (DSRewardTotal, s)"
| "pay_backups E average (b # bs) DSRewardTotal s =
     pay_backups E average bs (DSRewardTotal - average) (AddBalance E (BytesToAddress b) average s)"

definition pay_DS :: "sdb_env \<Rightarrow> TxBlockHeader \<Rightarrow> int \<Rightarrow> stateDB \<Rightarrow> stateDB option" where
  "pay_DS E header DSRewardTotal s = do {
     let DsBackupCnt = int (length (h_DSCoinBase header)) - 1;
     average \<leftarrow> big_Div (DSRewardTotal * 10) (11 + 10 * DsBackupCnt);
     let (rest, s1) = pay_backups E average (tl (h_DSCoinBase header)) DSRewardTotal s;
     case h_DSCoinBase header of
       [] \<Rightarrow> None
     | b # bs \<Rightarrow> Some (AddBalance E (BytesToAddress b) rest s1)
   }"

definition assignRwards :: "chain_env \<Rightarrow> TxBlockHeader \<Rightarrow> int \<Rightarrow> (u32 \<rightharpoonup> int) \<Rightarrow> stateDB \<Rightarrow> stateDB option" where
  "assignRwards ce header gasFeeTotal gasFeeUsedShards s = do {
     let E = ceE ce;
     let totalReward = gasFeeTotal + yieldReward (h_BlockNumber header);
     let shardsGasFeeList = sortByGasFee ce gasFeeUsedShards;
     let shardsCnt = int (length shardsGasFeeList);
     if shardsCnt \<ge> 1 then do {
       shardAverageReward \<leftarrow> big_Div (totalReward * 10) (11 + 10 * shardsCnt);
       let shardsRewardTotal = shardsCnt * shardAverageReward;
       (shardsRewardNoLast, s1) \<leftarrow> pay_shards E header gasFeeTotal shardsRewardTotal (butlast shardsGasFeeList) 0 s;
       lead \<leftarrow> lead_of header (ShardId (last shardsGasFeeList));
       pay_DS E header (totalReward - shardsRewardTotal)
         (AddBalance E lead (shardsRewardTotal - shardsRewardNoLast) s1)
     }
     else pay_DS E header totalReward s
   }"

section \<open>The transactions of a block\<close>

record Processing =
  pr_gp :: u64
  pr_state :: stateDB
  pr_usedGas :: u64
  pr_feeTotal :: int
  pr_feeShards :: "u32 \<rightharpoonup> int"
  pr_receipts :: "Receipt list"
  pr_allLogs :: "log list"

definition process_tx ::
  "nat \<Rightarrow> chain_env \<Rightarrow> TxBlock \<Rightarrow> int \<Rightarrow> Transaction \<Rightarrow> Processing \<Rightarrow> (core_error option \<times> Processing) option option" where
  "process_tx n ce block i tx p =
     (let header = b_Header block;
          s1 = Prepare (TxHashOf ce tx) (BlockHashOf ce block) (h_BlockNumber header) i (pr_state p) in
      and_then (ApplyTransaction n ce None (pr_gp p) s1 header tx (pr_usedGas p)) (\<lambda>(res, gp, used, s2).
        let p1 = p\<lparr>pr_gp := gp, pr_usedGas := used, pr_state := s2\<rparr> in
        case res of
          Inl e \<Rightarrow> Some (Some (Some e, p1))
        | Inr (receipt, gas) \<Rightarrow> Some (do {
            shardId \<leftarrow> GetShardId ce tx (h_DSBlockNum header);
            let txFee = uint (gas * tx_GasPrice tx);
            Some (None, p1\<lparr>pr_feeTotal := pr_feeTotal p + txFee,
              pr_feeShards := (pr_feeShards p)(shardId \<mapsto> shard_fee (pr_feeShards p) shardId + txFee),
              pr_receipts := pr_receipts p @ [receipt], pr_allLogs := pr_allLogs p @ r_Logs receipt\<rparr>)
          })))"

fun process_txs ::
  "nat \<Rightarrow> chain_env \<Rightarrow> TxBlock \<Rightarrow> int \<Rightarrow> Transaction list \<Rightarrow> Processing \<Rightarrow> (core_error option \<times> Processing) option option" where
  "process_txs n ce block i [] p = Some (Some (None, p))"
| "process_txs n ce block i (tx # txs) p =
     and_then (process_tx n ce block i tx p) (\<lambda>(err, p1).
       case err of Some e \<Rightarrow> Some (Some (Some e, p1)) | None \<Rightarrow> process_txs n ce block (i + 1) txs p1)"

definition start :: "stateDB \<Rightarrow> Processing" where
  "start statedb = \<lparr>pr_gp = 10000000000000000, pr_state = statedb, pr_usedGas = 0, pr_feeTotal = 0,
     pr_feeShards = Map.empty, pr_receipts = [], pr_allLogs = []\<rparr>"

definition Process ::
  "nat \<Rightarrow> chain_env \<Rightarrow> TxBlock \<Rightarrow> stateDB \<Rightarrow>
     ((core_error + Receipt list \<times> log list \<times> u64) \<times> stateDB) option option" where
  "Process n ce block statedb =
     and_then (process_txs n ce block 0 (b_Transactions block) (start statedb)) (\<lambda>(err, p).
       case err of
         Some e \<Rightarrow> Some (Some (Inl e, pr_state p))
       | None \<Rightarrow> Some (do {
           s \<leftarrow> assignRwards ce (b_Header block) (pr_feeTotal p) (pr_feeShards p) (pr_state p);
           Some (Inr (pr_receipts p, pr_allLogs p, pr_usedGas p), s)
         }))"

section \<open>Paying out\<close>

text \<open>\<open>t\<close> is \<open>s\<close> after payments of \<open>x\<close> in all, none of them negative if \<open>h\<close>.\<close>

definition paid :: "bool \<Rightarrow> int \<Rightarrow> stateDB \<Rightarrow> stateDB \<Rightarrow> bool" where
  "paid h x s t \<longleftrightarrow> (sdb_inv s \<longrightarrow> sdb_inv t \<and> coins t = coins s + x \<and> (h \<longrightarrow> (\<forall>b. balance b s \<le> balance b t)))"

lemma paid_refl [simp, intro!]: "paid h 0 s s"
  by (simp add: paid_def)

lemma paid_trans: "paid h x s t \<Longrightarrow> paid h y t u \<Longrightarrow> paid h (x + y) s u"
  unfolding paid_def by (simp, meson order_trans)

lemma paid_AddBalance: "(h \<Longrightarrow> 0 \<le> x) \<Longrightarrow> paid h x s (AddBalance E a x s)"
  using coins_add [of "AddBalance E a x s" s a x]
  by (auto simp: paid_def balance_AddBalance sdb_inv_wf intro: runs_inv [OF runs_ops(1)])

lemma pay_shards_step:
  assumes "pay_shards E header tot srt (x # xs) acc s = Some (acc1, t)"
  obtains pc lead where "big_Div (GasFee x * 100) tot = Some pc"
    "pay_shards E header tot srt xs (acc + srt * pc div 100) (AddBalance E lead (srt * pc div 100) s) = Some (acc1, t)"
  using assms by (auto simp: bind_eq_Some_conv)

lemma pay_shards_sum:
  assumes "pay_shards E header tot srt xs acc s = Some (acc1, t)" "0 < tot"
  shows "acc1 = acc + (\<Sum>x \<leftarrow> xs. (srt * (GasFee x * 100 div tot)) div 100)"
  using assms(1)
proof (induction xs arbitrary: acc s)
  case (Cons x xs)
  obtain pc lead where p: "big_Div (GasFee x * 100) tot = Some pc"
    "pay_shards E header tot srt xs (acc + srt * pc div 100) (AddBalance E lead (srt * pc div 100) s) = Some (acc1, t)"
    by (rule pay_shards_step [OF Cons.prems])
  from Cons.IH [OF p(2)] p(1) assms(2) show ?case by simp
qed simp

lemma pay_shards_paid:
  assumes "pay_shards E header tot srt xs acc s = Some (acc1, t)"
    and "h \<Longrightarrow> 0 \<le> srt \<and> (xs \<noteq> [] \<longrightarrow> 0 < tot) \<and> (\<forall>x \<in> set xs. 0 \<le> GasFee x)"
  shows "paid h (acc1 - acc) s t"
  using assms
proof (induction xs arbitrary: acc s)
  case (Cons x xs)
  obtain pc lead where p: "big_Div (GasFee x * 100) tot = Some pc"
    "pay_shards E header tot srt xs (acc + srt * pc div 100) (AddBalance E lead (srt * pc div 100) s) = Some (acc1, t)"
    by (rule pay_shards_step [OF Cons.prems(1)])
  have "0 \<le> srt * pc div 100" if h
    using Cons.prems(2) [OF that] p(1) by (auto simp: pos_imp_zdiv_nonneg_iff)
  from paid_AddBalance [OF this] have "paid h (srt * pc div 100) s (AddBalance E lead (srt * pc div 100) s)" .
  from paid_trans [OF this Cons.IH [OF p(2)]] Cons.prems(2) show ?case by simp
qed simp

lemma pay_backups_paid:
  assumes "pay_backups E average bs tot s = (rest, t)" "h \<Longrightarrow> 0 \<le> average"
  shows "paid h (tot - rest) s t" "rest = tot - int (length bs) * average"
  using assms
proof (induction bs arbitrary: tot s)
  case (Cons b bs)
  case 1
  have "paid h (tot - average - rest) (AddBalance E (BytesToAddress b) average s) t"
    by (rule Cons.IH(1)) (use 1 in simp_all)
  from paid_trans [OF paid_AddBalance [OF 1(2)] this] show ?case by simp
next
  case (Cons b bs)
  case 2
  then show ?case using Cons.IH(2) by (simp add: algebra_simps)
qed simp_all

lemma share_le:
  fixes n m k :: int
  assumes "0 \<le> n" "0 \<le> m" "0 < k"
  shows "0 \<le> m * 10 div (k + 10 * n)" "n * (m * 10 div (k + 10 * n)) \<le> m"
proof -
  let ?q = "m * 10 div (k + 10 * n)"
  show q: "0 \<le> ?q" using assms by (simp add: pos_imp_zdiv_nonneg_iff)
  have "?q * (k + 10 * n) \<le> m * 10" using assms by (simp add: minus_mod_eq_div_mult [symmetric])
  moreover have "0 \<le> ?q * k" using q assms by simp
  ultimately show "n * ?q \<le> m" by (simp add: algebra_simps)
qed

lemma pay_DS_paid:
  assumes "pay_DS E header tot s = Some t" "h \<Longrightarrow> 0 \<le> tot"
  shows "paid h tot s t"
proof -
  obtain b bs where ds: "h_DSCoinBase header = b # bs"
    using assms(1) by (cases "h_DSCoinBase header") (auto simp: pay_DS_def Let_def bind_eq_Some_conv split: prod.splits)
  define average where "average = tot * 10 div (11 + 10 * int (length bs))"
  obtain rest s1 where p: "pay_backups E average bs tot s = (rest, s1)" by fastforce
  have t: "t = AddBalance E (BytesToAddress b) rest s1"
    using assms(1) p by (simp add: pay_DS_def ds average_def)
  have a: "0 \<le> average" "int (length bs) * average \<le> tot" if h
    using share_le [of "int (length bs)" tot 11] assms(2) [OF that] by (simp_all add: average_def)
  note b = pay_backups_paid [OF p, of h]
  have "paid h rest s1 t" unfolding t by (rule paid_AddBalance) (use a b(2) [OF a(1)] in simp)
  from paid_trans [OF b(1) [OF a(1)] this] show ?thesis by simp
qed

lemma sum_div_le: "0 < m \<Longrightarrow> (\<Sum>x \<leftarrow> xs. f x div m) \<le> (\<Sum>x \<leftarrow> xs. f x) div m" for m :: int
proof (induction xs)
  case (Cons x xs)
  have "f x div m + (\<Sum>x \<leftarrow> xs. f x) div m \<le> (f x + (\<Sum>x \<leftarrow> xs. f x)) div m"
    unfolding div_add1_eq [of "f x" _ m] using Cons.prems by (simp add: pos_imp_zdiv_nonneg_iff)
  with Cons show ?case by simp
qed simp

text \<open>The percentages round down, so that something is left for the last shard.\<close>

lemma shards_share_le:
  assumes "0 < tot" "0 \<le> srt" "\<forall>x \<in> set xs. 0 \<le> GasFee x" "(\<Sum>x \<leftarrow> xs. GasFee x) \<le> tot"
  shows "(\<Sum>x \<leftarrow> xs. (srt * (GasFee x * 100 div tot)) div 100) \<le> srt"
proof -
  have "(\<Sum>x \<leftarrow> xs. GasFee x * 100) = (\<Sum>x \<leftarrow> xs. GasFee x) * 100" by (rule sum_list_mult_const)
  then have "(\<Sum>x \<leftarrow> xs. GasFee x * 100 div tot) \<le> (tot * 100) div tot"
    using sum_div_le [OF assms(1), of "\<lambda>x. GasFee x * 100" xs] zdiv_mono1 [of "(\<Sum>x \<leftarrow> xs. GasFee x) * 100" "tot * 100" tot]
      assms(1,4) by simp
  then have pc: "(\<Sum>x \<leftarrow> xs. GasFee x * 100 div tot) \<le> 100" using assms(1) by simp
  have "(\<Sum>x \<leftarrow> xs. (srt * (GasFee x * 100 div tot)) div 100) \<le> (\<Sum>x \<leftarrow> xs. srt * (GasFee x * 100 div tot)) div 100"
    by (rule sum_div_le) simp
  also have "\<dots> = srt * (\<Sum>x \<leftarrow> xs. GasFee x * 100 div tot) div 100" by (simp add: sum_list_const_mult)
  also have "\<dots> \<le> (srt * 100) div 100" by (rule zdiv_mono1) (use pc assms(2) in \<open>simp_all add: mult_left_mono\<close>)
  finally show ?thesis by simp
qed

definition fees_add_up :: "(u32 \<rightharpoonup> int) \<Rightarrow> int \<Rightarrow> bool" where
  "fees_add_up fees tot \<longleftrightarrow> (\<forall>v \<in> ran fees. 0 \<le> v) \<and> (\<Sum>k \<in> dom fees. the (fees k)) = tot"

definition walks :: "chain_env \<Rightarrow> (u32 \<rightharpoonup> int) \<Rightarrow> bool" where
  "walks ce fees \<longleftrightarrow> distinct (shard_walk ce fees) \<and> set (shard_walk ce fees) = dom fees"

lemma sortByGasFee_spec:
  assumes "walks ce fees"
  defines "xs \<equiv> sortByGasFee ce fees"
  shows "ShardId ` set xs = dom fees" "length xs = card (dom fees)"
    "fees_add_up fees tot \<Longrightarrow> (\<Sum>x \<leftarrow> xs. GasFee x) = tot \<and> (\<forall>x \<in> set xs. 0 \<le> GasFee x)"
proof -
  let ?ks = "shard_walk ce fees" and ?r = "\<lambda>k. \<lparr>ShardId = k, GasFee = shard_fee fees k\<rparr>"
  have m: "mset xs = mset (map ?r ?ks)" by (simp add: xs_def sortByGasFee_def)
  have set: "set xs = ?r ` dom fees" using assms(1) by (simp add: xs_def sortByGasFee_def walks_def)
  show "ShardId ` set xs = dom fees" by (auto simp: set image_image)
  show "length xs = card (dom fees)"
    using mset_eq_length [OF m] assms(1) distinct_card [of ?ks] by (simp add: walks_def)
  assume f: "fees_add_up fees tot"
  have "sum_mset (mset (map GasFee xs)) = sum_mset (mset (map GasFee (map ?r ?ks)))" by (simp only: mset_map m)
  then have "(\<Sum>x \<leftarrow> xs. GasFee x) = (\<Sum>x \<leftarrow> map ?r ?ks. GasFee x)" by (simp only: sum_mset_sum_list)
  also have "\<dots> = (\<Sum>k \<in> dom fees. shard_fee fees k)"
    using assms(1) by (simp add: walks_def o_def sum_list_distinct_conv_sum_set)
  also have "\<dots> = tot" using f by (auto simp: fees_add_up_def shard_fee_def intro: sum.cong)
  finally show "(\<Sum>x \<leftarrow> xs. GasFee x) = tot \<and> (\<forall>x \<in> set xs. 0 \<le> GasFee x)"
    using f by (auto simp: set fees_add_up_def shard_fee_def ran_def)
qed

text \<open>The shards and the directory share the reward.\<close>

lemma assignRwards_paid:
  assumes "assignRwards ce header tot fees s = Some t" "walks ce fees" "fees_add_up fees tot"
  shows "paid True (tot + yieldReward (h_BlockNumber header)) s t"
proof -
  define xs where "xs = sortByGasFee ce fees"
  define all where "all = tot + yieldReward (h_BlockNumber header)"
  note xs = sortByGasFee_spec [OF assms(2), folded xs_def] sortByGasFee_spec(3) [OF assms(2,3), folded xs_def]
  have "0 \<le> tot" using xs(4) sum_list_nonneg [of "map GasFee xs"] by auto
  then have all: "0 \<le> all" by (simp add: all_def yieldReward_def)
  show ?thesis
  proof (cases xs rule: rev_cases)
    case Nil
    then show ?thesis using assms(1) pay_DS_paid [of "ceE ce" header all s t True] all
      by (simp add: assignRwards_def xs_def [symmetric] all_def [symmetric] Let_def)
  next
    case (snoc ys y)
    let ?n = "int (length xs)"
    define srt where "srt = ?n * (all * 10 div (11 + 10 * ?n))"
    have srt: "0 \<le> srt" "srt \<le> all" using share_le [of ?n all 11] all by (simp_all add: srt_def)
    from snoc assms(1) obtain acc s1 lead where p: "pay_shards (ceE ce) header tot srt ys 0 s = Some (acc, s1)"
      and d: "pay_DS (ceE ce) header (all - srt) (AddBalance (ceE ce) lead (srt - acc) s1) = Some t"
      by (auto simp: assignRwards_def xs_def [symmetric] all_def [symmetric] srt_def Let_def bind_eq_Some_conv)
    have fees: "0 \<le> GasFee y" "\<forall>x \<in> set ys. 0 \<le> GasFee x" "(\<Sum>x \<leftarrow> ys. GasFee x) + GasFee y = tot"
      using xs(4) by (simp_all add: snoc)
    have pos: "0 < tot" if "ys \<noteq> []"
      using that p \<open>0 \<le> tot\<close> by (cases ys) (auto simp: big_Div_def split: if_splits)
    have "acc \<le> srt"
    proof (cases "ys = []")
      case True
      then show ?thesis using p srt by simp
    next
      case False
      have "(\<Sum>x \<leftarrow> ys. GasFee x) \<le> tot" using fees by simp
      from shards_share_le [OF pos [OF False] srt(1) fees(2) this] pay_shards_sum [OF p pos [OF False]]
      show ?thesis by simp
    qed
    then have "paid True (srt - acc) s1 (AddBalance (ceE ce) lead (srt - acc) s1)" by (intro paid_AddBalance) simp
    note r = paid_trans [OF pay_shards_paid [OF p, of True] paid_trans [OF this pay_DS_paid [OF d]]]
    show ?thesis using r srt pos fees(2) by (simp add: all_def)
  qed
qed

text \<open>
  C25. The rewards of a block are exactly its fees and the yield of its height. Whatever order
  the shards are walked in, when the rewards are assigned the sum of all balances grows by
  the fees and the yield together, no coin is lost to rounding, and no account loses.
\<close>

theorem rewards_add_up:
  assumes "assignRwards ce header tot fees s = Some t" "walks ce fees" "fees_add_up fees tot" "sdb_inv s"
  shows "coins t = coins s + tot + yieldReward (h_BlockNumber header) \<and> (\<forall>b. balance b s \<le> balance b t) \<and> sdb_inv t"
  using assignRwards_paid [OF assms(1-3)] assms(4) by (simp add: paid_def)

lemma pay_shards_None:
  "pay_shards E header tot srt xs acc s = None \<longleftrightarrow>
     xs \<noteq> [] \<and> (tot = 0 \<or> (\<exists>x \<in> set xs. lead_of header (ShardId x) = None))"
proof (induction xs arbitrary: acc s)
  case (Cons x xs)
  have d: "big_Div y 100 = Some (y div 100)" "big_Div y tot = None \<longleftrightarrow> tot = 0" for y
    by (simp_all add: big_Div_def)
  show ?case
    by (cases "big_Div (GasFee x * 100) tot"; cases "lead_of header (ShardId x)")
       (use Cons.IH d in \<open>auto simp: d\<close>)
qed simp

lemma pay_DS_None: "pay_DS E header tot s = None \<longleftrightarrow> h_DSCoinBase header = []"
  by (cases "h_DSCoinBase header") (auto simp: pay_DS_def Let_def bind_eq_None_conv split: prod.splits option.splits)

text \<open>
  C26. When assigning the rewards panics: exactly when the directory is empty, when a shard
  with fees has no leader in the header, or when two or more shards have used gas and the
  fees are zero in all, which a block of transactions with gas price zero reaches.
\<close>

theorem rewards_panic_iff:
  assumes "walks ce fees"
  shows "assignRwards ce header tot fees s = None \<longleftrightarrow>
    h_DSCoinBase header = [] \<or> (\<exists>k \<in> dom fees. length (h_ShardingLeadCoinBase header) \<le> unat k) \<or>
    tot = 0 \<and> 2 \<le> card (dom fees)"
proof -
  define xs where "xs = sortByGasFee ce fees"
  note xs = sortByGasFee_spec(1,2) [OF assms, folded xs_def]
  have lead: "(\<exists>x \<in> set xs. lead_of header (ShardId x) = None) \<longleftrightarrow>
      (\<exists>k \<in> dom fees. length (h_ShardingLeadCoinBase header) \<le> unat k)"
    unfolding xs(1) [symmetric] by (auto simp: lead_of_def not_less)
  show ?thesis
  proof (cases xs rule: rev_cases)
    case Nil
    with xs show ?thesis by (simp add: assignRwards_def xs_def [symmetric] Let_def pay_DS_None)
  next
    case (snoc ys y)
    obtain srt d where eq: "assignRwards ce header tot fees s = pay_shards (ceE ce) header tot srt ys 0 s \<bind>
        (\<lambda>(acc, s1). lead_of header (ShardId y) \<bind>
          (\<lambda>lead. pay_DS (ceE ce) header d (AddBalance (ceE ce) lead (srt - acc) s1)))"
      by (simp add: assignRwards_def xs_def [symmetric] snoc Let_def)
    have "assignRwards ce header tot fees s = None \<longleftrightarrow>
        (ys \<noteq> [] \<and> (tot = 0 \<or> (\<exists>x \<in> set ys. lead_of header (ShardId x) = None))) \<or>
        lead_of header (ShardId y) = None \<or> h_DSCoinBase header = []"
      using pay_shards_None [of "ceE ce" header tot srt ys 0 s] unfolding eq
      by (cases "pay_shards (ceE ce) header tot srt ys 0 s"; cases "lead_of header (ShardId y)") (auto simp: pay_DS_None)
    moreover have "2 \<le> card (dom fees) \<longleftrightarrow> ys \<noteq> []" unfolding xs(2) [symmetric] snoc by (cases ys) simp_all
    ultimately show ?thesis unfolding lead [symmetric] snoc by auto
  qed
qed

section \<open>Transactions one by one\<close>

lemma NewEVMContext_env:
  assumes "NewEVMContext ce msg header author = Some env"
  shows "sdbE env = ceE ce" "GasPrice env = msg_gasPrice msg"
  using assms by (auto simp: NewEVMContext_def bind_eq_Some_conv)

text \<open>What a database is between the transactions of a block.\<close>

definition sound_db :: "sdb_env \<Rightarrow> stateDB \<Rightarrow> bool" where
  "sound_db E s \<longleftrightarrow> sdb_inv s \<and> solvent s \<and> settled E s"

lemma ApplyTransaction_spec:
  assumes "ApplyTransaction n ce author gp s header tx used0 = Some (Some (Inr (r, gas), gp1, used, t))"
    and "sound_db (ceE ce) s" "10000000 < n"
  shows "sound_db (ceE ce) t" "coins t + uint gas \<le> coins s" "unat gp1 + unat gas = unat gp"
    "used = used0 + gas" "r_GasUsed r = gas" "r_CumulativeGasUsed r = used"
proof -
  let ?msg = "AsMsg ce tx"
  from assms(1) obtain env ret failed st where e: "NewEVMContext ce ?msg header author = Some env"
    and m: "TransitionDb n env (NewStateTransition (NewEVM s) ?msg gp) = Some (Some ((ret, gas, failed, None), st))"
    and f: "Finalise (sdbE env) True (fst (dirty_walk ce (st_state st))) (snd (dirty_walk ce (st_state st))) (st_state st) = Some t"
    and r: "gp1 = st_gp st" "used = used0 + gas" "r_GasUsed r = gas" "r_CumulativeGasUsed r = used"
    by (auto simp: ApplyTransaction_def ApplyMessage_def and_then_def Let_def case_prod_unfold NewReceipt_def bind_eq_Some_conv
        split: option.splits)
  have msg: "msg_gasLimit ?msg = 10000000" "msg_gasPrice ?msg = 1" "0 \<le> msg_amount ?msg"
    by (simp_all add: AsMsg_def)
  note env = NewEVMContext_env [OF e]
  have s: "sdb_inv (sdb (NewEVM s))" "solvent (sdb (NewEVM s))" "\<not> readOnly (NewEVM s)" "sdb (NewEVM s) = s" "settled (sdbE env) s"
    using assms(2) by (simp_all add: NewEVM_def sound_db_def env)
  note c = accepted_coins [OF m _ s(1,2,3), unfolded env msg]
  have n: "unat (10000000 :: u64) < n" using assms(3) by simp
  have "settled (sdbE env) (st_state st)"
    using settled_live [OF live_runs [OF c(6) s(1)] ] s(4,5) n msg(3) env by simp
  note k = Finalise_keeps [OF f c(3) this]
  show "sound_db (ceE ce) t" "coins t + uint gas \<le> coins s" "unat gp1 + unat gas = unat gp"
    using k c n msg(3) s(4) by (simp_all add: sound_db_def env thrift_def r)
  show "used = used0 + gas" "r_GasUsed r = gas" "r_CumulativeGasUsed r = used" by (fact r)+
qed

lemma Prepare_sound: "sound_db E s \<Longrightarrow> sound_db E (Prepare th bh h i s) \<and> coins (Prepare th bh h i s) = coins s"
  using runs_inv [OF runs_op [of E "PrepareOp th bh h i" s]] settled_live [of s "Prepare th bh h i s" E]
    coins_cong [of "Prepare th bh h i s" s] solvent_cong [of "Prepare th bh h i s" s]
  by (simp add: sound_db_def) (simp add: Prepare_def)

definition gas_sum :: "Receipt list \<Rightarrow> nat" where
  "gas_sum rs = (\<Sum>r \<leftarrow> rs. unat (r_GasUsed r))"

definition fee_sum :: "Transaction list \<Rightarrow> Receipt list \<Rightarrow> int" where
  "fee_sum txs rs = (\<Sum>(tx, r) \<leftarrow> zip txs rs. uint (r_GasUsed r * tx_GasPrice tx))"

text \<open>The shards that transactions can belong to, whose fees Go walks in some order.\<close>

definition shards_of :: "chain_env \<Rightarrow> u32 set" where
  "shards_of ce = {k. \<exists>tx dsNum. GetShardId ce tx dsNum = Some k}"

definition walks_shards :: "chain_env \<Rightarrow> bool" where
  "walks_shards ce \<longleftrightarrow> (\<forall>fees. dom fees \<subseteq> shards_of ce \<longrightarrow> walks ce fees)"

text \<open>The state of the processor after the transactions \<open>txs\<close>.\<close>

definition tally :: "chain_env \<Rightarrow> stateDB \<Rightarrow> Transaction list \<Rightarrow> Processing \<Rightarrow> bool" where
  "tally ce s0 txs p \<longleftrightarrow> sound_db (ceE ce) (pr_state p) \<and>
     fees_add_up (pr_feeShards p) (pr_feeTotal p) \<and> dom (pr_feeShards p) \<subseteq> shards_of ce \<and>
     length (pr_receipts p) = length txs \<and> pr_feeTotal p = fee_sum txs (pr_receipts p) \<and>
     coins (pr_state p) + int (gas_sum (pr_receipts p)) \<le> coins s0 \<and>
     unat (pr_gp p) + gas_sum (pr_receipts p) = 10000000000000000 \<and>
     unat (pr_usedGas p) = gas_sum (pr_receipts p) \<and>
     (\<forall>i < length (pr_receipts p). unat (r_CumulativeGasUsed (pr_receipts p ! i)) = gas_sum (take (Suc i) (pr_receipts p)))"

lemma fees_add_up_step:
  assumes "fees_add_up fees tot" "0 \<le> x"
  shows "fees_add_up (fees(k \<mapsto> shard_fee fees k + x)) (tot + x)"
proof -
  let ?y = "shard_fee fees k"
  let ?g = "fees(k \<mapsto> ?y + x)"
  have "0 \<le> ?y" using assms(1) by (auto simp: fees_add_up_def shard_fee_def ran_def split: option.splits)
  then have r: "\<forall>v \<in> ran ?g. 0 \<le> v" using assms by (auto simp: fees_add_up_def ran_def split: if_splits)
  have d: "dom ?g = insert k (dom fees - {k})" by auto
  have "(\<Sum>j \<in> dom fees - {k}. the (?g j)) = (\<Sum>j \<in> dom fees - {k}. the (fees j))" by (rule sum.cong) auto
  also have "\<dots> = tot - ?y"
    using assms(1) by (cases "fees k") (auto simp: fees_add_up_def shard_fee_def sum_diff1 domI)
  finally have "(\<Sum>j \<in> insert k (dom fees - {k}). the (?g j)) = ?y + x + (tot - ?y)"
    by (subst sum.insert) (simp_all del: fun_upd_apply, simp)
  with r show ?thesis unfolding fees_add_up_def d by simp
qed

lemma process_tx_tally:
  assumes "process_tx n ce block i tx p = Some (Some (None, p1))" "tally ce s0 txs p" "10000000 < n"
  shows "tally ce s0 (txs @ [tx]) p1"
proof -
  let ?s1 = "Prepare (TxHashOf ce tx) (BlockHashOf ce block) (h_BlockNumber (b_Header block)) i (pr_state p)"
  from assms(1) obtain r gas gp used t k where
    a: "ApplyTransaction n ce None (pr_gp p) ?s1 (b_Header block) tx (pr_usedGas p) = Some (Some (Inr (r, gas), gp, used, t))"
    and p1: "p1 = p\<lparr>pr_gp := gp, pr_usedGas := used, pr_state := t, pr_feeTotal := pr_feeTotal p + uint (gas * tx_GasPrice tx),
      pr_feeShards := (pr_feeShards p)(k \<mapsto> shard_fee (pr_feeShards p) k + uint (gas * tx_GasPrice tx)),
      pr_receipts := pr_receipts p @ [r], pr_allLogs := pr_allLogs p @ r_Logs r\<rparr>"
    and k: "GetShardId ce tx (h_DSBlockNum (b_Header block)) = Some k"
    by (auto simp: process_tx_def and_then_def Let_def bind_eq_Some_conv split: option.splits sum.splits)
  from Prepare_sound [of "ceE ce" "pr_state p"] assms(2) have s1: "sound_db (ceE ce) ?s1" "coins ?s1 = coins (pr_state p)" by (simp_all add: tally_def)
  note r = ApplyTransaction_spec [OF a s1(1) assms(3)]
  have g: "gas_sum (pr_receipts p @ [r]) = gas_sum (pr_receipts p) + unat gas" by (simp add: gas_sum_def r(5))
  have "unat (pr_usedGas p) + unat gas < 2 ^ 64" using assms(2) r(3) by (simp add: tally_def)
  then have u: "unat used = unat (pr_usedGas p) + unat gas" by (simp add: r(4) unat_word_ariths)
  have cum: "unat (r_CumulativeGasUsed ((pr_receipts p @ [r]) ! j)) = gas_sum (take (Suc j) (pr_receipts p @ [r]))"
    if "j < Suc (length (pr_receipts p))" for j
    using that assms(2) g r(6) u by (auto simp: tally_def less_Suc_eq nth_append)
  have "int (unat gas) = uint gas" by simp
  then show ?thesis
    using assms(2) r(1,2,3) s1(2) g u cum fees_add_up_step [of "pr_feeShards p" "pr_feeTotal p" "uint (gas * tx_GasPrice tx)" k]
    k by (auto simp: tally_def p1 fee_sum_def r(5) shards_of_def)
qed

lemma process_txs_tally:
  assumes "process_txs n ce block i todo p = Some (Some (None, p1))" "tally ce s0 txs p" "10000000 < n"
  shows "tally ce s0 (txs @ todo) p1"
  using assms(1,2)
proof (induction todo arbitrary: i p txs)
  case (Cons tx todo)
  then obtain q where q: "process_tx n ce block i tx p = Some (Some (None, q))"
    "process_txs n ce block (i + 1) todo q = Some (Some (None, p1))"
    by (auto simp: and_then_def split: option.splits)
  from Cons.IH [OF q(2) process_tx_tally [OF q(1) Cons.prems(2) assms(3)]] show ?case by simp
qed simp

lemma Process_tally:
  assumes "Process n ce block s = Some (Some (Inr (rs, ls, used), t))" "sound_db (ceE ce) s" "10000000 < n"
  obtains p where "tally ce s (b_Transactions block) p" "pr_receipts p = rs" "pr_usedGas p = used"
    "assignRwards ce (b_Header block) (pr_feeTotal p) (pr_feeShards p) (pr_state p) = Some t"
proof -
  from assms(1) obtain p where p: "process_txs n ce block 0 (b_Transactions block) (start s) = Some (Some (None, p))"
    "pr_receipts p = rs" "pr_usedGas p = used" "assignRwards ce (b_Header block) (pr_feeTotal p) (pr_feeShards p) (pr_state p) = Some t"
    by (auto simp: Process_def and_then_def bind_eq_Some_conv split: option.splits)
  have "tally ce s [] (start s)" using assms(2) by (simp add: tally_def start_def fees_add_up_def gas_sum_def fee_sum_def)
  from process_txs_tally [OF p(1) this assms(3)] p show ?thesis by (intro that [of p]) simp_all
qed

text \<open>
  C27. The gas of a block is accounted for. When a block is processed there is a receipt for
  every transaction, the gas used by the block is the sum of the gas of the receipts and at
  most the pool of \<^verbatim>\<open>10000000000000000\<close>, so that the 64-bit sum does not wrap, and the
  cumulative gas of each receipt is the sum up to it.
\<close>

theorem block_gas_adds_up:
  assumes "Process n ce block s = Some (Some (Inr (rs, ls, used), t))" "sound_db (ceE ce) s" "10000000 < n"
  shows "length rs = length (b_Transactions block) \<and> unat used = (\<Sum>r \<leftarrow> rs. unat (r_GasUsed r)) \<and>
    unat used \<le> 10000000000000000 \<and>
    (\<forall>i < length rs. unat (r_CumulativeGasUsed (rs ! i)) = (\<Sum>r \<leftarrow> take (Suc i) rs. unat (r_GasUsed r)))"
  by (rule Process_tally [OF assms]) (auto simp: tally_def gas_sum_def)

text \<open>
  C28. The coins a block creates. Processing a block leaves no account overdrawn, and the sum
  of all balances grows by at most the yield of its height and, for every transaction, the
  difference between the fee paid out for it, its gas at its own gas price in 64 bits, and
  the fee its sender paid, its gas at price one.
\<close>

theorem block_coins_bounded:
  assumes "Process n ce block s = Some (Some (Inr (rs, ls, used), t))" "sound_db (ceE ce) s" "10000000 < n"
    and "walks_shards ce"
  shows "solvent t \<and> coins t \<le> coins s + yieldReward (h_BlockNumber (b_Header block)) +
    (\<Sum>(tx, r) \<leftarrow> zip (b_Transactions block) rs. uint (r_GasUsed r * tx_GasPrice tx) - uint (r_GasUsed r))"
proof (rule Process_tally [OF assms(1-3)])
  fix p
  assume p: "tally ce s (b_Transactions block) p" "pr_receipts p = rs"
    "assignRwards ce (b_Header block) (pr_feeTotal p) (pr_feeShards p) (pr_state p) = Some t"
  have "paid True (pr_feeTotal p + yieldReward (h_BlockNumber (b_Header block))) (pr_state p) t"
    by (rule assignRwards_paid [OF p(3)]) (use assms(4) p(1) in \<open>auto simp: tally_def walks_shards_def\<close>)
  with p(1) have t: "coins t = coins (pr_state p) + (pr_feeTotal p + yieldReward (h_BlockNumber (b_Header block)))"
    "\<forall>b. balance b (pr_state p) \<le> balance b t" "solvent (pr_state p)"
    by (simp_all add: paid_def tally_def sound_db_def)
  have "(\<Sum>(tx, r) \<leftarrow> zip txs rs. uint (r_GasUsed r * tx_GasPrice tx) - uint (r_GasUsed r)) = fee_sum txs rs - int (gas_sum rs)"
    if "length txs = length rs" for txs
    using that by (induction txs rs rule: list_induct2) (simp_all add: fee_sum_def gas_sum_def)
  moreover have "length (b_Transactions block) = length rs" using p(1,2) by (simp add: tally_def)
  ultimately have "coins t \<le> coins s + yieldReward (h_BlockNumber (b_Header block)) +
    (\<Sum>(tx, r) \<leftarrow> zip (b_Transactions block) rs. uint (r_GasUsed r * tx_GasPrice tx) - uint (r_GasUsed r))"
    using t(1) p(1,2) by (simp add: tally_def)
  moreover have "solvent t" using t(2,3) unfolding solvent_def by (meson order_trans)
  ultimately show ?thesis by blast
qed

section \<open>Processing ends\<close>

lemma upto_TransitionDb:
  assumes "n \<le> m"
  shows "upto (TransitionDb n env st) (TransitionDb m env st)"
proof -
  note u = calls_upto [OF interp_upto [OF assms, of env]]
  have "upto (run_message n env st) (run_message m env st)" for st
    by (auto simp: run_message_def Let_def case_prod_unfold intro!: upto_and_then u)
  then show ?thesis
    by (auto simp: TransitionDb_def intro!: upto_and_then split: option.split prod.split)
qed

abbreviation arrives :: "'a option option \<Rightarrow> bool" where
  "arrives \<equiv> ends (\<lambda>_. True)"

lemma arrives_iff: "arrives x \<longleftrightarrow> x \<noteq> None"
  by (auto simp: ends_def split: option.splits)

lemma arrives_and_then: "arrives x \<Longrightarrow> (\<And>y. arrives (f y)) \<Longrightarrow> arrives (and_then x f)"
  by (rule ends_and_then)

lemma TransitionDb_arrives:
  assumes "unat (msg_gasLimit msg) < n"
  shows "arrives (TransitionDb n env (NewStateTransition evm msg gp))"
proof -
  have r: "arrives (run_message n env (bought E evm msg gp g s))" if "g \<le> msg_gasLimit msg" for E g s
    by (rule ends_mono [OF run_message_ends]) (use that assms in \<open>simp_all add: unat_sub word_le_nat_alt\<close>)
  show ?thesis
    using TransitionDb_eq [of env evm n msg gp] r
    by (auto simp: outcome_def Let_def failed_transition_def not_less ends_Some intro!: arrives_and_then split: option.split prod.split)
qed

lemma process_tx_arrives:
  assumes "10000000 < n"
  shows "arrives (process_tx n ce block i tx p)"
proof -
  have "unat (msg_gasLimit (AsMsg ce tx)) < n" using assms by (simp add: AsMsg_def)
  from TransitionDb_arrives [OF this] show ?thesis
    by (auto simp: process_tx_def ApplyTransaction_def ApplyMessage_def Let_def case_prod_unfold ends_Some
        intro!: arrives_and_then split: option.split sum.split)
qed

lemma process_txs_arrives: "10000000 < n \<Longrightarrow> arrives (process_txs n ce block i txs p)"
  by (induction txs arbitrary: i p)
     (auto intro!: arrives_and_then process_tx_arrives split: option.split)

lemma process_txs_upto: "n \<le> m \<Longrightarrow> upto (process_txs n ce block i txs p) (process_txs m ce block i txs p)"
proof (induction txs arbitrary: i p)
  case (Cons tx txs)
  have "upto (process_tx n ce block i tx p) (process_tx m ce block i tx p)"
    using upto_TransitionDb [OF Cons.prems]
    by (auto simp: process_tx_def ApplyTransaction_def ApplyMessage_def Let_def intro!: upto_and_then split: option.split)
  with Cons show ?case by (auto intro!: upto_and_then split: option.split)
qed simp

text \<open>
  C29. Processing a block ends: whatever its transactions run, ten million steps per path of
  nested calls are enough, and the outcome is the same with every larger bound.
\<close>

theorem processing_ends: "\<exists>r. \<forall>n > 10000000. Process n ce block s = Some r"
proof -
  have "arrives (Process n ce block s)" if "10000000 < n" for n
    using process_txs_arrives [OF that] by (auto simp: Process_def ends_Some intro!: arrives_and_then split: option.split)
  then have "\<exists>r. Process 10000001 ce block s = Some r" by (simp add: arrives_iff)
  moreover have "upto (Process 10000001 ce block s) (Process n ce block s)" if "10000000 < n" for n
    using that process_txs_upto [of 10000001 n] by (auto simp: Process_def intro!: upto_and_then split: option.split)
  ultimately show ?thesis unfolding upto_def by (metis option.distinct(1))
qed

section \<open>A block\<close>

text \<open>Account 7 sends 5 coins to account 8; the leaders are the accounts 20, 21 and 22.\<close>

definition demo_tx :: Transaction where
  "demo_tx = \<lparr>tx_Version = 1, tx_Nonce = 0, tx_SenderPubKey = [4], tx_ToAddr = Some [8], tx_Amount = 5,
     tx_Signature = [], tx_GasPrice = 3, tx_GasLimit = 0, tx_Code = [], tx_Data = [], tx_Timestamp = None\<rparr>"

definition demo_block :: TxBlock where
  "demo_block = \<lparr>b_Header = \<lparr>h_Timestamp = Some 0, h_PreviousBlockHash = [], h_BlockNumber = 1, h_DSCoinBase = [[20], [21]],
     h_ShardingLeadCoinBase = [[22]], h_GasLimit = 0, h_DSBlockNum = 0, h_TxNum = 1\<rparr>, b_Transactions = [demo_tx]\<rparr>"

definition demo_chain :: chain_env where
  "demo_chain = \<lparr>vm_base = demo_vm_env, Unmarshal = (\<lambda>_. Some (0, 0)), Marshal = (\<lambda>_. [4]), TxHashOf = (\<lambda>_. 1),
     BlockHashOf = (\<lambda>_. 2), HashFn = (\<lambda>_ _. 0), ShardingSum = (\<lambda>_. Some 0), dirty_walk = (\<lambda>_. (\<lambda>_. [], [7, 8])),
     shard_walk = (\<lambda>fees. if fees 0 = None then [] else [0])\<rparr>"

definition demo_genesis :: stateDB where
  "demo_genesis = AddBalance demo_env 7 20000000 (New empty_trie)"

lemma demo_genesis_sound: "sound_db (ceE demo_chain) demo_genesis"
proof -
  have "sdb_inv demo_genesis" unfolding demo_genesis_def by (rule runs_inv [OF runs_ops(1) sdb_inv_New])
  moreover have "settled demo_env demo_genesis" unfolding demo_genesis_def
    by (rule settled_live [OF live_writes(1) settled_New]) (simp add: empty_trie_def)
  moreover have "solvent demo_genesis"
    by (simp add: solvent_def demo_genesis_def balance_AddBalance sdb_inv_wf sdb_inv_New)
       (simp add: balance_lookup lookup_New stored_def empty_trie_def)
  ultimately show ?thesis by (simp add: sound_db_def demo_chain_def demo_vm_env_def)
qed

lemma demo_walks: "walks_shards demo_chain"
proof -
  have "shards_of demo_chain = {0}" by (auto simp: shards_of_def GetShardId_def demo_chain_def)
  then show ?thesis by (auto simp: walks_shards_def walks_def demo_chain_def)
qed

lemma demo_block_run:
  "case Process n demo_chain demo_block demo_genesis of
     Some (Some (Inr (rs, ls, used), t)) \<Rightarrow> used = 21000 | _ \<Rightarrow> False"
  by code_simp

lemma demo_block_fields: "b_Transactions demo_block = [demo_tx]" "h_BlockNumber (b_Header demo_block) = 1"
  by (simp_all add: demo_block_def)

lemma demo_block_result:
  obtains rs ls t where "Process 10000001 demo_chain demo_block demo_genesis = Some (Some (Inr (rs, ls, 21000), t))"
  using demo_block_run [of 10000001] by (auto split: option.splits sum.splits prod.splits)

theorem processing_ends_witness:
  "\<exists>r. Process 10000001 demo_chain demo_block demo_genesis = Some r \<and> Process 20000000 demo_chain demo_block demo_genesis = Some r"
  using processing_ends [of demo_chain demo_block demo_genesis] by fastforce

theorem block_gas_adds_up_witness:
  "case Process 10000001 demo_chain demo_block demo_genesis of
     Some (Some (Inr (rs, ls, used), t)) \<Rightarrow> length rs = 1 \<and> (\<Sum>r \<leftarrow> rs. unat (r_GasUsed r)) = 21000
   | _ \<Rightarrow> False"
proof (rule demo_block_result)
  fix rs ls t
  assume r: "Process 10000001 demo_chain demo_block demo_genesis = Some (Some (Inr (rs, ls, 21000), t))"
  from block_gas_adds_up [OF r demo_genesis_sound] show ?thesis by (simp add: r demo_block_fields)
qed

theorem block_coins_bounded_witness:
  "case Process 10000001 demo_chain demo_block demo_genesis of
     Some (Some (Inr (rs, ls, used), t)) \<Rightarrow> solvent t \<and> coins t \<le> coins demo_genesis + yieldReward 1 +
       (\<Sum>(tx, r) \<leftarrow> zip [demo_tx] rs. uint (r_GasUsed r * tx_GasPrice tx) - uint (r_GasUsed r))
   | _ \<Rightarrow> False"
proof (rule demo_block_result)
  fix rs ls t
  assume r: "Process 10000001 demo_chain demo_block demo_genesis = Some (Some (Inr (rs, ls, 21000), t))"
  from block_coins_bounded [OF r demo_genesis_sound _ demo_walks] show ?thesis by (simp add: r demo_block_fields)
qed

definition demo_fees :: "u32 \<rightharpoonup> int" where
  "demo_fees = [0 \<mapsto> 63000]"

lemma demo_fees_facts: "walks demo_chain demo_fees" "fees_add_up demo_fees 63000"
  by (simp_all add: walks_def demo_chain_def demo_fees_def fees_add_up_def)

theorem rewards_add_up_witness:
  "case assignRwards demo_chain (b_Header demo_block) 63000 demo_fees demo_genesis of
     None \<Rightarrow> False
   | Some t \<Rightarrow> coins t = coins demo_genesis + 63000 + yieldReward 1 \<and> (\<forall>b. balance b demo_genesis \<le> balance b t) \<and> sdb_inv t"
proof -
  have "assignRwards demo_chain (b_Header demo_block) 63000 demo_fees demo_genesis \<noteq> None"
    by (simp add: assignRwards_def sortByGasFee_def demo_chain_def demo_fees_def demo_block_def lead_of_def pay_DS_def
        Let_def shard_fee_def split: prod.splits)
  then obtain t where t: "assignRwards demo_chain (b_Header demo_block) 63000 demo_fees demo_genesis = Some t" by blast
  from rewards_add_up [OF t demo_fees_facts] demo_genesis_sound show ?thesis
    by (simp add: t sound_db_def demo_block_fields)
qed

theorem rewards_panic_iff_witness:
  "assignRwards demo_chain ((b_Header demo_block)\<lparr>h_DSCoinBase := []\<rparr>) 63000 demo_fees demo_genesis = None"
  using rewards_panic_iff [OF demo_fees_facts(1), of "(b_Header demo_block)\<lparr>h_DSCoinBase := []\<rparr>" 63000 demo_genesis] by simp

end
