(* ===== verification/Trie_Encoding.thy ===== *)
theory Trie_Encoding
  imports Prelude
begin

unbundle bit_operations_syntax

text \<open>
  The key encodings of \<^verbatim>\<open>src/core/trie/encoding.go\<close>: the bytes of a key, its nibbles with an
  optional terminator, and the compact form of the nibbles that nodes are stored with. The
  theorems are the round trips between them.
\<close>

section \<open>Encodings\<close>

definition hasTerm :: "byte list \<Rightarrow> bool" where
  "hasTerm s \<longleftrightarrow> s \<noteq> [] \<and> last s = 16"

text \<open>The bytes are written into the buffer; \<^term>\<open>None\<close> is an index out of range.\<close>

fun decodeNibbles :: "byte list \<Rightarrow> byte list \<Rightarrow> byte list option" where
  "decodeNibbles [] bytes = Some bytes"
| "decodeNibbles [x] bytes = None"
| "decodeNibbles (x # y # nibbles) [] = None"
| "decodeNibbles (x # y # nibbles) (b # bytes) = map_option (Cons (push_bit 4 x OR y)) (decodeNibbles nibbles bytes)"

definition hexToCompact :: "byte list \<Rightarrow> byte list option" where
  "hexToCompact hex =
     (let terminator = (if hasTerm hex then 1 else 0 :: byte);
          hex = (if hasTerm hex then butlast hex else hex);
          buf = replicate (length hex div 2) 0;
          flag = push_bit 5 terminator in
      if odd (length hex) then map_option (Cons (flag OR push_bit 4 1 OR hd hex)) (decodeNibbles (tl hex) buf)
      else map_option (Cons flag) (decodeNibbles hex buf))"

definition keybytesToHex :: "byte list \<Rightarrow> byte list" where
  "keybytesToHex str = concat (map (\<lambda>b. [b div 16, b mod 16]) str) @ [16]"

definition compactToHex :: "byte list \<Rightarrow> byte list option" where
  "compactToHex compact =
     (let base = butlast (keybytesToHex compact) in
      if base = [] then None
      else (let base1 = (if hd base \<ge> 2 then base @ [16] else base); chop = 2 - (hd base AND 1) in
        Some (drop (unat chop) base1)))"

definition hexToKeybytes :: "byte list \<Rightarrow> byte list option" where
  "hexToKeybytes hex =
     (let hex = (if hasTerm hex then butlast hex else hex) in
      if odd (length hex) then None else decodeNibbles hex (replicate ((length hex + 1) div 2) 0))"

fun prefixLen :: "byte list \<Rightarrow> byte list \<Rightarrow> nat" where
  "prefixLen (x # xs) (y # ys) = (if x \<noteq> y then 0 else Suc (prefixLen xs ys))"
| "prefixLen _ _ = 0"

section \<open>Nibbles\<close>

definition nibbles :: "byte list \<Rightarrow> bool" where
  "nibbles xs \<longleftrightarrow> (\<forall>x \<in> set xs. x < 16)"

lemma nibbles_simps [simp]:
  "nibbles []" "nibbles (x # xs) \<longleftrightarrow> x < 16 \<and> nibbles xs" "nibbles (xs @ ys) \<longleftrightarrow> nibbles xs \<and> nibbles ys"
  by (auto simp: nibbles_def)

lemma nibble_bits:
  assumes "x < (16 :: byte)"
  shows "bit x n \<Longrightarrow> n < 4"
proof -
  have "unat (x mod 16) = unat x" using assms by (simp add: word_less_nat_alt unat_mod)
  then have "x mod 16 = x" by (rule unsigned_word_eqI)
  then have "take_bit 4 x = x" by (simp add: take_bit_eq_mod)
  then show "bit x n \<Longrightarrow> n < 4" by (metis bit_take_bit_iff)
qed

lemma join_nibbles:
  assumes "x < (16 :: byte)" "y < 16"
  shows "(push_bit 4 x OR y) div 16 = x" "(push_bit 4 x OR y) mod 16 = y"
proof -
  let ?b = "push_bit 4 x OR y"
  have d: "?b div 16 = drop_bit 4 ?b" "?b mod 16 = take_bit 4 ?b" by (simp_all add: drop_bit_eq_div take_bit_eq_mod)
  show "?b div 16 = x" "?b mod 16 = y"
    unfolding d using nibble_bits [OF assms(1)] nibble_bits [OF assms(2)]
    by (auto intro!: bit_word_eqI simp: bit_simps) (metis add_less_same_cancel1 not_less0)
qed

lemma split_byte: "push_bit 4 (b div 16) OR (b mod 16) = b" "b div 16 < 16" "b mod 16 < 16" for b :: byte
proof -
  have d: "b div 16 = drop_bit 4 b" "b mod 16 = take_bit 4 b" by (simp_all add: drop_bit_eq_div take_bit_eq_mod)
  show "push_bit 4 (b div 16) OR (b mod 16) = b"
    unfolding d by (rule bit_word_eqI) (auto simp: bit_simps)
  show "b div 16 < 16" "b mod 16 < 16"
    using unsigned_less [of b, where 'a = nat] by (simp_all add: word_less_nat_alt unat_div unat_mod)
qed

definition pairs :: "byte list \<Rightarrow> byte list" where
  "pairs bs = concat (map (\<lambda>b. [b div 16, b mod 16]) bs)"

lemma pairs_simps [simp]: "pairs [] = []" "pairs (b # bs) = b div 16 # b mod 16 # pairs bs" "length (pairs bs) = 2 * length bs"
  "pairs bs = [] \<longleftrightarrow> bs = []"
  by (induction bs) (auto simp: pairs_def)

lemma nibbles_pairs [simp]: "nibbles (pairs bs)"
  by (induction bs) (simp_all add: split_byte)

lemma keybytesToHex_eq: "keybytesToHex str = pairs str @ [16]"
  by (simp add: keybytesToHex_def pairs_def)

lemma decodeNibbles_pairs: "length buf = length bs \<Longrightarrow> decodeNibbles (pairs bs) buf = Some bs"
  by (induction buf bs rule: list_induct2) (simp_all add: split_byte)

lemma decodeNibbles_some:
  "nibbles hex \<Longrightarrow> length hex = 2 * length buf \<Longrightarrow> \<exists>bs. decodeNibbles hex buf = Some bs \<and> pairs bs = hex"
proof (induction hex buf rule: decodeNibbles.induct)
  case (4 x y ns b buf)
  then obtain bs where "decodeNibbles ns buf = Some bs" "pairs bs = ns" by auto
  with 4 show ?case by (simp add: join_nibbles)
qed simp_all

text \<open>A key in hex form: nibbles, and possibly the terminator after them.\<close>

definition hexkey :: "byte list \<Rightarrow> bool" where
  "hexkey hex \<longleftrightarrow> nibbles (if hasTerm hex then butlast hex else hex)"

lemma hasTerm_simps [simp]:
  "\<not> hasTerm []" "hasTerm (xs @ [x]) \<longleftrightarrow> x = 16" "nibbles xs \<Longrightarrow> \<not> hasTerm xs"
  by (simp_all add: hasTerm_def nibbles_def) (metis last_in_set order_less_irrefl)

lemma hexkey_cases:
  assumes "hexkey hex"
  obtains xs where "nibbles xs" "hex = xs" | xs where "nibbles xs" "hex = xs @ [16]"
proof (cases "hasTerm hex")
  case True
  then have "hex = butlast hex @ [16]" by (metis append_butlast_last_id hasTerm_def)
  with True assms that(2) show ?thesis by (simp add: hexkey_def)
qed (use assms that(1) in \<open>simp add: hexkey_def\<close>)

section \<open>Round trips\<close>

lemma compact_round_trip:
  assumes hex: "hexkey hex"
  shows "\<exists>c. hexToCompact hex = Some c \<and> compactToHex c = Some hex \<and>
      length c = (if hasTerm hex then length hex - 1 else length hex) div 2 + 1"
proof -
  define xs where "xs = (if hasTerm hex then butlast hex else hex)"
  define t :: byte where "t = (if hasTerm hex then 1 else 0)"
  have xs: "nibbles xs" using hex by (simp add: hexkey_def xs_def)
  have hx: "hex = (if hasTerm hex then xs @ [16] else xs)" by (metis append_butlast_last_id hasTerm_def xs_def)
  let ?n = "length xs div 2"
  show "\<exists>c. hexToCompact hex = Some c \<and> compactToHex c = Some hex \<and>
      length c = (if hasTerm hex then length hex - 1 else length hex) div 2 + 1"
  proof (cases "odd (length xs)")
    case True
    then obtain y ys where y: "xs = y # ys" by (cases xs) auto
    with True xs decodeNibbles_some [of ys "replicate ?n 0"] obtain bs
      where bs: "decodeNibbles ys (replicate ?n 0) = Some bs" "pairs bs = ys" by auto
    define b where "b = push_bit 5 t OR push_bit 4 1 OR y"
    have c: "hexToCompact hex = Some (b # bs)"
      using True bs y by (simp add: hexToCompact_def Let_def t_def b_def flip: xs_def)
    have "b = push_bit 4 (2 * t + 1) OR y" by (simp add: t_def b_def flip: or.assoc)
    moreover have "2 * t + 1 < 16" by (simp add: t_def)
    ultimately have b: "b div 16 = 2 * t + 1" "b mod 16 = y"
      using join_nibbles [of "2 * t + 1" y] xs y by simp_all
    have "compactToHex (b # bs) = Some hex"
      unfolding compactToHex_def keybytesToHex_eq using bs(2) y
      by (subst hx) (simp add: b, simp add: t_def Let_def word_le_nat_alt)
    moreover have "length bs = ?n" using arg_cong [OF bs(2), of length] True y by simp
    ultimately show ?thesis using c by (simp add: xs_def)
  next
    case False
    with xs decodeNibbles_some [of xs "replicate ?n 0"] obtain bs
      where bs: "decodeNibbles xs (replicate ?n 0) = Some bs" "pairs bs = xs" by auto
    have c: "hexToCompact hex = Some (push_bit 5 t # bs)"
      using False bs by (simp add: hexToCompact_def Let_def t_def flip: xs_def)
    have "compactToHex (push_bit 5 t # bs) = Some hex"
      unfolding compactToHex_def keybytesToHex_eq using bs(2)
      by (subst hx) (simp add: t_def)
    moreover have "length bs = ?n" using arg_cong [OF bs(2), of length] False by auto
    ultimately show ?thesis using c by (simp add: xs_def)
  qed
qed

text \<open>
  C30. The bytes of a key survive the way to its nibbles and back, and the nibbles of a node
  survive the compact form they are stored in: every nibble key, with or without
  terminator, has a compact form of half its length, and that form decodes to the key.
\<close>

theorem key_encodings_round_trip:
  "hexToKeybytes (keybytesToHex str) = Some str \<and>
   (hexkey hex \<longrightarrow> (\<exists>c. hexToCompact hex = Some c \<and> compactToHex c = Some hex \<and>
      length c = (if hasTerm hex then length hex - 1 else length hex) div 2 + 1))"
  using compact_round_trip by (simp add: hexToKeybytes_def keybytesToHex_eq decodeNibbles_pairs)

theorem key_encodings_round_trip_witness:
  "hexToKeybytes (keybytesToHex [0x12, 0xaf]) = Some [0x12, 0xaf] \<and>
   (\<exists>c. hexToCompact [1, 2, 3, 16] = Some c \<and> compactToHex c = Some [1, 2, 3, 16])"
  using key_encodings_round_trip [of "[0x12, 0xaf]" "[1, 2, 3, 16]"] by (auto simp: hexkey_def hasTerm_def)

end
