(* ===== verification/Rlp.thy ===== *)
theory Rlp
  imports Evm_Base
begin

unbundle bit_operations_syntax

text \<open>
  The serialisation of \<^verbatim>\<open>src/common/rlp\<close>: the buffer of \<^verbatim>\<open>encode.go\<close>, which keeps the headers
  of lists apart from the string data and merges them at the end. The lemmas compare the
  buffer with the recursive definition of the encoding, and read sizes back.
\<close>

section \<open>Integers\<close>

definition be_word :: "nat \<Rightarrow> u64 \<Rightarrow> byte list" where
  "be_word k i = map (\<lambda>j. ucast (drop_bit (8 * j) i)) (rev [0..<k])"

definition putint :: "u64 \<Rightarrow> byte list" where
  "putint i =
     (if i < 0x100 then be_word 1 i else if i < 0x10000 then be_word 2 i
      else if i < 0x1000000 then be_word 3 i else if i < 0x100000000 then be_word 4 i
      else if i < 0x10000000000 then be_word 5 i else if i < 0x1000000000000 then be_word 6 i
      else if i < 0x100000000000000 then be_word 7 i else be_word 8 i)"

fun intsize_loop :: "nat \<Rightarrow> u64 \<Rightarrow> nat \<Rightarrow> nat" where
  "intsize_loop 0 i sz = sz"
| "intsize_loop (Suc n) i sz = (let i = drop_bit 8 i in if i = 0 then sz else intsize_loop n i (sz + 1))"

text \<open>Eight turns are enough for 64 bits.\<close>

definition intsize :: "u64 \<Rightarrow> nat" where
  "intsize i = intsize_loop 8 i 1"

definition puthead :: "byte \<Rightarrow> byte \<Rightarrow> u64 \<Rightarrow> byte list" where
  "puthead smalltag largetag sz =
     (if sz < 56 then [smalltag + ucast sz]
      else (let s = putint sz in (largetag + of_nat (length s)) # s))"

definition headsize :: "u64 \<Rightarrow> nat" where
  "headsize sz = (if sz < 56 then 1 else 1 + intsize sz)"

section \<open>The buffer\<close>

record listhead =
  lh_offset :: nat
  lh_size :: nat

record encbuf =
  str :: "byte list"
  lheads :: "listhead list"
  lhsize :: nat

definition empty_encbuf :: encbuf where
  "empty_encbuf = \<lparr>str = [], lheads = [], lhsize = 0\<rparr>"

definition encbuf_size :: "encbuf \<Rightarrow> nat" where
  "encbuf_size w = length (str w) + lhsize w"

definition encodeString :: "byte list \<Rightarrow> encbuf \<Rightarrow> encbuf" where
  "encodeString b w =
     (if length b = 1 \<and> hd b \<le> 0x7F then w\<lparr>str := str w @ b\<rparr>
      else w\<lparr>str := str w @ puthead 0x80 0xB7 (of_nat (length b)) @ b\<rparr>)"

text \<open>The head is a pointer in the source and an index here.\<close>

definition list_begin :: "encbuf \<Rightarrow> nat \<times> encbuf" where
  "list_begin w = (length (lheads w), w\<lparr>lheads := lheads w @ [\<lparr>lh_offset = length (str w), lh_size = lhsize w\<rparr>]\<rparr>)"

definition listEnd :: "nat \<Rightarrow> encbuf \<Rightarrow> encbuf" where
  "listEnd i w =
     (let lh = lheads w ! i; sz = encbuf_size w - lh_offset lh - lh_size lh in
      w\<lparr>lheads := (lheads w)[i := lh\<lparr>lh_size := sz\<rparr>], lhsize := lhsize w + headsize (of_nat sz)\<rparr>)"

text \<open>What the buffer is given: byte strings, encoded bytes taken as they are, and lists.\<close>

datatype item = Str "byte list" | Raw "byte list" | Lst "item list"

fun write_item :: "item \<Rightarrow> encbuf \<Rightarrow> encbuf" where
  "write_item (Str b) w = encodeString b w"
| "write_item (Raw b) w = w\<lparr>str := str w @ b\<rparr>"
| "write_item (Lst xs) w = (let (i, w1) = list_begin w in listEnd i (fold write_item xs w1))"

definition lh_encode :: "listhead \<Rightarrow> byte list" where
  "lh_encode h = puthead 0xC0 0xF7 (of_nat (lh_size h))"

text \<open>
  Slicing the string data out of range, and writing a header past the end of the output,
  panic: \<open>None\<close>.
\<close>

primrec toWriter_loop :: "byte list \<Rightarrow> nat \<Rightarrow> listhead list \<Rightarrow> byte list option" where
  "toWriter_loop s strpos [] = Some (if strpos < length s then drop strpos s else [])"
| "toWriter_loop s strpos (h # hs) =
     (if lh_offset h > length s then None
      else map_option (\<lambda>r. take (lh_offset h - strpos) (drop strpos s) @ lh_encode h @ r)
        (toWriter_loop s (if lh_offset h > strpos then lh_offset h else strpos) hs))"

definition toWriter :: "encbuf \<Rightarrow> byte list option" where
  "toWriter w = toWriter_loop (str w) 0 (lheads w)"

text \<open>\<^verbatim>\<open>toBytes\<close> copies the pieces into a buffer of the computed size.\<close>

definition copy_at :: "nat \<Rightarrow> byte list \<Rightarrow> byte list \<Rightarrow> byte list" where
  "copy_at pos src out = take pos out @ take (length out - pos) src @ drop (pos + length src) out"

primrec toBytes_loop :: "byte list \<Rightarrow> nat \<Rightarrow> nat \<Rightarrow> listhead list \<Rightarrow> byte list \<Rightarrow> byte list option" where
  "toBytes_loop s strpos pos [] out = Some (copy_at pos (drop strpos s) out)"
| "toBytes_loop s strpos pos (h # hs) out =
     (if lh_offset h < strpos \<or> lh_offset h > length s then None
      else let piece = take (lh_offset h - strpos) (drop strpos s);
          n = min (length piece) (length out - pos);
          enc = lh_encode h in
        if pos + n + length enc > length out then None
        else toBytes_loop s (strpos + n) (pos + n + length enc) hs
               (copy_at (pos + n) enc (copy_at pos piece out)))"

definition toBytes :: "encbuf \<Rightarrow> byte list option" where
  "toBytes w = toBytes_loop (str w) 0 0 (lheads w) (replicate (encbuf_size w) 0)"

section \<open>Writers of values\<close>

text \<open>
  The values by the writer \<^verbatim>\<open>makeWriter\<close> chooses for their type. Strings, byte slices and byte
  arrays have one constructor; a pointer that is not nil is written as what it points to,
  a nil one as the zero value, except that \<open>NilPtr\<close> is a nil pointer to a byte array or else
  to a struct or array. Types with a writer of their own (\<^verbatim>\<open>EncodeRLP\<close>) and the \<^verbatim>\<open>tail\<close> tag of
  struct fields are left out.
\<close>

datatype val =
    RawValue "byte list" | Uint u64 | Bool bool | BigInt "int option" | ByteSlice "byte list"
  | Interface "val option" | Slice "val list" | Struct "val list" | NilPtr bool

datatype encode_error = ErrNegativeBigInt

definition writeRawValue :: "byte list \<Rightarrow> encbuf \<Rightarrow> encbuf" where
  "writeRawValue b w = w\<lparr>str := str w @ b\<rparr>"

definition writeUint :: "u64 \<Rightarrow> encbuf \<Rightarrow> encbuf" where
  "writeUint i w =
     (if i = 0 then w\<lparr>str := str w @ [0x80]\<rparr>
      else if i < 128 then w\<lparr>str := str w @ [ucast i]\<rparr>
      else (let s = putint i in w\<lparr>str := str w @ (0x80 + of_nat (length s)) # s\<rparr>))"

definition writeBool :: "bool \<Rightarrow> encbuf \<Rightarrow> encbuf" where
  "writeBool b w = (if b then w\<lparr>str := str w @ [0x01]\<rparr> else w\<lparr>str := str w @ [0x80]\<rparr>)"

definition writeBigInt :: "int \<Rightarrow> encbuf \<Rightarrow> encode_error + encbuf" where
  "writeBigInt i w =
     (if i < 0 then Inl ErrNegativeBigInt
      else if i = 0 then Inr (w\<lparr>str := str w @ [0x80]\<rparr>)
      else Inr (encodeString (Bytes i) w))"

definition writeBigIntPtr :: "int option \<Rightarrow> encbuf \<Rightarrow> encode_error + encbuf" where
  "writeBigIntPtr p w = (case p of None \<Rightarrow> Inr (w\<lparr>str := str w @ [0x80]\<rparr>) | Some i \<Rightarrow> writeBigInt i w)"

fun write_val :: "val \<Rightarrow> encbuf \<Rightarrow> encode_error + encbuf"
  and write_vals :: "val list \<Rightarrow> encbuf \<Rightarrow> encode_error + encbuf" where
  "write_val (RawValue b) w = Inr (writeRawValue b w)"
| "write_val (Uint i) w = Inr (writeUint i w)"
| "write_val (Bool b) w = Inr (writeBool b w)"
| "write_val (BigInt i) w = writeBigIntPtr i w"
| "write_val (ByteSlice b) w = Inr (encodeString b w)"
| "write_val (Interface None) w = Inr (w\<lparr>str := str w @ [0xC0]\<rparr>)"
| "write_val (Interface (Some v)) w = write_val v w"
| "write_val (Slice vs) w = (let (lh, w1) = list_begin w in map_sum id (listEnd lh) (write_vals vs w1))"
| "write_val (Struct vs) w = (let (lh, w1) = list_begin w in map_sum id (listEnd lh) (write_vals vs w1))"
| "write_val (NilPtr bytearray) w =
     Inr (if bytearray then w\<lparr>str := str w @ [0x80]\<rparr> else (let (lh, w1) = list_begin w in listEnd lh w1))"
| "write_vals [] w = Inr w"
| "write_vals (v # vs) w = (case write_val v w of Inl e \<Rightarrow> Inl e | Inr w1 \<Rightarrow> write_vals vs w1)"

definition Encode :: "val \<Rightarrow> (encode_error + byte list) option" where
  "Encode v = (case write_val v empty_encbuf of Inl e \<Rightarrow> Some (Inl e) | Inr w \<Rightarrow> map_option Inr (toWriter w))"

definition EncodeToBytes :: "val \<Rightarrow> (encode_error + byte list) option" where
  "EncodeToBytes v = (case write_val v empty_encbuf of Inl e \<Rightarrow> Some (Inl e) | Inr w \<Rightarrow> map_option Inr (toBytes w))"

section \<open>Sizes\<close>

lemma drop_bit_zero_iff: "n < 64 \<Longrightarrow> drop_bit n i = 0 \<longleftrightarrow> unat i < 2 ^ n" for i :: u64
  using unat_drop_bit_eq [of n i] by (metis div_eq_0_iff drop_bit_eq_div power_not_zero unat_eq_zero zero_neq_numeral)

lemma length_be_word [simp]: "length (be_word k i) = k"
  by (simp add: be_word_def)

lemma intsize_loop_numeral: "intsize_loop (numeral k) i sz =
  (let i = drop_bit 8 i in if i = 0 then sz else intsize_loop (pred_numeral k) i (sz + 1))"
  by (simp add: numeral_eq_Suc)

lemma drop_bit_zero_less:
  "i < 0x100 \<longleftrightarrow> drop_bit 8 i = 0" "i < 0x10000 \<longleftrightarrow> drop_bit 16 i = 0" "i < 0x1000000 \<longleftrightarrow> drop_bit 24 i = 0"
  "i < 0x100000000 \<longleftrightarrow> drop_bit 32 i = 0" "i < 0x10000000000 \<longleftrightarrow> drop_bit 40 i = 0"
  "i < 0x1000000000000 \<longleftrightarrow> drop_bit 48 i = 0" "i < 0x100000000000000 \<longleftrightarrow> drop_bit 56 i = 0" for i :: u64
  by (simp_all add: drop_bit_zero_iff word_less_nat_alt)

lemma intsize_putint: "intsize i = length (putint i)"
  unfolding putint_def intsize_def drop_bit_zero_less
  by (simp add: intsize_loop_numeral Let_def drop_bit_drop_bit)

lemma length_puthead: "length (puthead s l n) = headsize n"
  by (simp add: puthead_def headsize_def Let_def intsize_putint)

section \<open>The encoding as a recursive function\<close>

fun rlp :: "item \<Rightarrow> byte list" where
  "rlp (Str b) = (if length b = 1 \<and> hd b \<le> 0x7F then b else puthead 0x80 0xB7 (of_nat (length b)) @ b)"
| "rlp (Raw b) = b"
| "rlp (Lst xs) = (let p = concat (map rlp xs) in puthead 0xC0 0xF7 (of_nat (length p)) @ p)"

text \<open>What a value adds to the buffer: string data, list headers and their size.\<close>

fun flat :: "item \<Rightarrow> byte list" where
  "flat (Str b) = rlp (Str b)"
| "flat (Raw b) = b"
| "flat (Lst xs) = concat (map flat xs)"

fun heads :: "nat \<Rightarrow> item \<Rightarrow> listhead list" and heads_list :: "nat \<Rightarrow> item list \<Rightarrow> listhead list" where
  "heads p (Str b) = []"
| "heads p (Raw b) = []"
| "heads p (Lst xs) = \<lparr>lh_offset = p, lh_size = length (concat (map rlp xs))\<rparr> # heads_list p xs"
| "heads_list p [] = []"
| "heads_list p (x # xs) = heads p x @ heads_list (p + length (flat x)) xs"

fun hsum :: "item \<Rightarrow> nat" where
  "hsum (Str b) = 0"
| "hsum (Raw b) = 0"
| "hsum (Lst xs) = headsize (of_nat (length (concat (map rlp xs)))) + sum_list (map hsum xs)"

lemma length_rlp: "length (rlp x) = length (flat x) + hsum x"
proof (induction x)
  case (Lst xs)
  then have "sum_list (map (length \<circ> rlp) xs) = sum_list (map (length \<circ> flat) xs) + sum_list (map hsum xs)"
    by (induction xs) auto
  then show ?case by (simp add: Let_def length_puthead length_concat comp_def)
qed simp_all

lemma encodeString_flat: "encodeString b w = w\<lparr>str := str w @ flat (Str b)\<rparr>"
  by (simp add: encodeString_def)

lemma write_item_adds:
  "write_item x w = w\<lparr>str := str w @ flat x, lheads := lheads w @ heads (length (str w)) x, lhsize := lhsize w + hsum x\<rparr>"
proof (induction x arbitrary: w)
  case (Str b)
  then show ?case by (simp add: encodeString_flat del: flat.simps)
next
  case (Raw b)
  then show ?case by simp
next
  case (Lst xs)
  have list: "fold write_item xs v = v\<lparr>str := str v @ concat (map flat xs),
      lheads := lheads v @ heads_list (length (str v)) xs, lhsize := lhsize v + sum_list (map hsum xs)\<rparr>" for v
    using Lst by (induction xs arbitrary: v) (simp_all add: add.assoc)
  have "sum_list (map (length \<circ> rlp) xs) = sum_list (map (length \<circ> flat) xs) + sum_list (map hsum xs)"
    by (induction xs) (auto simp: length_rlp)
  then show ?case
    by (simp add: list_begin_def list listEnd_def encbuf_size_def length_concat comp_def nth_append Let_def)
qed

section \<open>Merging the headers with the data\<close>

lemma take_drop_split: "a \<le> b \<Longrightarrow> b \<le> c \<Longrightarrow> take (c - a) (drop a s) = take (b - a) (drop a s) @ take (c - b) (drop b s)"
  using take_add [of "b - a" "c - b" "drop a s"] by simp

lemma toWriter_loop_Nil: "toWriter_loop s strpos [] = Some (drop strpos s)"
  by simp

lemma toWriter_loop_advance:
  assumes "strpos \<le> p" "p \<le> length s" "\<forall>h\<in>set hs. p \<le> lh_offset h"
  shows "toWriter_loop s strpos hs = map_option ((@) (take (p - strpos) (drop strpos s))) (toWriter_loop s p hs)"
proof (cases hs)
  case Nil
  have "take (p - strpos) (drop strpos s) @ drop p s = drop strpos s"
    using append_take_drop_id [of "p - strpos" "drop strpos s"] assms(1) by simp
  then show ?thesis by (simp add: Nil toWriter_loop_Nil del: toWriter_loop.simps(1))
next
  case (Cons h hs')
  then have h: "p \<le> lh_offset h" using assms(3) by simp
  show ?thesis
  proof (cases "lh_offset h > length s")
    case False
    have "(if lh_offset h > q then lh_offset h else q) = lh_offset h" if "q \<le> p" for q
      using h that by simp
    then show ?thesis using False take_drop_split [OF assms(1) h, of s] assms(1)
      by (simp add: Cons option.map_comp comp_def)
  qed (simp add: Cons)
qed

lemma heads_offsets:
  "(\<forall>h\<in>set (heads p x). p \<le> lh_offset h \<and> lh_offset h \<le> p + length (flat x)) \<and> sorted (map lh_offset (heads p x))"
  "(\<forall>h\<in>set (heads_list p xs). p \<le> lh_offset h \<and> lh_offset h \<le> p + length (concat (map flat xs))) \<and>
   sorted (map lh_offset (heads_list p xs))"
proof (induction p x and p xs rule: heads_heads_list.induct)
  case (5 p x xs)
  have "lh_offset h \<le> lh_offset k" if "h \<in> set (heads p x)" "k \<in> set (heads_list (p + length (flat x)) xs)" for h k
    using 5 that by (meson order_trans)
  then show ?case using 5 by (fastforce simp: sorted_append)
qed auto

lemma toWriter_loop_item:
  assumes "take (length (flat x)) (drop p s) = flat x" "p + length (flat x) \<le> length s"
    "\<forall>h\<in>set hs. p + length (flat x) \<le> lh_offset h"
  shows "toWriter_loop s p (heads p x @ hs) = map_option ((@) (rlp x)) (toWriter_loop s (p + length (flat x)) hs)"
  using assms
proof (induction x arbitrary: p hs)
  case (Str b)
  then show ?case using toWriter_loop_advance [of p "p + length (flat (Str b))" s hs] by simp
next
  case (Raw b)
  then show ?case using toWriter_loop_advance [of p "p + length b" s hs] by simp
next
  case (Lst xs)
  have list: "toWriter_loop s q (heads_list q ys @ hs) =
      map_option ((@) (concat (map rlp ys))) (toWriter_loop s (q + length (concat (map flat ys))) hs)"
    if "set ys \<subseteq> set xs" "take (length (concat (map flat ys))) (drop q s) = concat (map flat ys)"
      "q + length (concat (map flat ys)) \<le> length s"
      "\<forall>h\<in>set hs. q + length (concat (map flat ys)) \<le> lh_offset h" for q ys
    using that
  proof (induction ys arbitrary: q)
    case (Cons y ys)
    have "take (length (flat y)) (drop q s) = flat y"
      using arg_cong [OF Cons.prems(2), of "take (length (flat y))"] by (simp add: min_def split: if_splits)
    moreover have "take (length (concat (map flat ys))) (drop (q + length (flat y)) s) = concat (map flat ys)"
      using arg_cong [OF Cons.prems(2), of "drop (length (flat y))"] by (simp add: drop_take add.commute)
    moreover have "\<forall>h\<in>set (heads_list (q + length (flat y)) ys @ hs). q + length (flat y) \<le> lh_offset h"
      using heads_offsets(2) [of "q + length (flat y)" ys] Cons.prems(4) by auto
    ultimately show ?case
      using Lst.IH [of y q "heads_list (q + length (flat y)) ys @ hs"] Cons.IH [of "q + length (flat y)"] Cons.prems
      by (simp add: option.map_comp comp_def add.assoc)
  next
    case Nil
    show ?case by (cases "toWriter_loop s q hs") simp_all
  qed
  show ?case using list [of xs p] Lst.prems by (simp add: lh_encode_def option.map_comp comp_def Let_def)
qed

lemma copy_at_fits:
  "length a = pos \<Longrightarrow> copy_at pos src (a @ b) = a @ take (length b) src @ drop (length src) b"
  by (simp add: copy_at_def)

lemma toBytes_loop_toWriter:
  assumes "toWriter_loop s strpos hs = Some r" "strpos \<le> length s" "length rest = length r"
    "sorted (strpos # map lh_offset hs)"
  shows "toBytes_loop s strpos (length pre) hs (pre @ rest) = Some (pre @ r)"
  using assms
proof (induction hs arbitrary: strpos pre rest r)
  case Nil
  then have "r = drop strpos s" by (simp add: toWriter_loop_Nil del: toWriter_loop.simps(1))
  then show ?case using Nil.prems(3) by (simp add: copy_at_fits)
next
  case (Cons h hs)
  let ?q = "lh_offset h"
  define piece where "piece = take (?q - strpos) (drop strpos s)"
  define enc where "enc = lh_encode h"
  have q: "strpos \<le> ?q" "?q \<le> length s" using Cons.prems(1,4) by (simp_all split: if_splits)
  then have "(if strpos < ?q then ?q else strpos) = ?q" by simp
  with Cons.prems(1) q obtain r' where r': "toWriter_loop s ?q hs = Some r'" "r = piece @ enc @ r'"
    by (auto simp: not_less piece_def enc_def)
  have len: "length rest = length piece + length enc + length r'" "length piece = ?q - strpos"
    using Cons.prems(3) r'(2) q by (simp_all add: piece_def)
  let ?rest = "drop (length enc) (drop (length piece) rest)"
  have "copy_at (length pre) piece (pre @ rest) = (pre @ piece) @ drop (length piece) rest"
    using len(1) by (simp add: copy_at_fits)
  moreover have "copy_at (length (pre @ piece)) enc ((pre @ piece) @ drop (length piece) rest) =
      (pre @ piece @ enc) @ ?rest"
    using copy_at_fits [OF refl, of "pre @ piece" enc] len(1) by simp
  ultimately have "toBytes_loop s strpos (length pre) (h # hs) (pre @ rest) =
      toBytes_loop s ?q (length (pre @ piece @ enc)) hs ((pre @ piece @ enc) @ ?rest)"
    using q len by (auto simp: Let_def add.assoc simp flip: piece_def enc_def)
  also have "\<dots> = Some ((pre @ piece @ enc) @ r')"
    by (rule Cons.IH [OF r'(1) q(2)]) (use len(1) Cons.prems(4) in simp_all)
  finally show ?case by (simp add: r'(2))
qed

lemma Encode_rlp: "toWriter (write_item x empty_encbuf) = Some (rlp x)"
  using toWriter_loop_item [of x 0 "flat x" "[]"]
  by (simp add: toWriter_def write_item_adds empty_encbuf_def toWriter_loop_Nil del: toWriter_loop.simps(1))

lemma EncodeToBytes_rlp: "toBytes (write_item x empty_encbuf) = Some (rlp x)"
proof -
  let ?w = "write_item x empty_encbuf"
  have "encbuf_size ?w = length (rlp x)" "str ?w = flat x" "lheads ?w = heads 0 x"
    by (simp_all add: write_item_adds empty_encbuf_def encbuf_size_def length_rlp)
  moreover have "toWriter_loop (flat x) 0 (heads 0 x) = Some (rlp x)"
    using Encode_rlp [of x] calculation by (simp add: toWriter_def)
  ultimately show ?thesis
    using toBytes_loop_toWriter [of "flat x" 0 "heads 0 x" "rlp x" "replicate (length (rlp x)) 0" "[]"] heads_offsets(1) [of 0 x]
    by (simp add: toBytes_def)
qed

section \<open>Sizes read back\<close>

lemma putint_eq:
  assumes "1 \<le> k" "k \<le> 8" "unat i < 2 ^ (8 * k)" "k = 1 \<or> 2 ^ (8 * (k - 1)) \<le> unat i"
  shows "putint i = be_word k i"
proof -
  have "k = 1 \<or> k = 2 \<or> k = 3 \<or> k = 4 \<or> k = 5 \<or> k = 6 \<or> k = 7 \<or> k = 8" using assms(1,2) by arith
  then show ?thesis using assms(3,4) by (elim disjE) (simp_all add: putint_def word_less_nat_alt)
qed

lemma putint_size:
  obtains k where "1 \<le> k" "k \<le> 8" "putint i = be_word k i" "unat i < 2 ^ (8 * k)" "k = 1 \<or> 2 ^ (8 * (k - 1)) \<le> unat i"
proof -
  define k where "k = (LEAST k. unat i < 2 ^ (8 * k) \<and> 1 \<le> k)"
  have 8: "unat i < 2 ^ (8 * 8) \<and> 1 \<le> (8::nat)" using unsigned_less [of i] by simp
  have k: "unat i < 2 ^ (8 * k)" "1 \<le> k" "k \<le> 8"
    using LeastI [of "\<lambda>k. unat i < 2 ^ (8 * k) \<and> 1 \<le> k", OF 8] Least_le [of "\<lambda>k. unat i < 2 ^ (8 * k) \<and> 1 \<le> k", OF 8]
    unfolding k_def by auto
  have "k = 1 \<or> 2 ^ (8 * (k - 1)) \<le> unat i"
    using not_less_Least [of "k - 1" "\<lambda>k. unat i < 2 ^ (8 * k) \<and> 1 \<le> k"] k(2) unfolding k_def [symmetric] by linarith
  with k that putint_eq show ?thesis by blast
qed

abbreviation be_read :: "u64 \<Rightarrow> byte list \<Rightarrow> u64" where
  "be_read \<equiv> foldl (\<lambda>s x. push_bit 8 s OR ucast x)"

lemma be_word_Suc: "be_word (Suc k) i = ucast (drop_bit (8 * k) i) # be_word k i"
  by (simp add: be_word_def)

lemma be_word_snoc: "be_word (Suc k) i = be_word k (drop_bit 8 i) @ [ucast i]"
  by (induction k) (simp_all add: be_word_Suc drop_bit_drop_bit add.commute, simp add: be_word_def)

lemma be_read_be_word: "be_read a (be_word k i) = push_bit (8 * k) a OR take_bit (8 * k) i"
proof (induction k arbitrary: a)
  case (Suc k)
  show ?case
    by (rule bit_eqI) (auto simp: be_word_Suc Suc bit_simps add.commute)
qed (simp add: be_word_def)

lemma be_read_bits: "bit (be_read 0 bs) n \<Longrightarrow> n < 8 * length bs"
proof (induction bs arbitrary: n rule: rev_induct)
  case (snoc x bs)
  show ?case using snoc.prems snoc.IH [of "n - 8"] by (cases "n < 8") (auto simp: bit_simps dest: bit_imp_le_length)
qed simp

lemma be_word_be_read: "length bs \<le> 8 \<Longrightarrow> be_word (length bs) (be_read 0 bs) = bs"
proof (induction bs rule: rev_induct)
  case (snoc x bs)
  let ?s = "be_read 0 bs"
  have "drop_bit 8 (push_bit 8 ?s OR ucast x) = ?s"
    using snoc.prems by (intro bit_eqI) (auto simp: bit_simps dest: be_read_bits bit_imp_le_length)
  moreover have "ucast (push_bit 8 ?s OR ucast x) = x" by (intro bit_eqI) (auto simp: bit_simps)
  ultimately show ?case using snoc by (simp add: be_word_snoc)
qed (simp add: be_word_def)

lemma unat_be_read: "length bs \<le> 8 \<Longrightarrow> unat (be_read 0 bs) < 2 ^ (8 * length bs)"
proof (cases "length bs = 8")
  case False
  assume "length bs \<le> 8"
  with False have n: "8 * length bs < 64" by simp
  have "drop_bit (8 * length bs) (be_read 0 bs) = 0"
    by (rule bit_eqI) (auto simp: bit_simps dest: be_read_bits)
  with n show ?thesis by (simp add: drop_bit_zero_iff)
qed (use unsigned_less [of "be_read 0 bs"] in simp)

lemma hd_be_word:
  assumes "1 \<le> k" "k \<le> 8" "unat i < 2 ^ (8 * k)"
  shows "hd (be_word k i) = 0 \<longleftrightarrow> unat i < 2 ^ (8 * (k - 1))"
proof -
  obtain j where k: "k = Suc j" using assms(1) by (cases k) auto
  let ?d = "drop_bit (8 * j) i"
  have "unat ?d = unat i div 2 ^ (8 * j)" by (simp only: unat_drop_bit_eq) (simp add: drop_bit_eq_div)
  also have "\<dots> < 256" using assms(3) by (simp add: k less_mult_imp_div_less power_add)
  finally have "unat (ucast ?d :: byte) = unat ?d" by (simp add: unsigned_ucast_eq take_bit_nat_eq_self)
  then have "(ucast ?d :: byte) = 0 \<longleftrightarrow> ?d = 0" by (metis unat_eq_zero)
  then show ?thesis using assms(2) by (simp add: k be_word_Suc drop_bit_zero_iff)
qed

section \<open>The encoding of values\<close>

fun item_of :: "val \<Rightarrow> item option" where
  "item_of (RawValue b) = Some (Raw b)"
| "item_of (Uint i) = Some (Str (if i = 0 then [] else putint i))"
| "item_of (Bool b) = Some (Str (if b then [1] else []))"
| "item_of (BigInt i) = (case i of None \<Rightarrow> Some (Str []) | Some z \<Rightarrow> if z < 0 then None else Some (Str (Bytes z)))"
| "item_of (ByteSlice b) = Some (Str b)"
| "item_of (Interface None) = Some (Raw [0xC0])"
| "item_of (Interface (Some v)) = item_of v"
| "item_of (Slice vs) = map_option Lst (those (map item_of vs))"
| "item_of (Struct vs) = map_option Lst (those (map item_of vs))"
| "item_of (NilPtr bytearray) = Some (if bytearray then Str [] else Lst [])"

lemma unat_length: "n < 2 ^ 64 \<Longrightarrow> unat (of_nat n :: u64) = n"
  by (simp add: unsigned_of_nat take_bit_nat_eq_self)

lemma small_byte:
  "n < 256 \<Longrightarrow> ucast (of_nat n :: byte) = (of_nat n :: u64)" "n < 256 \<Longrightarrow> ucast (of_nat n :: u64) = (of_nat n :: byte)"
  "n < 256 \<Longrightarrow> (of_nat n :: byte) = 1 \<longleftrightarrow> n = 1"
proof -
  assume n: "n < 256"
  then have "unat (ucast (of_nat n :: byte) :: u64) = unat (of_nat n :: u64)"
    "unat (ucast (of_nat n :: u64) :: byte) = unat (of_nat n :: byte)"
    by (simp_all add: unsigned_ucast_eq unsigned_of_nat take_bit_nat_eq_self)
  then show "ucast (of_nat n :: byte) = (of_nat n :: u64)" "ucast (of_nat n :: u64) = (of_nat n :: byte)"
    by (simp_all add: unsigned_word_eqI)
  show "(of_nat n :: byte) = 1 \<longleftrightarrow> n = 1"
    using n by (auto dest: arg_cong [of _ _ unat] simp: unsigned_of_nat take_bit_nat_eq_self)
qed

lemma length_putint: "1 \<le> length (putint i)" "length (putint i) \<le> 8"
  by (rule putint_size [of i], simp)+

lemma puthead_eq:
  assumes "n < 2 ^ 64"
  shows "puthead small large (of_nat n) = (if n < 56 then [small + of_nat n]
    else (large + of_nat (length (putint (of_nat n)))) # putint (of_nat n))"
  using assms small_byte(2) [of n] by (simp add: puthead_def word_less_nat_alt unat_length Let_def)

lemma rlp_uint:
  "rlp (Str (putint i)) = (if i < 128 then [ucast i] else (0x80 + of_nat (length (putint i))) # putint i)"
proof -
  obtain k where k: "1 \<le> k" "k \<le> 8" "putint i = be_word k i" "unat i < 2 ^ (8 * k)" "k = 1 \<or> 2 ^ (8 * (k - 1)) \<le> unat i"
    by (rule putint_size)
  have head: "puthead 0x80 0xB7 (of_nat k) = [0x80 + of_nat k]"
    using k(2) by (simp add: puthead_eq)
  show ?thesis
  proof (cases "k = 1")
    case True
    then have "putint i = [ucast i]" "unat i < 256" using k by (simp_all add: be_word_def)
    moreover have "(ucast i :: byte) \<le> 0x7F \<longleftrightarrow> i < 128"
      using calculation(2) by (simp add: word_le_nat_alt word_less_nat_alt unsigned_ucast_eq take_bit_nat_eq_self less_Suc_eq_le [symmetric])
    ultimately show ?thesis using head True by simp
  next
    case False
    then have "(2::nat) ^ 8 \<le> 2 ^ (8 * (k - 1))" using k(1) by (intro power_increasing) auto
    then have "\<not> i < 128" using k(5) False by (simp add: word_less_nat_alt)
    with False k(3) head show ?thesis by simp
  qed
qed

lemma write_val_item:
  "write_val v w = (case item_of v of None \<Rightarrow> Inl ErrNegativeBigInt | Some x \<Rightarrow> Inr (write_item x w))"
  "write_vals vs w = (case those (map item_of vs) of None \<Rightarrow> Inl ErrNegativeBigInt | Some xs \<Rightarrow> Inr (fold write_item xs w))"
proof (induction v w and vs w rule: write_val_write_vals.induct)
  case (2 i w)
  then show ?case
    using rlp_uint [of i] by (auto simp: encodeString_flat writeUint_def Let_def puthead_def word_neq_0_conv)
qed (auto simp: writeRawValue_def writeBool_def writeBigIntPtr_def writeBigInt_def encodeString_def puthead_def Bytes_def
    list_begin_def Let_def map_sum_def split: option.splits sum.splits)


end
