(* ===== verification/Rlp_Split.thy ===== *)
theory Rlp_Split
  imports Rlp
begin

unbundle bit_operations_syntax

text \<open>
  Splitting encoded values: \<^verbatim>\<open>src/common/rlp/raw.go\<close>. \<open>Split\<close> is shown to be exact: it returns
  a content precisely when the input starts with the canonical encoding of that content.
\<close>

section \<open>Splitting\<close>

datatype rlp_error = ErrUnexpectedEOF | ErrCanonSize | ErrValueTooLarge | ErrExpectedString | ErrExpectedList
datatype Kind = ByteKind | StringKind | ListKind

definition readSize :: "byte list \<Rightarrow> byte \<Rightarrow> rlp_error + u64" where
  "readSize b slen =
     (if unat slen > length b then Inl ErrUnexpectedEOF
      else (let s = foldl (\<lambda>s x. push_bit 8 s OR ucast x) 0 (take (unat slen) b) in
        if s < 56 \<or> hd b = 0 then Inl ErrCanonSize else Inr s))"

definition check_size :: "byte list \<Rightarrow> Kind \<Rightarrow> u64 \<Rightarrow> u64 \<Rightarrow> rlp_error + Kind \<times> u64 \<times> u64" where
  "check_size buf k tagsize contentsize =
     (if contentsize > of_nat (length buf) - tagsize then Inl ErrValueTooLarge else Inr (k, tagsize, contentsize))"

definition readKind :: "byte list \<Rightarrow> rlp_error + Kind \<times> u64 \<times> u64" where
  "readKind buf = (case buf of
     [] \<Rightarrow> Inl ErrUnexpectedEOF
   | b # bs \<Rightarrow>
       if b < 0x80 then check_size buf ByteKind 0 1
       else if b < 0xB8 then
         (if b - 0x80 = 1 \<and> bs \<noteq> [] \<and> hd bs < 128 then Inl ErrCanonSize
          else check_size buf StringKind 1 (ucast (b - 0x80)))
       else if b < 0xC0 then
         (case readSize bs (b - 0xB7) of
            Inl e \<Rightarrow> Inl e | Inr s \<Rightarrow> check_size buf StringKind (ucast (b - 0xB7) + 1) s)
       else if b < 0xF8 then check_size buf ListKind 1 (ucast (b - 0xC0))
       else
         (case readSize bs (b - 0xF7) of
            Inl e \<Rightarrow> Inl e | Inr s \<Rightarrow> check_size buf ListKind (ucast (b - 0xF7) + 1) s))"

definition Split :: "byte list \<Rightarrow> rlp_error + Kind \<times> byte list \<times> byte list" where
  "Split b = (case readKind b of
     Inl e \<Rightarrow> Inl e
   | Inr (k, ts, cs) \<Rightarrow> Inr (k, take (unat cs) (drop (unat ts) b), drop (unat (ts + cs)) b))"

definition SplitString :: "byte list \<Rightarrow> rlp_error + byte list \<times> byte list" where
  "SplitString b = (case Split b of
     Inl e \<Rightarrow> Inl e
   | Inr (k, content, rest) \<Rightarrow> if k = ListKind then Inl ErrExpectedString else Inr (content, rest))"

definition SplitList :: "byte list \<Rightarrow> rlp_error + byte list \<times> byte list" where
  "SplitList b = (case Split b of
     Inl e \<Rightarrow> Inl e
   | Inr (k, content, rest) \<Rightarrow> if k \<noteq> ListKind then Inl ErrExpectedList else Inr (content, rest))"

partial_function (option) CountValues_loop :: "nat \<Rightarrow> byte list \<Rightarrow> (rlp_error + nat) option" where
  "CountValues_loop i b =
     (if b = [] then Some (Inr i)
      else (case readKind b of
          Inl e \<Rightarrow> Some (Inl e)
        | Inr (_, tagsize, sz) \<Rightarrow> CountValues_loop (i + 1) (drop (unat (tagsize + sz)) b)))"

definition CountValues :: "byte list \<Rightarrow> (rlp_error + nat) option" where
  "CountValues b = CountValues_loop 0 b"

section \<open>Reading sizes\<close>

lemma readSize_iff:
  assumes "1 \<le> k" "k \<le> 8"
  shows "readSize bs (of_nat k) = Inr s \<longleftrightarrow> 56 \<le> s \<and> length (putint s) = k \<and> (\<exists>cs. bs = putint s @ cs)"
proof
  have k: "unat (of_nat k :: byte) = k" using assms(2) by (simp add: unat_of_nat)
  {
    assume "readSize bs (of_nat k) = Inr s"
    then have r: "k \<le> length bs" "s = be_read 0 (take k bs)" "56 \<le> s" "hd bs \<noteq> 0"
      by (auto simp: readSize_def k Let_def not_less split: if_splits)
    have len: "length (take k bs) = k" using r(1) by simp
    have w: "be_word k s = take k bs" "unat s < 2 ^ (8 * k)"
      using be_word_be_read [of "take k bs"] unat_be_read [of "take k bs"] assms(2) unfolding len r(2) [symmetric] by auto
    have "hd (be_word k s) \<noteq> 0" using r(4) w(1) assms(1) by (simp add: hd_take)
    then have "putint s = be_word k s" using hd_be_word [OF assms w(2)] w(2) assms by (intro putint_eq) auto
    then show "56 \<le> s \<and> length (putint s) = k \<and> (\<exists>cs. bs = putint s @ cs)"
      using r(3) w(1) by (metis append_take_drop_id length_be_word)
  next
    assume a: "56 \<le> s \<and> length (putint s) = k \<and> (\<exists>cs. bs = putint s @ cs)"
    then obtain cs where cs: "bs = putint s @ cs" by blast
    obtain j where j: "1 \<le> j" "j \<le> 8" "putint s = be_word j s" "unat s < 2 ^ (8 * j)" "j = 1 \<or> 2 ^ (8 * (j - 1)) \<le> unat s"
      by (rule putint_size)
    have jk: "j = k" using a j(3) by simp
    have "unat (take_bit (8 * j) s) = unat s" by (simp add: unsigned_take_bit_eq take_bit_nat_eq_self j(4))
    then have "be_read 0 (putint s) = s" by (simp add: j(3) be_read_be_word unsigned_word_eqI)
    moreover have "hd (putint s) \<noteq> 0"
      using hd_be_word [OF j(1,2,4)] j(3,5) a by (auto simp: word_le_nat_alt)
    moreover have "putint s \<noteq> []" using a assms(1) by auto
    then have "take k bs = putint s" "hd bs = hd (putint s)" "k \<le> length bs" using a cs by auto
    ultimately show "readSize bs (of_nat k) = Inr s" using a by (simp add: readSize_def k Let_def not_less)
  }
qed

section \<open>Splitting is exact\<close>

text \<open>The encodings of contents by kind, and which contents have the kind.\<close>

fun kind_enc :: "Kind \<Rightarrow> byte list \<Rightarrow> byte list" where
  "kind_enc ByteKind c = c"
| "kind_enc StringKind c = puthead 0x80 0xB7 (of_nat (length c)) @ c"
| "kind_enc ListKind c = puthead 0xC0 0xF7 (of_nat (length c)) @ c"

fun kind_ok :: "Kind \<Rightarrow> byte list \<Rightarrow> bool" where
  "kind_ok ByteKind c \<longleftrightarrow> length c = 1 \<and> hd c < 0x80"
| "kind_ok StringKind c \<longleftrightarrow> \<not> (length c = 1 \<and> hd c < 0x80)"
| "kind_ok ListKind c \<longleftrightarrow> True"

lemma tag_cases:
  fixes x :: byte
  obtains "x < 0x80" | n where "n < 56" "x = 0x80 + of_nat n" | k where "1 \<le> k" "k \<le> 8" "x = 0xB7 + of_nat k"
  | n where "n < 56" "x = 0xC0 + of_nat n" | k where "1 \<le> k" "k \<le> 8" "x = 0xF7 + of_nat k"
proof -
  note range = that
  have sub: "x = t + of_nat (unat x - unat t)" if "unat t \<le> unat x" for t :: byte
    using that by (simp add: of_nat_diff)
  have x: "unat x < 256" using unsigned_less [of x] by simp
  consider "unat x < 128" | "128 \<le> unat x" "unat x < 184" | "184 \<le> unat x" "unat x < 192"
    | "192 \<le> unat x" "unat x < 248" | "248 \<le> unat x" by linarith
  then show thesis
  proof cases
    case 1 then show ?thesis using range(1) by (simp add: word_less_nat_alt)
  next
    case 2 then show ?thesis using range(2) [of "unat x - 128"] sub [of "0x80"] by simp
  next
    case 3 then show ?thesis using range(3) [of "unat x - 183"] sub [of "0xB7"] by simp
  next
    case 4 then show ?thesis using range(4) [of "unat x - 192"] sub [of "0xC0"] by simp
  next
    case 5 then show ?thesis using range(5) [of "unat x - 247"] sub [of "0xF7"] x by simp
  qed
qed

lemma unat_tag: "n < 56 \<Longrightarrow> unat (0x80 + of_nat n :: byte) = 128 + n" "k \<le> 8 \<Longrightarrow> unat (0xB7 + of_nat k :: byte) = 183 + k"
  "n < 56 \<Longrightarrow> unat (0xC0 + of_nat n :: byte) = 192 + n" "k \<le> 8 \<Longrightarrow> unat (0xF7 + of_nat k :: byte) = 247 + k"
  by (simp_all add: unat_word_ariths unat_of_nat)

lemma readKind_tags:
  "x < 0x80 \<Longrightarrow> readKind (x # bs) = check_size (x # bs) ByteKind 0 1"
  "n < 56 \<Longrightarrow> readKind ((0x80 + of_nat n) # bs) = (if n = 1 \<and> bs \<noteq> [] \<and> hd bs < 128 then Inl ErrCanonSize
     else check_size ((0x80 + of_nat n) # bs) StringKind 1 (of_nat n))"
  "1 \<le> k \<Longrightarrow> k \<le> 8 \<Longrightarrow> readKind ((0xB7 + of_nat k) # bs) = (case readSize bs (of_nat k) of
     Inl e \<Rightarrow> Inl e | Inr s \<Rightarrow> check_size ((0xB7 + of_nat k) # bs) StringKind (of_nat k + 1) s)"
  "n < 56 \<Longrightarrow> readKind ((0xC0 + of_nat n) # bs) = check_size ((0xC0 + of_nat n) # bs) ListKind 1 (of_nat n)"
  "1 \<le> k \<Longrightarrow> k \<le> 8 \<Longrightarrow> readKind ((0xF7 + of_nat k) # bs) = (case readSize bs (of_nat k) of
     Inl e \<Rightarrow> Inl e | Inr s \<Rightarrow> check_size ((0xF7 + of_nat k) # bs) ListKind (of_nat k + 1) s)"
  by (simp_all add: readKind_def word_less_nat_alt unat_tag small_byte cong: sum.case_cong)

lemma check_size_iff:
  assumes "length buf < 2 ^ 64" "unat ts \<le> length buf"
  shows "check_size buf k ts cs = Inr r \<longleftrightarrow> r = (k, ts, cs) \<and> unat ts + unat cs \<le> length buf"
proof -
  have "unat (of_nat (length buf) - ts) = length buf - unat ts"
    using assms by (subst unat_sub) (auto simp: unat_length word_le_nat_alt)
  then show ?thesis using assms by (auto simp: check_size_def word_less_nat_alt not_less)
qed

text \<open>Splitting once the tag has been read.\<close>

lemma cut_iff:
  assumes "m + n \<le> length b"
  shows "c = take n (drop m b) \<and> r = drop (m + n) b \<longleftrightarrow> n = length c \<and> (\<exists>h. length h = m \<and> b = h @ c @ r)"
proof
  assume a: "c = take n (drop m b) \<and> r = drop (m + n) b"
  then have "b = take m b @ c @ r" by (metis add.commute append_take_drop_id drop_drop)
  with a assms show "n = length c \<and> (\<exists>h. length h = m \<and> b = h @ c @ r)"
    by (intro conjI exI [of _ "take m b"]) auto
qed auto

lemma Split_checked:
  assumes "readKind b = check_size b k ts cs" "length b < 2 ^ 64" "unat ts \<le> length b"
  shows "Split b = Inr (k', c, r) \<longleftrightarrow> k' = k \<and> unat cs = length c \<and> (\<exists>h. length h = unat ts \<and> b = h @ c @ r)"
proof (cases "unat ts + unat cs \<le> length b")
  case True
  then have sum: "unat (ts + cs) = unat ts + unat cs" using assms(2) by (simp add: unat_word_ariths)
  have "readKind b = Inr (k, ts, cs)" unfolding assms(1) check_size_iff [OF assms(2,3)] using True by simp
  then have "Split b = Inr (k', c, r) \<longleftrightarrow>
      k' = k \<and> c = take (unat cs) (drop (unat ts) b) \<and> r = drop (unat ts + unat cs) b"
    by (auto simp: Split_def sum)
  then show ?thesis unfolding cut_iff [OF True] .
next
  case False
  then obtain e where "readKind b = Inl e"
    using check_size_iff [OF assms(2,3), of k cs] unfolding assms(1) by (cases "check_size b k ts cs") auto
  with False show ?thesis by (auto simp: Split_def)
qed

lemma kind_enc_eq:
  assumes "length c < 2 ^ 64"
  shows "kind_enc StringKind c = (if length c < 56 then (0x80 + of_nat (length c)) # c
      else (0xB7 + of_nat (length (putint (of_nat (length c))))) # putint (of_nat (length c)) @ c)"
    "kind_enc ListKind c = (if length c < 56 then (0xC0 + of_nat (length c)) # c
      else (0xF7 + of_nat (length (putint (of_nat (length c))))) # putint (of_nat (length c)) @ c)"
  using puthead_eq [OF assms] by auto

lemma long_head:
  assumes "56 \<le> length c" "length c < 2 ^ 64"
  defines "s \<equiv> of_nat (length c) :: u64"
  shows "readSize (putint s @ c @ rest) (of_nat (length (putint s))) = Inr s" "unat s = length c"
    "unat (of_nat (length (putint s)) + 1 :: u64) = length (putint s) + 1"
proof -
  show s: "unat s = length c" using assms by (simp add: s_def unat_length)
  show "unat (of_nat (length (putint s)) + 1 :: u64) = length (putint s) + 1"
    using unat_length [of "length (putint s) + 1"] length_putint(2) [of s] by (simp add: add.commute)
  show "readSize (putint s @ c @ rest) (of_nat (length (putint s))) = Inr s"
    using readSize_iff [OF length_putint, of "putint s @ c @ rest" s s] assms(1) s by (auto simp: word_le_nat_alt)
qed

lemma Split_short:
  assumes "readKind (x # c @ rest) = check_size (x # c @ rest) k 1 (of_nat (length c))" "length (x # c @ rest) < 2 ^ 64"
  shows "Split (x # c @ rest) = Inr (k, c, rest)"
  unfolding Split_checked [OF assms, simplified]
  using assms(2) by (auto simp: unat_length intro!: exI [of _ "[x]"])

lemma Split_long:
  fixes c :: "byte list"
  defines "s \<equiv> of_nat (length c) :: u64"
  assumes "readKind (x # putint s @ c @ rest) = (case readSize (putint s @ c @ rest) (of_nat (length (putint s))) of
      Inl e \<Rightarrow> Inl e | Inr s' \<Rightarrow> check_size (x # putint s @ c @ rest) k (of_nat (length (putint s)) + 1) s')"
    and "56 \<le> length c" "length (x # putint s @ c @ rest) < 2 ^ 64"
  shows "Split (x # putint s @ c @ rest) = Inr (k, c, rest)"
proof -
  note long = long_head [where c = c, folded s_def]
  have "readKind (x # putint s @ c @ rest) = check_size (x # putint s @ c @ rest) k (of_nat (length (putint s)) + 1) s"
    unfolding assms(2) using long(1) assms(3,4) by simp
  from Split_checked [OF this assms(4), of k c rest] long assms(3,4) show ?thesis
    by (auto intro!: exI [of _ "x # putint s"])
qed

lemma Split_kind_enc:
  assumes "kind_ok k c" "length (kind_enc k c @ rest) < 2 ^ 64"
  shows "Split (kind_enc k c @ rest) = Inr (k, c, rest)"
proof -
  have c: "length c < 2 ^ 64" using assms(2) by (cases k) auto
  note head = kind_enc_eq [OF c]
  show ?thesis
  proof (cases k)
    case ByteKind
    then obtain x where x: "c = [x]" "x < 0x80" using assms(1) by (cases c) auto
    have "readKind (c @ rest) = check_size (c @ rest) ByteKind 0 1" using x by (simp add: readKind_tags)
    from Split_checked [OF this, of ByteKind c rest] show ?thesis using assms(2) ByteKind x by simp
  next
    case StringKind
    have ok: "\<not> (length c = 1 \<and> c @ rest \<noteq> [] \<and> hd (c @ rest) < 128)" using assms(1) StringKind by (cases c) auto
    show ?thesis
    proof (cases "length c < 56")
      case True
      then show ?thesis using Split_short [of "0x80 + of_nat (length c)" c rest StringKind] ok assms(2) head StringKind
        by (simp only: readKind_tags(2) if_False if_True append_Cons)
    next
      case False
      then show ?thesis
        using Split_long [of "0xB7 + of_nat (length (putint (of_nat (length c))))" c rest StringKind] assms(2) head StringKind
        by (simp add: readKind_tags(3) [OF length_putint])
    qed
  next
    case ListKind
    show ?thesis
    proof (cases "length c < 56")
      case True
      then show ?thesis using Split_short [of "0xC0 + of_nat (length c)" c rest ListKind] assms(2) head ListKind
        by (simp only: readKind_tags(4) if_False if_True append_Cons)
    next
      case False
      then show ?thesis
        using Split_long [of "0xF7 + of_nat (length (putint (of_nat (length c))))" c rest ListKind] assms(2) head ListKind
        by (simp add: readKind_tags(5) [OF length_putint])
    qed
  qed
qed

lemma Split_only_kind_enc:
  assumes "Split b = Inr (k, c, rest)" "length b < 2 ^ 64"
  shows "kind_ok k c \<and> b = kind_enc k c @ rest"
proof (cases b)
  case (Cons x bs)
  have short: "k = k' \<and> bs = c @ rest \<and> length c = n"
    if "readKind b = check_size b k' 1 (of_nat n)" "n < 56" for k' n
    using assms(1) Split_checked [OF that(1) assms(2), of k c rest] that(2) Cons by (auto simp: length_Suc_conv unat_length)
  have long: "k = k' \<and> 56 \<le> length c \<and> bs = putint (of_nat (length c)) @ c @ rest \<and> length (putint (of_nat (length c))) = n"
    if "readKind b = (case readSize bs (of_nat n) of Inl e \<Rightarrow> Inl e | Inr s \<Rightarrow> check_size b k' (of_nat n + 1) s)"
      "1 \<le> n" "n \<le> 8" for k' n
  proof -
    note kind = that(1)
    obtain s where s: "readSize bs (of_nat n) = Inr s"
      using assms(1) kind by (cases "readSize bs (of_nat n)") (auto simp: Split_def)
    with readSize_iff [OF that(2,3)] have r: "56 \<le> s" "length (putint s) = n" "\<exists>cs. bs = putint s @ cs" by auto
    have n: "unat (of_nat n + 1 :: u64) = n + 1" using unat_length [of "n + 1"] that(3) by (simp add: add.commute)
    have "readKind b = check_size b k' (of_nat n + 1) s" using that(1) s by simp
    from assms(1) Split_checked [OF this assms(2), of k c rest] n r(2,3) Cons
    obtain h where h: "k = k'" "unat s = length c" "length h = n + 1" "b = h @ c @ rest" by auto
    obtain cs where cs: "bs = putint s @ cs" using r(3) by blast
    obtain y h' where y: "h = y # h'" using h(3) by (cases h) auto
    have "length (putint s) = length h'" "putint s @ cs = h' @ c @ rest" using h(3,4) r(2) y cs Cons by simp_all
    then have "bs = putint s @ c @ rest" using cs by simp
    moreover have "s = of_nat (length c)" using arg_cong [OF h(2), of "of_nat :: nat \<Rightarrow> u64"] by simp
    ultimately show ?thesis using h r by (simp add: word_le_nat_alt)
  qed
  show ?thesis
  proof (cases rule: tag_cases [of x])
    case 1
    then have "readKind b = check_size b ByteKind 0 1" using Cons by (simp add: readKind_tags(1))
    from assms(1) Split_checked [OF this assms(2), of k c rest] have "k = ByteKind" "length c = 1" "b = c @ rest" by simp_all
    with 1 Cons show ?thesis by (cases c) simp_all
  next
    case (2 n)
    have ok: "\<not> (n = 1 \<and> bs \<noteq> [] \<and> hd bs < 128)"
      using assms(1) readKind_tags(2) [OF 2(1), of bs] 2(2) Cons by (auto simp: Split_def)
    then have "readKind b = check_size b StringKind 1 (of_nat n)" using readKind_tags(2) [OF 2(1), of bs] 2(2) Cons by auto
    note s = short [OF this 2(1)]
    then have "kind_ok StringKind c" using ok by (cases c) auto
    moreover have "length c < 2 ^ 64" using s 2(1) by simp
    ultimately show ?thesis using s 2 Cons by (simp add: kind_enc_eq del: kind_enc.simps)
  next
    case (3 n)
    have "readKind b = (case readSize bs (of_nat n) of Inl e \<Rightarrow> Inl e | Inr s \<Rightarrow> check_size b StringKind (of_nat n + 1) s)"
      unfolding Cons 3(3) by (rule readKind_tags(3) [OF 3(1,2)])
    note l = long [OF this 3(1,2)]
    then have "length c < 2 ^ 64" using assms(2) Cons by auto
    then show ?thesis using l 3 Cons by (auto simp: kind_enc_eq simp del: kind_enc.simps)
  next
    case (4 n)
    then have "readKind b = check_size b ListKind 1 (of_nat n)" using readKind_tags(4) [OF 4(1), of bs] Cons by simp
    note s = short [OF this 4(1)]
    then have "length c < 2 ^ 64" using 4(1) by simp
    then show ?thesis using s 4 Cons by (simp add: kind_enc_eq del: kind_enc.simps)
  next
    case (5 n)
    have "readKind b = (case readSize bs (of_nat n) of Inl e \<Rightarrow> Inl e | Inr s \<Rightarrow> check_size b ListKind (of_nat n + 1) s)"
      unfolding Cons 5(3) by (rule readKind_tags(5) [OF 5(1,2)])
    note l = long [OF this 5(1,2)]
    then have "length c < 2 ^ 64" using assms(2) Cons by auto
    then show ?thesis using l 5 Cons by (auto simp: kind_enc_eq simp del: kind_enc.simps)
  qed
qed (use assms(1) in \<open>simp add: Split_def readKind_def\<close>)

text \<open>
  C32. Splitting is exact: \<^verbatim>\<open>Split\<close> returns a kind, a content and a rest precisely when the input
  is the canonical encoding of that content, followed by the rest. So it undoes the
  encoding, and rejects everything that is not canonical: sizes with leading zeros, long
  headers for short contents, headers for single small bytes, and truncated input.
\<close>

theorem Split_exact:
  assumes "length b < 2 ^ 64"
  shows "Split b = Inr (k, c, rest) \<longleftrightarrow> kind_ok k c \<and> b = kind_enc k c @ rest"
  using Split_kind_enc [of k c rest] Split_only_kind_enc [OF _ assms, of k c rest] assms by blast

theorem Split_exact_witness:
  "Split [0x82, 0xab, 0xcd, 7] = Inr (StringKind, [0xab, 0xcd], [7]) \<and> Split [0x81, 5] \<noteq> Inr (StringKind, [5], [])"
proof -
  have "kind_enc StringKind [0xab, 0xcd] = [0x82, 0xab, 0xcd]" "kind_ok StringKind [0xab, 0xcd]" "\<not> kind_ok StringKind [5]"
    by (simp_all add: puthead_def word_less_nat_alt)
  then show ?thesis
    using Split_exact [of "[0x82, 0xab, 0xcd, 7]" StringKind "[0xab, 0xcd]" "[7]"] Split_exact [of "[0x81, 5]" StringKind "[5]" "[]"]
    by simp
qed

section \<open>Values read back\<close>

text \<open>Values without encoded parts taken as they are.\<close>

fun plain :: "item \<Rightarrow> bool" where
  "plain (Str b) \<longleftrightarrow> True"
| "plain (Raw b) \<longleftrightarrow> False"
| "plain (Lst xs) \<longleftrightarrow> list_all plain xs"

fun kind_of :: "item \<Rightarrow> Kind" where
  "kind_of (Str b) = (if length b = 1 \<and> hd b < 0x80 then ByteKind else StringKind)"
| "kind_of (Raw b) = StringKind"
| "kind_of (Lst xs) = ListKind"

fun content :: "item \<Rightarrow> byte list" where
  "content (Str b) = b"
| "content (Raw b) = b"
| "content (Lst xs) = concat (map rlp xs)"

lemma rlp_kind_enc: "plain x \<Longrightarrow> rlp x = kind_enc (kind_of x) (content x)" "plain x \<Longrightarrow> kind_ok (kind_of x) (content x)"
  by (cases x; auto simp: word_le_nat_alt word_less_nat_alt Let_def)+

lemma Split_rlp: "plain x \<Longrightarrow> length (rlp x @ rest) < 2 ^ 64 \<Longrightarrow> Split (rlp x @ rest) = Inr (kind_of x, content x, rest)"
  using Split_kind_enc [of "kind_of x" "content x" rest] rlp_kind_enc [of x] by simp

lemma rlp_not_Nil [simp]: "plain x \<Longrightarrow> rlp x \<noteq> []"
  using rlp_kind_enc [of x] by (cases "kind_of x") (auto simp: puthead_def Let_def)

lemma CountValues_loop_Split:
  "CountValues_loop i b = (if b = [] then Some (Inr i)
     else case Split b of Inl e \<Rightarrow> Some (Inl e) | Inr (_, _, rest) \<Rightarrow> CountValues_loop (i + 1) rest)"
  by (subst CountValues_loop.simps) (auto simp: Split_def split: sum.split prod.split)

lemma CountValues_loop_items:
  "list_all plain xs \<Longrightarrow> length (concat (map rlp xs)) < 2 ^ 64 \<Longrightarrow>
     CountValues_loop i (concat (map rlp xs)) = Some (Inr (i + length xs))"
proof (induction xs arbitrary: i)
  case (Cons x xs)
  then show ?case using Split_rlp [of x "concat (map rlp xs)"] by (subst CountValues_loop_Split) simp
qed (simp add: CountValues_loop_Split)

lemma rlp_inj:
  assumes "rlp x @ r = rlp y @ s" "plain x" "plain y" "length (rlp x @ r) < 2 ^ 64"
  shows "x = y \<and> r = s"
  using assms
proof (induction x arbitrary: y r s)
  case (Str b)
  from Split_rlp [OF Str(2,4)] Split_rlp [OF Str(3), of s] Str show ?case
    by (cases y) (auto split: if_splits)
next
  case (Lst xs)
  from Split_rlp [OF Lst(3,5)] Split_rlp [OF Lst(4), of s] Lst(2,5)
  have eq: "kind_of y = ListKind" "content y = concat (map rlp xs)" "r = s" by simp_all
  then obtain ys where y: "y = Lst ys" by (cases y) (auto split: if_splits)
  have "us = vs" if "concat (map rlp us) = concat (map rlp vs)" "set us \<subseteq> set xs" "list_all plain us" "list_all plain vs"
    "length (concat (map rlp us)) < 2 ^ 64" for us vs
    using that
  proof (induction us arbitrary: vs)
    case Nil
    then show ?case by (cases vs) auto
  next
    case (Cons u us)
    then obtain v ws where v: "vs = v # ws" by (cases vs) auto
    with Cons.prems Lst.IH [of u "concat (map rlp us)" v "concat (map rlp ws)"]
    have "u = v \<and> concat (map rlp us) = concat (map rlp ws)" by auto
    with v Cons show ?case by auto
  qed
  from this [of xs ys] eq y Lst show ?case by (simp add: Let_def)
qed simp

lemma Encode_item: "item_of v = Some x \<Longrightarrow> Encode v = Some (Inr (rlp x))"
  by (simp add: Encode_def write_val_item Encode_rlp)

lemma Encode_Some: "Encode v = Some (Inr b) \<Longrightarrow> item_of v = Some x \<Longrightarrow> b = rlp x"
  by (simp add: Encode_item)



section \<open>Values of one type\<close>

text \<open>
  The encoding does not record the type of a value: the integer one and the boolean true
  have the same bytes, and so have zero and the empty byte string. A decoder is given the
  type, so values are compared within one type. The types are those whose values the
  encoding keeps apart; raw values, interfaces and nil pointers are left out.
\<close>

datatype rtype = TUint | TBool | TBigInt | TBytes | TSlice rtype | TStruct "rtype list"

fun has_type :: "val \<Rightarrow> rtype \<Rightarrow> bool" and has_types :: "val list \<Rightarrow> rtype list \<Rightarrow> bool" where
  "has_type (Uint i) T = (T = TUint)"
| "has_type (Bool b) T = (T = TBool)"
| "has_type (BigInt i) T = (T = TBigInt \<and> i \<noteq> None)"
| "has_type (ByteSlice b) T = (T = TBytes)"
| "has_type (Slice vs) T = (case T of TSlice U \<Rightarrow> has_types vs (replicate (length vs) U) | _ \<Rightarrow> False)"
| "has_type (Struct vs) T = (case T of TStruct Us \<Rightarrow> has_types vs Us | _ \<Rightarrow> False)"
| "has_type _ T = False"
| "has_types [] Ts = (Ts = [])"
| "has_types (v # vs) Ts = (case Ts of [] \<Rightarrow> False | T # Ts \<Rightarrow> has_type v T \<and> has_types vs Ts)"

lemma putint_inj:
  assumes "putint i = putint j"
  shows "i = j"
proof -
  have "be_read 0 (putint i) = i" for i
  proof -
    obtain k where k: "putint i = be_word k i" "unat i < 2 ^ (8 * k)" by (rule putint_size)
    then have "unat (take_bit (8 * k) i) = unat i"
      by (simp only: unsigned_take_bit_eq) (simp add: take_bit_nat_eq_self)
    then have "take_bit (8 * k) i = i" by (rule unsigned_word_eqI)
    then show ?thesis using be_read_be_word [of 0 k i] by (simp add: k(1))
  qed
  with assms show ?thesis by metis
qed

lemma putint_not_Nil [simp]: "putint i \<noteq> []" "[] \<noteq> putint i"
  using length_putint(1) [of i] by auto

lemma SetBytes_Bytes:
  assumes "0 \<le> z"
  shows "SetBytes (Bytes z) = z"
proof -
  let ?n = "length (Bytes z)"
  have "nat z < 256 ^ ?n" using nat_bytes_length [of "nat z" ?n] assms by (simp add: Bytes_def)
  then have "z < 256 ^ ?n" using assms by (simp add: nat_less_iff)
  with assms show ?thesis using Bytes_eq [OF assms refl] SetBytes_be_bytes [of ?n z] by simp
qed

lemma length_those: "those ys = Some xs \<Longrightarrow> length ys = length xs"
  by (induction ys arbitrary: xs) (auto split: option.splits)

lemma typed_plain:
  "has_type v T \<Longrightarrow> item_of v = Some x \<Longrightarrow> plain x"
  "has_types vs Ts \<Longrightarrow> those (map item_of vs) = Some xs \<Longrightarrow> list_all plain xs"
proof (induction v T and vs Ts arbitrary: x and xs rule: has_type_has_types.induct)
qed (auto split: option.splits if_splits rtype.splits list.splits)

lemma typed_item_inj:
  "has_type v T \<Longrightarrow> has_type w T \<Longrightarrow> item_of v = Some x \<Longrightarrow> item_of w = Some x \<Longrightarrow> v = w"
  "has_types vs Ts \<Longrightarrow> has_types ws Ts \<Longrightarrow> those (map item_of vs) = Some xs \<Longrightarrow>
     those (map item_of ws) = Some xs \<Longrightarrow> vs = ws"
proof (induction v T and vs Ts arbitrary: w x and ws xs rule: has_type_has_types.induct)
  case (1 i T)
  then show ?case
    by (cases w) (auto split: if_splits dest: putint_inj)
next
  case (2 b T)
  then show ?case by (cases w) (auto split: if_splits)
next
  case (3 i T)
  then show ?case by (cases w) (auto split: option.splits if_splits dest: arg_cong [of _ _ SetBytes] simp: SetBytes_Bytes)
next
  case (4 b T)
  then show ?case by (cases w) auto
next
  case (5 vs T)
  then obtain U xs ws where u: "T = TSlice U" "x = Lst xs" "w = Slice ws" "those (map item_of vs) = Some xs"
    "those (map item_of ws) = Some xs"
    by (cases w) (auto split: rtype.splits option.splits)
  moreover have "length vs = length ws" using length_those [OF u(4)] length_those [OF u(5)] by simp
  ultimately show ?case using 5 by simp
next
  case (6 vs T)
  then show ?case by (cases w) (auto split: rtype.splits)
next
  case (8 Ts)
  then show ?case by (cases ws) auto
next
  case (9 v vs Ts)
  from 9(3) obtain T Us where T: "Ts = T # Us" by (cases Ts) auto
  with 9(4) obtain w us where w: "ws = w # us" by (cases ws) auto
  obtain x ys where x: "xs = x # ys" "item_of v = Some x" "those (map item_of vs) = Some ys"
    using 9(5) by (auto split: option.splits)
  then have y: "item_of w = Some x" "those (map item_of us) = Some ys"
    using 9(6) w by (auto split: option.splits)
  have "v = w" using 9(1) [OF T _ _ x(2) y(1)] 9(3,4) T w by simp
  moreover have "vs = us" using 9(2) [OF T _ _ x(3) y(2)] 9(3,4) T w by simp
  ultimately show ?case using w by simp
qed auto



end
