(* ===== verification/Rlp_Reader.thy ===== *)
theory Rlp_Reader
  imports Rlp
begin

text \<open>
  \<^verbatim>\<open>EncodeToReader\<close> and its \<^verbatim>\<open>encReader\<close> (\<^verbatim>\<open>src/common/rlp/encode.go\<close>), which hands out the
  encoding piece by piece. The contract of a reader is a locale; its lemmas say what reading
  in chunks and reading to the end return, and are used for \<^verbatim>\<open>encReader\<close>.
\<close>

section \<open>The reader\<close>

text \<open>Slicing the string data out of range panics: \<open>None\<close>.\<close>

record encReader =
  er_buf :: "encbuf option"
  er_lhpos :: nat
  er_strpos :: nat
  er_piece :: "byte list option"

definition er_next :: "encReader \<Rightarrow> (byte list option \<times> encReader) option" where
  "er_next r = (case er_buf r of
     None \<Rightarrow> Some (None, r)
   | Some buf \<Rightarrow> (case er_piece r of
       Some p \<Rightarrow> Some (Some p, r)
     | None \<Rightarrow>
         if er_lhpos r < length (lheads buf) then
           (let head = lheads buf ! er_lhpos r in
            if lh_offset head > er_strpos r then
              (if lh_offset head > length (str buf) then None
               else Some (Some (take (lh_offset head - er_strpos r) (drop (er_strpos r) (str buf))),
                 r\<lparr>er_strpos := lh_offset head\<rparr>))
            else Some (Some (lh_encode head), r\<lparr>er_lhpos := er_lhpos r + 1\<rparr>))
         else if er_strpos r < length (str buf) then
           Some (Some (drop (er_strpos r) (str buf)), r\<lparr>er_strpos := length (str buf)\<rparr>)
         else Some (None, r)))"

text \<open>What is left to visit, for the termination of \<open>Read\<close>.\<close>

definition er_todo :: "encReader \<Rightarrow> nat" where
  "er_todo r = (case er_buf r of None \<Rightarrow> 0
     | Some buf \<Rightarrow> (length (lheads buf) - er_lhpos r) + (length (str buf) - er_strpos r) +
         (if er_piece r = None then 0 else 1))"

lemma er_next_todo: "er_next r = Some (Some p, r1) \<Longrightarrow> er_todo (r1\<lparr>er_piece := None\<rparr>) < er_todo r"
  by (auto simp: er_next_def er_todo_def Let_def split: option.splits if_splits)

text \<open>The space left in the target, and what has been copied to it; the flag is \<^verbatim>\<open>io.EOF\<close>.\<close>

function Read_loop :: "nat \<Rightarrow> encReader \<Rightarrow> byte list \<Rightarrow> ((byte list \<times> bool) \<times> encReader) option" where
  "Read_loop space r acc = (case er_next r of
     None \<Rightarrow> None
   | Some (None, r1) \<Rightarrow> Some ((acc, True), r1\<lparr>er_buf := None, er_piece := None\<rparr>)
   | Some (Some p, r1) \<Rightarrow>
       if min space (length p) < length p
       then Some ((acc @ take space p, False), r1\<lparr>er_piece := Some (drop space p)\<rparr>)
       else Read_loop (space - length p) (r1\<lparr>er_piece := None\<rparr>) (acc @ p))"
  by pat_completeness auto
termination
  by (relation "measure (\<lambda>(space, r, acc). er_todo r)") (auto dest: er_next_todo)

definition Read :: "nat \<Rightarrow> encReader \<Rightarrow> ((byte list \<times> bool) \<times> encReader) option" where
  "Read n r = Read_loop n r []"

definition EncodeToReader :: "val \<Rightarrow> encode_error + nat \<times> encReader" where
  "EncodeToReader v = (case write_val v empty_encbuf of
     Inl e \<Rightarrow> Inl e
   | Inr w \<Rightarrow> Inr (encbuf_size w, \<lparr>er_buf = Some w, er_lhpos = 0, er_strpos = 0, er_piece = None\<rparr>))"

section \<open>The contract of a reader\<close>

primrec read_chunks :: "(nat \<Rightarrow> 'r \<Rightarrow> ((byte list \<times> bool) \<times> 'r) option) \<Rightarrow> nat list \<Rightarrow> 'r \<Rightarrow> (byte list \<times> 'r) option" where
  "read_chunks read [] r = Some ([], r)"
| "read_chunks read (n # ns) r = (case read n r of
     None \<Rightarrow> None
   | Some ((xs, _), r1) \<Rightarrow> map_option (map_prod ((@) xs) id) (read_chunks read ns r1))"

partial_function (option) read_to_end :: "(nat \<Rightarrow> 'r \<Rightarrow> ((byte list \<times> bool) \<times> 'r) option) \<Rightarrow> nat \<Rightarrow> 'r \<Rightarrow> byte list option" where
  "read_to_end read n r = (case read n r of
     None \<Rightarrow> None
   | Some ((xs, eof), r1) \<Rightarrow> if eof then Some xs else Option.bind (read_to_end read n r1) (\<lambda>ys. Some (xs @ ys)))"

text \<open>
  \<open>left r xs\<close> says that \<open>r\<close> has the bytes \<open>xs\<close> left. A read fills the target as far as they go
  and reports the end as soon as they are used up.
\<close>

locale byte_reader =
  fixes read :: "nat \<Rightarrow> 'r \<Rightarrow> ((byte list \<times> bool) \<times> 'r) option" and left :: "'r \<Rightarrow> byte list \<Rightarrow> bool"
  assumes read_left: "left r xs \<Longrightarrow> \<exists>r'. read n r = Some ((take n xs, length xs \<le> n), r') \<and> left r' (drop n xs)"
begin

lemma chunks: "left r xs \<Longrightarrow> \<exists>r'. read_chunks read ns r = Some (take (sum_list ns) xs, r') \<and> left r' (drop (sum_list ns) xs)"
proof (induction ns arbitrary: r xs)
  case (Cons n ns)
  from read_left [OF Cons.prems, of n] obtain r1 where
    r1: "read n r = Some ((take n xs, length xs \<le> n), r1)" "left r1 (drop n xs)" by blast
  from Cons.IH [OF r1(2)] r1(1) show ?case by (auto simp: take_add add.commute)
qed simp

lemma to_end: "left r xs \<Longrightarrow> 0 < n \<Longrightarrow> read_to_end read n r = Some xs"
proof (induction "length xs" arbitrary: r xs rule: less_induct)
  case less
  from read_left [OF less.prems(1), of n] obtain r1 where
    r1: "read n r = Some ((take n xs, length xs \<le> n), r1)" "left r1 (drop n xs)" by blast
  show ?case
  proof (cases "length xs \<le> n")
    case False
    with less.hyps [OF _ r1(2)] less.prems(2) have "read_to_end read n r1 = Some (drop n xs)" by simp
    with r1(1) False show ?thesis by (subst read_to_end.simps) simp
  qed (use r1(1) in \<open>subst read_to_end.simps, simp\<close>)
qed

end

section \<open>The reader of encodings keeps the contract\<close>

definition unread :: "encReader \<Rightarrow> byte list \<Rightarrow> bool" where
  "unread r xs \<longleftrightarrow> (case er_buf r of
     None \<Rightarrow> xs = []
   | Some buf \<Rightarrow> er_strpos r \<le> length (str buf) \<and> er_piece r \<noteq> Some [] \<and>
       map_option ((@) (case er_piece r of None \<Rightarrow> [] | Some p \<Rightarrow> p))
         (toWriter_loop (str buf) (er_strpos r) (drop (er_lhpos r) (lheads buf))) = Some xs)"

lemma lh_encode_not_Nil [simp]: "lh_encode h \<noteq> []"
  by (simp add: lh_encode_def puthead_def Let_def)

lemma unread_piece:
  assumes "er_buf r = Some buf" "er_strpos r \<le> length (str buf)"
    "toWriter_loop (str buf) (er_strpos r) (drop (er_lhpos r) (lheads buf)) = Some ys"
  shows "unread (r\<lparr>er_piece := None\<rparr>) ys" "q \<noteq> [] \<Longrightarrow> unread (r\<lparr>er_piece := Some q\<rparr>) (q @ ys)"
  using assms by (simp_all add: unread_def)

text \<open>The next piece when a header is ahead, and when none is.\<close>

lemma er_next_header:
  assumes "er_buf r = Some buf" "er_piece r = None" "drop (er_lhpos r) (lheads buf) = h # hs"
    and "er_strpos r \<le> length (str buf)" "toWriter_loop (str buf) (er_strpos r) (h # hs) = Some xs"
  obtains r1 p ys where "p \<noteq> []" "xs = p @ ys" "er_next r = Some (Some p, r1)" "er_buf r1 = Some buf"
    "er_strpos r1 \<le> length (str buf)" "toWriter_loop (str buf) (er_strpos r1) (drop (er_lhpos r1) (lheads buf)) = Some ys"
proof -
  have i: "er_lhpos r < length (lheads buf)" using assms(3) by (metis drop_eq_Nil list.distinct(1) not_less)
  then have h: "lheads buf ! er_lhpos r = h" "drop (Suc (er_lhpos r)) (lheads buf) = hs"
    using assms(3) by (simp_all flip: Cons_nth_drop_Suc)
  have off: "lh_offset h \<le> length (str buf)" using assms(5) by (auto split: if_splits)
  show thesis
  proof (cases "lh_offset h > er_strpos r")
    case False
    then show ?thesis using assms i h off
      by (intro that [of "lh_encode h" "drop (length (lh_encode h)) xs" "r\<lparr>er_lhpos := er_lhpos r + 1\<rparr>"])
         (auto simp: er_next_def)
  next
    case gap: True
    let ?p = "take (lh_offset h - er_strpos r) (drop (er_strpos r) (str buf))"
    have "\<exists>zs. toWriter_loop (str buf) (lh_offset h) (h # hs) = Some zs \<and> xs = ?p @ zs"
      using assms(5) gap off by auto
    then obtain zs where "toWriter_loop (str buf) (lh_offset h) (h # hs) = Some zs" "xs = ?p @ zs" by blast
    then show ?thesis using assms i h off gap
      by (intro that [of ?p zs "r\<lparr>er_strpos := lh_offset h\<rparr>"]) (auto simp: er_next_def)
  qed
qed

lemma er_next_tail:
  assumes "er_buf r = Some buf" "er_piece r = None" "drop (er_lhpos r) (lheads buf) = []"
  shows "er_next r = (if er_strpos r < length (str buf)
    then Some (Some (drop (er_strpos r) (str buf)), r\<lparr>er_strpos := length (str buf)\<rparr>) else Some (None, r))"
  using assms by (simp add: er_next_def)

lemma er_next_unread:
  assumes "unread r xs"
  obtains r1 where "xs = []" "er_next r = Some (None, r1)"
  | r1 buf p ys where "p \<noteq> []" "xs = p @ ys" "er_next r = Some (Some p, r1)" "er_buf r1 = Some buf"
    "er_strpos r1 \<le> length (str buf)" "toWriter_loop (str buf) (er_strpos r1) (drop (er_lhpos r1) (lheads buf)) = Some ys"
proof (cases "er_buf r")
  case None
  with assms that(1) show ?thesis by (simp add: unread_def er_next_def)
next
  case buf: (Some buf)
  then obtain ys where ys: "er_strpos r \<le> length (str buf)" "er_piece r \<noteq> Some []"
    "toWriter_loop (str buf) (er_strpos r) (drop (er_lhpos r) (lheads buf)) = Some ys"
    "xs = (case er_piece r of None \<Rightarrow> [] | Some p \<Rightarrow> p) @ ys"
    using assms by (auto simp: unread_def)
  show ?thesis
  proof (cases "er_piece r")
    case (Some p)
    with ys buf show ?thesis by (intro that(2) [of p ys r buf]) (auto simp: er_next_def)
  next
    case piece: None
    show ?thesis
    proof (cases "drop (er_lhpos r) (lheads buf)")
      case (Cons h hs)
      from er_next_header [OF buf piece Cons ys(1) ys(3) [unfolded Cons]] that(2) ys(4) piece show ?thesis by simp metis
    next
      case Nil
      have "ys = drop (er_strpos r) (str buf)" using ys(3) Nil by (simp add: toWriter_loop_Nil del: toWriter_loop.simps(1))
      then show ?thesis using er_next_tail [OF buf piece Nil] ys(4) piece buf Nil
          that(1) that(2) [of "drop (er_strpos r) (str buf)" "[]" "r\<lparr>er_strpos := length (str buf)\<rparr>" buf]
        by (cases "er_strpos r < length (str buf)") simp_all
    qed
  qed
qed

lemma Read_loop_unread:
  "unread r xs \<Longrightarrow> \<exists>r'. Read_loop n r acc = Some ((acc @ take n xs, length xs \<le> n), r') \<and> unread r' (drop n xs)"
proof (induction n r acc arbitrary: xs rule: Read_loop.induct)
  case (1 n r acc)
  show ?case
  proof (rule er_next_unread [OF 1(2)])
    fix r1 assume "xs = []" "er_next r = Some (None, r1)"
    then show ?case by (simp add: unread_def)
  next
    fix r1 buf p ys
    assume p: "p \<noteq> []" "xs = p @ ys" "er_next r = Some (Some p, r1)" "er_buf r1 = Some buf"
      "er_strpos r1 \<le> length (str buf)" "toWriter_loop (str buf) (er_strpos r1) (drop (er_lhpos r1) (lheads buf)) = Some ys"
    note unread = unread_piece [OF p(4-6)]
    show ?case
    proof (cases "n < length p")
      case True
      then show ?thesis using p(2,3) unread(2) [of "drop n p"] by simp
    next
      case False
      then show ?thesis using 1(1) [OF p(3) refl refl _ unread(1)] p(2,3) by auto
    qed
  qed
qed

interpretation enc: byte_reader Read unread
  by unfold_locales (simp add: Read_def Read_loop_unread [of _ _ _ "[]", simplified])

text \<open>
  C35. The reader of an encoding delivers it. Its announced size is the length of the encoding;
  reading in chunks of any sizes returns that many bytes of it, across list headers and
  string data alike; and reading with any target that is not empty reaches the end of the
  stream with exactly the encoding read. No read panics.
\<close>

theorem reader_delivers_encoding:
  assumes "item_of v = Some x"
  shows "\<exists>r. EncodeToReader v = Inr (length (rlp x), r) \<and>
    (\<forall>ns. \<exists>r'. read_chunks Read ns r = Some (take (sum_list ns) (rlp x), r')) \<and>
    (\<forall>n > 0. read_to_end Read n r = Some (rlp x))"
proof -
  let ?w = "write_item x empty_encbuf"
  let ?r = "\<lparr>er_buf = Some ?w, er_lhpos = 0, er_strpos = 0, er_piece = None\<rparr>"
  have "unread ?r (rlp x)" using Encode_rlp [of x] by (simp add: unread_def toWriter_def)
  moreover have "EncodeToReader v = Inr (length (rlp x), ?r)"
    using assms by (simp add: EncodeToReader_def write_val_item) (simp add: write_item_adds encbuf_size_def empty_encbuf_def length_rlp)
  ultimately show ?thesis using enc.chunks enc.to_end by blast
qed

theorem reader_delivers_encoding_witness:
  "\<exists>r. EncodeToReader (Slice [Uint 5, ByteSlice [7, 8, 9]]) = Inr (6, r) \<and> read_to_end Read 2 r = Some [0xC5, 5, 0x83, 7, 8, 9]"
proof -
  have v: "item_of (Slice [Uint 5, ByteSlice [7, 8, 9]]) = Some (Lst [Str [5], Str [7, 8, 9]])"
    "rlp (Lst [Str [5], Str [7, 8, 9]]) = [0xC5, 5, 0x83, 7, 8, 9]" by code_simp+
  show ?thesis using reader_delivers_encoding [OF v(1)] unfolding v(2) by auto
qed

end
