(* ===== verification/Spec2Isabelle.thy ===== *)
theory Spec2Isabelle
  imports State_Commit Evm_Safe Core_Process Trie_Encoding Rlp_Split Rlp_Reader
begin

text \<open>
  OKChain: a verification development for the ledger core of the repository, the Go code that
  turns a block of transactions into a new state and stores it.

  \<^bold>\<open>The program and its parts.\<close> A block is processed transaction by transaction
  (\<^verbatim>\<open>src/core/state_processor.go\<close>). Each transaction becomes a message, is checked, buys its
  gas and is run as a call or a creation (\<^verbatim>\<open>src/core/state_transition.go\<close>) on the virtual
  machine (\<^verbatim>\<open>src/core/vm\<close>), which works on a journaled database of accounts
  (\<^verbatim>\<open>src/core/state\<close>). The database writes accounts and storage back to Merkle tries
  (\<^verbatim>\<open>src/core/trie\<close>), whose nodes are stored in the serialisation of \<^verbatim>\<open>src/common/rlp\<close>. At the end
  of the block the fees and the yield are paid out to the leaders of the shards and to the
  directory.

  \<^bold>\<open>Conventions.\<close> A Go struct is a record with the source's fields, a method a function that
  takes the receiver and returns it updated. Machine integers are words, \<^verbatim>\<open>big.Int\<close> is \<^typ>\<open>int\<close>,
  byte slices are lists of bytes, maps are HOL maps. A Go panic is \<^term>\<open>None\<close>, a returned
  error a value of an error type. Go walks maps in an unspecified order: functions that do
  take the order as an argument, and the theorems hold for all orders. The hash function, the
  elliptic curves, the precompiled contracts, the key-value store below the tries and the
  chain of earlier blocks are parameters, gathered in the records \<open>sdb_env\<close>, \<open>vm_env\<close> and
  \<open>chain_env\<close>.

  \<^bold>\<open>Prelude.\<close> The shared types, the standard library routines the sources call, and the
  collections of rules.

  \<^bold>\<open>The state database.\<close> \<open>State_DB\<close> models \<^verbatim>\<open>statedb.go\<close>, \<^verbatim>\<open>state_object.go\<close> and \<^verbatim>\<open>journal.go\<close>: the
  cache of account objects, the dirty set, the journal with its undo records, snapshots;
  \<open>State_Ops\<close> makes its methods one type of operations. \<open>State_View\<close> defines what can be
  observed of a database; \<open>State_Revert\<close> shows that a revert restores all of it and when it
  panics. \<open>State_Write\<close> models the way back into the tries (\<^verbatim>\<open>updateTrie\<close>, \<^verbatim>\<open>Finalise\<close>, \<^verbatim>\<open>Commit\<close>,
  \<^verbatim>\<open>Copy\<close>, \<^verbatim>\<open>Reset\<close>) and records two defects of the journal; \<open>State_Finalise\<close>, \<open>State_Dirty\<close> and
  \<open>State_Commit\<close> show that finalisation does not depend on the order of Go's maps, persists
  every reachable state, that the committed root is the intermediate root, and that a copy
  answers alike. \<open>State_Runs\<close> compares databases by their read methods, \<open>State_Supply\<close> follows
  the balances, \<open>State_Live\<close> what finalisation between transactions keeps. In these theories
  the tries are their contents together with a root function.

  \<^bold>\<open>The virtual machine.\<close> \<open>Evm_Base\<close> holds big-integer helpers (\<^verbatim>\<open>src/common/math\<close>), stack and
  memory, \<open>Evm_Jumpdest\<close> the analysis of jump destinations, \<open>Evm_Arith\<close> the arithmetic
  instructions and their refinement to 256-bit words. \<open>Evm_Machine\<close>, \<open>Evm_Gas\<close>, \<open>Evm_Instr\<close>,
  \<open>Evm_Call\<close> and \<open>Evm_Interp\<close> model the opcodes, gas functions, instructions, calls and
  creations, the instruction tables and the main loop. \<open>Evm_GasBound\<close> shows that gas bounds
  every run; \<open>Evm_Effects\<close>, \<open>Evm_Sign\<close> and \<open>Evm_Rollback\<close> that a failed call leaves no trace, a
  static call changes nothing and no call creates coins; \<open>Evm_Safe\<close> that instructions do not
  panic and keep the stack well typed.

  \<^bold>\<open>Transactions and blocks.\<close> \<open>Core_Transition\<close> models the gas pool and the state transition and
  accounts for its gas and its coins, on every path including refusals and panics.
  \<open>Core_Process\<close> models \<^verbatim>\<open>Process\<close>, \<^verbatim>\<open>ApplyTransaction\<close> and \<^verbatim>\<open>assignRwards\<close>, and sums the gas, the
  fees and the rewards up over a block.

  \<^bold>\<open>Serialisation.\<close> \<open>Rlp\<close> models the encoding buffer and the writers of values and shows that
  both ways out of the buffer give the recursive encoding; \<open>Rlp_Split\<close> models \<^verbatim>\<open>raw.go\<close>, shows
  that splitting is exact and encodings are uniquely decodable; \<open>Rlp_Reader\<close> states the
  contract of a byte reader as a locale and interprets it with the reader of encodings.
  \<open>Trie_Encoding\<close> models the three forms of trie keys and their conversions.

  \<^bold>\<open>Bounds.\<close> The main loop of the machine takes a bound on its nested steps; the result \<^term>\<open>None\<close>
  means that it was used up. \<open>Evm_GasBound\<close> proves that the gas of a call is always enough and
  that a larger bound changes nothing; for a block ten million is enough, since \<^verbatim>\<open>AsMsg\<close> gives
  every message that much gas. The search \<^verbatim>\<open>sort.Search\<close>, the loops over code and data and the
  size loops of the serialisation are total functions; counting encoded values and reading a
  stream to its end are partial functions proved to return.

  \<^bold>\<open>Not modelled.\<close> The hash functions, curves and signatures (\<^verbatim>\<open>src/crypto\<close>), the precompiled
  contracts and the tracers of the machine: parameters or pure computation on other libraries.
  The node database below the tries, iterators, proofs and sync; the chain of blocks and its
  indexes (\<^verbatim>\<open>src/core/blockchain\<close>, \<^verbatim>\<open>src/core/rawdb\<close>, \<^verbatim>\<open>src/core/database\<close>): key-value storage. The
  transaction pool, the consensus roles and protocols (\<^verbatim>\<open>src/core/server\<close>), mining, gossip and
  network (\<^verbatim>\<open>src/p2p\<close>, \<^verbatim>\<open>src/rpc\<close>): concurrent code driven by timers, channels and messages. The
  decoder by reflection of \<^verbatim>\<open>src/common/rlp\<close>, account management, the interfaces and commands
  (\<^verbatim>\<open>src/accounts\<close>, \<^verbatim>\<open>src/api\<close>, \<^verbatim>\<open>src/cmd\<close>), configuration, logging and generated code. Goroutines, locks
  and logging in the modelled files are left out; the code is called from one goroutine.
\<close>

end
